(* ===== verification/Prelude.thy ===== *)
theory Prelude
  imports Main "HOL-Library.Word" "HOL-Library.Monad_Syntax"
begin

text \<open>
  Shared vocabulary of the development.

  \<^item> Machine integers: \<open>u8\<close> to \<open>u64\<close> are words, and \<open>i64\<close> is a 64-bit word read with \<open>sint\<close>.
    Arithmetic wraps, as it does in a Rust release build.
  \<^item> Panics: a function that can panic (an index out of range, an \<open>unwrap\<close> of a missing value,
    a failed \<open>assert!\<close>) returns an option, and \<open>None\<close> is the panic.  An error returned
    as a value is the left side of a sum, so a fallible function that can also panic has type
    \<open>('e + 'a) panics\<close>.
  \<^item> Slices: \<open>get_at\<close>, \<open>modify_at\<close>, \<open>subslice\<close> and \<open>overwrite\<close> are the checked
    forms of \<open>xs[i]\<close>, \<open>xs[i] = ..\<close>, \<open>xs[a..b]\<close> and \<open>xs[a..].copy_from_slice\<close>.
  \<^item> Byte order: \<open>le_bytes\<close> and \<open>le_word\<close> are the little-endian encoding of a word.
\<close>

unbundle bit_operations_syntax

type_synonym u8 = "8 word"
type_synonym u16 = "16 word"
type_synonym u32 = "32 word"
type_synonym u64 = "64 word"
type_synonym i64 = "64 word"
type_synonym bytes = "u8 list"
type_synonym 'a panics = "'a option"

named_theorems slice_simps \<open>when the checked slice operations succeed and what they return\<close>
named_theorems wire_simps \<open>lengths and round trips of byte encodings\<close>

section \<open>Checked access to lists\<close>

definition get_at :: "'a list \<Rightarrow> nat \<Rightarrow> 'a panics" where
  "get_at xs i = (if i < length xs then Some (xs ! i) else None)"

definition modify_at :: "nat \<Rightarrow> ('a \<Rightarrow> 'a) \<Rightarrow> 'a list \<Rightarrow> 'a list panics" where
  "modify_at i f xs = (if i < length xs then Some (xs[i := f (xs ! i)]) else None)"

definition subslice :: "nat \<Rightarrow> nat \<Rightarrow> 'a list \<Rightarrow> 'a list panics" where
  "subslice a b xs = (if a \<le> b \<and> b \<le> length xs then Some (take (b - a) (drop a xs)) else None)"

definition overwrite :: "nat \<Rightarrow> 'a list \<Rightarrow> 'a list \<Rightarrow> 'a list panics" where
  "overwrite a ys xs =
     (if a + length ys \<le> length xs
      then Some (take a xs @ ys @ drop (a + length ys) xs) else None)"

fun chunks :: "nat \<Rightarrow> 'a list \<Rightarrow> 'a list list" where
  "chunks n xs = (if n = 0 \<or> xs = [] then [] else take n xs # chunks n (drop n xs))"

section \<open>Little-endian bytes\<close>

primrec le_bytes :: "nat \<Rightarrow> 'a::len word \<Rightarrow> bytes" where
  "le_bytes 0 w = []"
| "le_bytes (Suc n) w = ucast w # le_bytes n (drop_bit 8 w)"

primrec le_word :: "bytes \<Rightarrow> 'a::len word" where
  "le_word [] = 0"
| "le_word (b # bs) = ucast b OR push_bit 8 (le_word bs)"

section \<open>Facts about the checked operations\<close>

lemma get_at_Some [slice_simps]: "i < length xs \<Longrightarrow> get_at xs i = Some (xs ! i)"
  by (simp add: get_at_def)

lemma get_at_eq_Some: "get_at xs i = Some x \<longleftrightarrow> i < length xs \<and> xs ! i = x"
  by (auto simp: get_at_def)

lemma get_at_eq_None: "get_at xs i = None \<longleftrightarrow> length xs \<le> i"
  by (auto simp: get_at_def)

lemma modify_at_Some [slice_simps]:
  "i < length xs \<Longrightarrow> modify_at i f xs = Some (xs[i := f (xs ! i)])"
  by (simp add: modify_at_def)

lemma modify_at_eq_Some:
  "modify_at i f xs = Some ys \<longleftrightarrow> i < length xs \<and> ys = xs[i := f (xs ! i)]"
  by (auto simp: modify_at_def)

lemma modify_at_length: "modify_at i f xs = Some ys \<Longrightarrow> length ys = length xs"
  by (auto simp: modify_at_eq_Some)

text \<open>A field that the update does not touch.\<close>

lemma map_modify_at:
  "modify_at i g xs = Some ys \<Longrightarrow> (\<And>x. f (g x) = f x) \<Longrightarrow> map f ys = map f xs"
  by (auto simp: modify_at_eq_Some map_update list_update_same_conv)

lemma subslice_eq_Some:
  "subslice a b xs = Some ys \<longleftrightarrow> a \<le> b \<and> b \<le> length xs \<and> ys = take (b - a) (drop a xs)"
  by (auto simp: subslice_def)

lemma subslice_Some [slice_simps]:
  "a \<le> b \<Longrightarrow> b \<le> length xs \<Longrightarrow> subslice a b xs = Some (take (b - a) (drop a xs))"
  by (simp add: subslice_def)

lemma subslice_length: "subslice a b xs = Some ys \<Longrightarrow> length ys = b - a"
  by (auto simp: subslice_eq_Some)

lemma overwrite_eq_Some:
  "overwrite a ys xs = Some zs \<longleftrightarrow>
     a + length ys \<le> length xs \<and> zs = take a xs @ ys @ drop (a + length ys) xs"
  by (auto simp: overwrite_def)

lemma overwrite_length: "overwrite a ys xs = Some zs \<Longrightarrow> length zs = length xs"
  by (auto simp: overwrite_eq_Some)

lemma subslice_overwrite_same:
  "overwrite a ys xs = Some zs \<Longrightarrow> subslice a (a + length ys) zs = Some ys"
  by (auto simp: overwrite_eq_Some subslice_eq_Some)

text \<open>Bytes outside the written range do not change.\<close>

lemma overwrite_nth:
  assumes "overwrite a ys xs = Some zs" "i < length xs"
  shows "zs ! i = (if a \<le> i \<and> i < a + length ys then ys ! (i - a) else xs ! i)"
  using assms by (auto simp: overwrite_eq_Some nth_append min_def)

lemma subslice_overwrite_other:
  assumes "overwrite a ys xs = Some zs" and "c \<le> a \<or> a + length ys \<le> b"
  shows "subslice b c zs = subslice b c xs"
proof (cases "b \<le> c \<and> c \<le> length xs")
  case True
  have len: "length zs = length xs" using assms(1) by (rule overwrite_length)
  have "take (c - b) (drop b zs) = take (c - b) (drop b xs)"
  proof (rule nth_equalityI)
    show "length (take (c - b) (drop b zs)) = length (take (c - b) (drop b xs))"
      using len by simp
  next
    fix i assume "i < length (take (c - b) (drop b zs))"
    then have "i < c - b" "b + i < length xs" using len by auto
    then show "take (c - b) (drop b zs) ! i = take (c - b) (drop b xs) ! i"
      using assms(2) len overwrite_nth [OF assms(1), of "b + i"] by auto
  qed
  then show ?thesis using True len by (simp add: subslice_def)
next
  case False
  then show ?thesis using overwrite_length [OF assms(1)] by (auto simp: subslice_def)
qed

lemma sum_list_update_group:
  "i < length xs \<Longrightarrow> sum_list (xs[i := x]) = sum_list xs - xs ! i + (x :: 'a::ab_group_add)"
  by (induction xs arbitrary: i) (auto split: nat.split simp: algebra_simps)

lemma modify_at_sum:
  "modify_at i g xs = Some ys \<Longrightarrow> i < length xs \<and>
     sum_list (map f ys) = sum_list (map f xs) + (f (g (xs ! i)) - f (xs ! i) :: 'b::ab_group_add)"
  by (auto simp: modify_at_eq_Some map_update sum_list_update_group)

text \<open>The \<open>Result\<close> of a call that returns no value.\<close>

lemma unit_result_cases: "(r :: 'e + unit) = Inr () \<or> (\<exists>e. r = Inl e)"
  by (cases r) auto

declare chunks.simps [simp del]

lemma chunks_Nil [simp]: "chunks n [] = []"
  by (simp add: chunks.simps)

lemma concat_chunks: "0 < n \<Longrightarrow> concat (chunks n xs) = xs"
proof (induction n xs rule: chunks.induct)
  case (1 n xs)
  then show ?case by (subst chunks.simps) auto
qed

lemma chunks_nonempty: "c \<in> set (chunks n xs) \<Longrightarrow> c \<noteq> []"
proof (induction n xs rule: chunks.induct)
  case (1 n xs)
  then show ?case by (auto simp: chunks.simps [of n xs] split: if_splits)
qed

lemma chunks_length_le: "c \<in> set (chunks n xs) \<Longrightarrow> length c \<le> n"
proof (induction n xs rule: chunks.induct)
  case (1 n xs)
  then show ?case by (auto simp: chunks.simps [of n xs] split: if_splits)
qed

section \<open>Facts about little-endian bytes\<close>

lemma length_le_bytes [simp, wire_simps]: "length (le_bytes n w) = n"
  by (induction n arbitrary: w) auto

lemma le_word_zeros: "le_word (replicate n 0) = 0"
  by (induction n) auto

lemma le_word_le_bytes:
  "8 * n \<le> LENGTH('a) \<Longrightarrow> le_word (le_bytes n (w :: 'a::len word)) = take_bit (8 * n) w"
proof (induction n arbitrary: w)
  case 0
  then show ?case by simp
next
  case (Suc n)
  then have IH: "le_word (le_bytes n (drop_bit 8 w)) = take_bit (8 * n) (drop_bit 8 w)" by simp
  show ?case
  proof (rule bit_word_eqI)
    fix k assume k: "k < LENGTH('a)"
    show "bit (le_word (le_bytes (Suc n) w) :: 'a word) k = bit (take_bit (8 * Suc n) w) k"
      using k Suc.prems
      by (auto simp: IH bit_or_iff bit_push_bit_iff bit_ucast_iff bit_take_bit_iff
            bit_drop_bit_eq not_le)
  qed
qed

lemma le_round_trip [wire_simps]:
  "LENGTH('a) = 8 * n \<Longrightarrow> le_word (le_bytes n (w :: 'a::len word)) = w"
  by (simp add: le_word_le_bytes take_bit_word_eq_self)

lemma le_bytes_inject:
  "LENGTH('a) = 8 * n \<Longrightarrow> le_bytes n v = le_bytes n (w :: 'a::len word) \<longleftrightarrow> v = w"
  by (metis le_round_trip)

lemma le_word_high_bits: "8 * length bs \<le> i \<Longrightarrow> \<not> bit (le_word bs :: 'a::len word) i"
proof (induction bs arbitrary: i)
  case Nil
  then show ?case by simp
next
  case (Cons c cs)
  have "\<not> bit (le_word cs :: 'a word) (i - 8)"
    using Cons.prems by (intro Cons.IH) auto
  moreover have "\<not> bit c i"
    using Cons.prems by (auto dest: bit_imp_le_length)
  ultimately show ?case by (auto simp: bit_or_iff bit_push_bit_iff bit_ucast_iff)
qed

lemma le_word_Cons_head:
  "8 \<le> LENGTH('a) \<Longrightarrow> ucast (le_word (b # bs) :: 'a::len word) = b"
  by (rule bit_word_eqI) (auto simp: bit_ucast_iff bit_or_iff bit_push_bit_iff)

lemma le_word_Cons_tail:
  assumes "8 * Suc (length bs) \<le> LENGTH('a)"
  shows "drop_bit 8 (le_word (b # bs) :: 'a::len word) = le_word bs"
proof (rule bit_word_eqI)
  fix i assume i: "i < LENGTH('a)"
  have "\<not> bit b (8 + i)" by (auto dest: bit_imp_le_length)
  moreover have "bit (le_word bs :: 'a word) i \<Longrightarrow> 8 + i < LENGTH('a)"
    using le_word_high_bits [of bs i] assms by (cases "8 * length bs \<le> i") auto
  ultimately show "bit (drop_bit 8 (le_word (b # bs)) :: 'a word) i = bit (le_word bs :: 'a word) i"
    by (auto simp: bit_drop_bit_eq bit_or_iff bit_push_bit_iff bit_ucast_iff)
qed

lemma le_bytes_le_word:
  "8 * length bs \<le> LENGTH('a) \<Longrightarrow> le_bytes (length bs) (le_word bs :: 'a::len word) = bs"
proof (induction bs)
  case Nil
  then show ?case by simp
next
  case (Cons b bs)
  then show ?case
    using le_word_Cons_head [of b bs, where 'a = 'a] le_word_Cons_tail [of bs b, where 'a = 'a]
    by (simp del: le_word.simps)
qed

section \<open>Signed and unsigned readings\<close>

lemma unat_of_nat_small: "n < 2 ^ LENGTH('a) \<Longrightarrow> unat (of_nat n :: 'a::len word) = n"
  by (simp add: unat_of_nat take_bit_nat_eq_self)

lemma sint_nonneg_uint:
  assumes "0 \<le> sint (w :: i64)"
  shows "sint w = uint w"
proof -
  have top: "\<not> bit (uint w) 63"
    using assms by (simp add: sint_uint signed_take_bit_nonnegative_iff)
  have "take_bit 63 (uint w) = uint w"
  proof (rule bit_eqI)
    fix n
    have "63 \<le> n \<Longrightarrow> \<not> bit (uint w) n"
      using top by (cases "n = 63") (auto simp: bit_uint_iff)
    then show "bit (take_bit 63 (uint w)) n = bit (uint w) n"
      by (cases "n < 63") (auto simp: bit_take_bit_iff)
  qed
  then show ?thesis
    using top by (simp add: sint_uint signed_take_bit_eq_if_positive)
qed

lemma sint_add_nonneg:
  assumes "0 \<le> sint (a :: i64)" "0 \<le> sint b" "0 \<le> sint c" "0 \<le> sint d" and "a + b = c + d"
  shows "sint a + sint b = sint c + sint d"
proof -
  have small: "uint w < 2 ^ 63" if "0 \<le> sint w" for w :: i64
    using sint_nonneg_uint [OF that] sint_lt [of w] by simp
  have "uint (x + y) = uint x + uint y" if "0 \<le> sint x" "0 \<le> sint y" for x y :: i64
    using small [OF that(1)] small [OF that(2)] by (simp add: uint_plus_if_size word_size)
  from this [OF assms(1,2)] this [OF assms(3,4)] show ?thesis
    using assms by (simp add: sint_nonneg_uint)
qed

lemma sint_diff_nonneg:
  assumes "0 \<le> sint (b :: i64)" "sint b \<le> sint a"
  shows "sint (a - b) = sint a - sint b"
  using assms sint_lt [of a] by (simp add: sint_word_ariths signed_take_bit_int_eq_self)

end
