(* ===== verification/Primitives.thy ===== *)
theory Primitives
  imports Prelude "HOL-Library.List_Lexorder"
begin

text \<open>
  The fixed-size byte types \<open>Pubkey\<close> (common/src/pubkey.rs), \<open>Hash\<close> (src/hash.rs) and
  \<open>Signature\<close> (src/signature.rs), the \<open>Account\<close> record (common/src/account.rs), the hashing
  front end of src/hash.rs, and the interfaces of the third-party code underneath them.

  A \<open>GenericArray<u8, U32>\<close> is modelled as the 256-bit word whose little-endian bytes it holds,
  so the type has exactly the values the array has; \<open>as_ref\<close> gives the bytes back.

  Third-party code is a parameter:
  \<^item> bincode is a \<open>codec\<close> per type: \<open>enc\<close> is \<open>serialize\<close>, \<open>dec\<close> is \<open>deserialize\<close>
    with \<open>None\<close> for its error.  The locale \<open>bincode_codec\<close> is what the program relies on.
  \<^item> the sha2 crate is a function \<open>sha\<close> from the bytes fed to the hasher to the digest;
  \<^item> ring's Ed25519 is the record \<open>ed25519\<close>, and \<open>ed25519_contract\<close> is what ring documents of it.
\<close>

section \<open>Keys, hashes, signatures\<close>

datatype pubkey = Pubkey "256 word"
datatype hash = Hash "256 word"
datatype signature = Signature "512 word"

primrec pubkey_as_ref :: "pubkey \<Rightarrow> bytes" where
  "pubkey_as_ref (Pubkey w) = le_bytes 32 w"

primrec hash_as_ref :: "hash \<Rightarrow> bytes" where
  "hash_as_ref (Hash w) = le_bytes 32 w"

primrec signature_as_ref :: "signature \<Rightarrow> bytes" where
  "signature_as_ref (Signature w) = le_bytes 64 w"

text \<open>\<open>clone_from_slice\<close> panics when the slice has the wrong length.\<close>

definition Pubkey_new :: "bytes \<Rightarrow> pubkey panics" where
  "Pubkey_new bs = (if length bs = 32 then Some (Pubkey (le_word bs)) else None)"

definition Hash_new :: "bytes \<Rightarrow> hash panics" where
  "Hash_new bs = (if length bs = 32 then Some (Hash (le_word bs)) else None)"

definition Signature_new :: "bytes \<Rightarrow> signature panics" where
  "Signature_new bs = (if length bs = 64 then Some (Signature (le_word bs)) else None)"

definition Pubkey_default :: pubkey where "Pubkey_default = Pubkey 0"
definition Hash_default :: hash where "Hash_default = Hash 0"
definition Signature_default :: signature where "Signature_default = Signature 0"

section \<open>Accounts\<close>

record account =
  tokens :: i64
  userdata :: bytes
  program_id :: pubkey

text \<open>\<open>vec![0; n]\<close> panics on a capacity overflow, that is beyond \<open>isize::MAX\<close> bytes.\<close>

definition zeroed_vec :: "u64 \<Rightarrow> bytes panics" where
  "zeroed_vec n = (if unat n < 2 ^ 63 then Some (replicate (unat n) 0) else None)"

definition Account_new :: "i64 \<Rightarrow> u64 \<Rightarrow> pubkey \<Rightarrow> account panics" where
  "Account_new t space p = do {
     udata \<leftarrow> zeroed_vec space;
     Some \<lparr>tokens = t, userdata = udata, program_id = p\<rparr> }"

abbreviation plain_account :: "i64 \<Rightarrow> pubkey \<Rightarrow> account" where
  "plain_account t p \<equiv> \<lparr>tokens = t, userdata = [], program_id = p\<rparr>"

definition Account_default :: account where
  "Account_default = \<lparr>tokens = 0, userdata = [], program_id = Pubkey_default\<rparr>"

text \<open>
  The pair of updates \<open>accounts[i].tokens -= t; accounts[j].tokens += t\<close>, which every program
  that moves tokens contains.
\<close>

definition transfer_tokens :: "nat \<Rightarrow> nat \<Rightarrow> i64 \<Rightarrow> account list \<Rightarrow> account list panics" where
  "transfer_tokens i j t accs = do {
     accs \<leftarrow> modify_at i (\<lambda>a. a\<lparr>tokens := tokens a - t\<rparr>) accs;
     modify_at j (\<lambda>a. a\<lparr>tokens := tokens a + t\<rparr>) accs }"

abbreviation total_tokens :: "account list \<Rightarrow> i64" where
  "total_tokens accs \<equiv> sum_list (map tokens accs)"

section \<open>Hashing\<close>

text \<open>A \<open>Hasher\<close> is the sequence of bytes fed to it; \<open>sha\<close> is SHA-256.\<close>

record hasher =
  hasher_input :: bytes

definition Hasher_default :: hasher where
  "Hasher_default = \<lparr>hasher_input = []\<rparr>"

definition Hasher_hash :: "bytes \<Rightarrow> hasher \<Rightarrow> hasher" where
  "Hasher_hash val h = h\<lparr>hasher_input := hasher_input h @ val\<rparr>"

definition Hasher_hashv :: "bytes list \<Rightarrow> hasher \<Rightarrow> hasher" where
  "Hasher_hashv vals h = fold Hasher_hash vals h"

definition Hasher_result :: "(bytes \<Rightarrow> hash) \<Rightarrow> hasher \<Rightarrow> hash" where
  "Hasher_result sha h = sha (hasher_input h)"

definition hashv :: "(bytes \<Rightarrow> hash) \<Rightarrow> bytes list \<Rightarrow> hash" where
  "hashv sha vals = Hasher_result sha (Hasher_hashv vals Hasher_default)"

definition hash_one :: "(bytes \<Rightarrow> hash) \<Rightarrow> bytes \<Rightarrow> hash" where
  "hash_one sha val = hashv sha [val]"

definition extend_and_hash :: "(bytes \<Rightarrow> hash) \<Rightarrow> hash \<Rightarrow> bytes \<Rightarrow> hash" where
  "extend_and_hash sha h val = hash_one sha (hash_as_ref h @ val)"

section \<open>Interfaces of third-party code\<close>

record 'a codec =
  enc :: "'a \<Rightarrow> bytes"
  dec :: "bytes \<Rightarrow> 'a option"

text \<open>A buffer holds less than \<open>2^63\<close> bytes (\<open>isize::MAX\<close>), so only such encodings exist.\<close>

locale bincode_codec =
  fixes c :: "'a codec"
  assumes dec_enc: "length (enc c x) < 2 ^ 63 \<Longrightarrow> dec c (enc c x) = Some x"
begin

lemma enc_inject:
  "length (enc c x) < 2 ^ 63 \<Longrightarrow> enc c x = enc c y \<longleftrightarrow> x = y"
  by (metis dec_enc option.inject)

lemma dec_enc_eq_Some: "length (enc c x) < 2 ^ 63 \<Longrightarrow> dec c (enc c x) = Some y \<longleftrightarrow> x = y"
  by (simp add: dec_enc)

end

text \<open>A type of constant width on the wire (integers and byte arrays).\<close>

locale fixed_codec = bincode_codec +
  fixes width :: nat
  assumes enc_width: "length (enc c x) = width"
    and width_bound: "width < 2 ^ 63"
begin

lemma dec_enc_fixed: "dec c (enc c x) = Some x"
  by (rule dec_enc) (simp only: enc_width width_bound)

lemma enc_inject_fixed: "enc c x = enc c y \<longleftrightarrow> x = y"
  by (metis dec_enc_fixed option.inject)

end

record 'kp ed25519 =
  public_key_bytes :: "'kp \<Rightarrow> bytes"
  sign_bytes :: "'kp \<Rightarrow> bytes \<Rightarrow> bytes"
  verify_bytes :: "bytes \<Rightarrow> bytes \<Rightarrow> bytes \<Rightarrow> bool"

definition keypair_pubkey :: "'kp ed25519 \<Rightarrow> 'kp \<Rightarrow> pubkey panics" where
  "keypair_pubkey ring kp = Pubkey_new (public_key_bytes ring kp)"

definition Signature_verify :: "'kp ed25519 \<Rightarrow> signature \<Rightarrow> bytes \<Rightarrow> bytes \<Rightarrow> bool" where
  "Signature_verify ring s pubkey_bytes message_bytes =
     verify_bytes ring pubkey_bytes message_bytes (signature_as_ref s)"

definition ed25519_contract :: "'kp ed25519 \<Rightarrow> bool" where
  "ed25519_contract ring \<longleftrightarrow>
     (\<forall>kp. length (public_key_bytes ring kp) = 32) \<and>
     (\<forall>kp msg. length (sign_bytes ring kp msg) = 64) \<and>
     (\<forall>kp msg. verify_bytes ring (public_key_bytes ring kp) msg (sign_bytes ring kp msg))"

section \<open>Facts\<close>

lemma transfer_tokens_eq:
  "i < length accs \<Longrightarrow> j < length accs \<Longrightarrow> i \<noteq> j \<Longrightarrow> transfer_tokens i j t accs =
     Some (accs[i := (accs ! i)\<lparr>tokens := tokens (accs ! i) - t\<rparr>,
                j := (accs ! j)\<lparr>tokens := tokens (accs ! j) + t\<rparr>])"
  by (simp add: transfer_tokens_def modify_at_def)

lemma transfer_tokens_frame:
  "transfer_tokens i j t accs = Some accs' \<Longrightarrow>
     length accs' = length accs \<and> map program_id accs' = map program_id accs \<and>
     map userdata accs' = map userdata accs"
  by (auto simp: transfer_tokens_def bind_eq_Some_conv map_modify_at modify_at_length)

lemma transfer_tokens_conserves:
  "transfer_tokens i j t accs = Some accs' \<Longrightarrow> total_tokens accs' = total_tokens accs"
  by (auto simp: transfer_tokens_def bind_eq_Some_conv dest!: modify_at_sum [where f = tokens])

lemma length_as_ref [simp, wire_simps]:
  "length (pubkey_as_ref k) = 32" "length (hash_as_ref h) = 32"
  "length (signature_as_ref s) = 64"
  by (cases k, simp) (cases h, simp, cases s, simp)

lemma Pubkey_new_as_ref [wire_simps]: "Pubkey_new (pubkey_as_ref k) = Some k"
  by (cases k) (simp add: Pubkey_new_def le_round_trip)

lemma Hash_new_as_ref [wire_simps]: "Hash_new (hash_as_ref h) = Some h"
  by (cases h) (simp add: Hash_new_def le_round_trip)

lemma Signature_new_as_ref [wire_simps]: "Signature_new (signature_as_ref s) = Some s"
  by (cases s) (simp add: Signature_new_def le_round_trip)

lemma pubkey_as_ref_inject: "pubkey_as_ref k = pubkey_as_ref k' \<longleftrightarrow> k = k'"
  by (metis Pubkey_new_as_ref option.inject)

lemma hash_as_ref_inject: "hash_as_ref h = hash_as_ref h' \<longleftrightarrow> h = h'"
  by (metis Hash_new_as_ref option.inject)

lemma signature_as_ref_inject: "signature_as_ref s = signature_as_ref s' \<longleftrightarrow> s = s'"
  by (metis Signature_new_as_ref option.inject)

lemma pubkey_as_ref_Pubkey_new:
  "length bs = 32 \<Longrightarrow> \<exists>k. Pubkey_new bs = Some k \<and> pubkey_as_ref k = bs"
  using le_bytes_le_word [of bs, where 'a = 256] by (simp add: Pubkey_new_def)

lemma signature_as_ref_Signature_new:
  "length bs = 64 \<Longrightarrow> \<exists>s. Signature_new bs = Some s \<and> signature_as_ref s = bs"
  using le_bytes_le_word [of bs, where 'a = 512] by (simp add: Signature_new_def)

text \<open>The hasher sees the concatenation of what it was fed, so hashing in pieces is hashing whole.\<close>

lemma Hasher_hashv_input: "hasher_input (Hasher_hashv vals h) = hasher_input h @ concat vals"
  by (induction vals arbitrary: h) (auto simp: Hasher_hashv_def Hasher_hash_def)

lemma hashv_eq: "hashv sha vals = sha (concat vals)"
  by (simp add: hashv_def Hasher_result_def Hasher_hashv_input Hasher_default_def)

lemma hash_one_eq: "hash_one sha val = sha val"
  by (simp add: hash_one_def hashv_eq)

lemma extend_and_hash_eq_hashv: "extend_and_hash sha h val = hashv sha [hash_as_ref h, val]"
  by (simp add: extend_and_hash_def hash_one_eq hashv_eq)

section \<open>Key order\<close>

text \<open>The order derived on \<open>Pubkey\<close> compares the byte arrays lexicographically.\<close>

instantiation pubkey :: linorder
begin

definition less_eq_pubkey :: "pubkey \<Rightarrow> pubkey \<Rightarrow> bool" where
  "less_eq_pubkey k k' \<longleftrightarrow> pubkey_as_ref k \<le> pubkey_as_ref k'"

definition less_pubkey :: "pubkey \<Rightarrow> pubkey \<Rightarrow> bool" where
  "less_pubkey k k' \<longleftrightarrow> pubkey_as_ref k < pubkey_as_ref k'"

instance
proof
  fix x y z :: pubkey
  show "(x < y) = (x \<le> y \<and> \<not> y \<le> x)" "x \<le> x" "x \<le> y \<or> y \<le> x"
    by (auto simp: less_eq_pubkey_def less_pubkey_def)
  show "x \<le> y \<Longrightarrow> y \<le> z \<Longrightarrow> x \<le> z"
    unfolding less_eq_pubkey_def by (rule order.trans)
  assume "x \<le> y" "y \<le> x"
  then have "pubkey_as_ref x = pubkey_as_ref y"
    unfolding less_eq_pubkey_def by (rule order.antisym)
  then show "x = y" by (simp only: pubkey_as_ref_inject)
qed

end

end
