(* ===== verification/Bincode_Format.thy ===== *)
theory Bincode_Format
  imports Primitives
begin

text \<open>
  The encoding bincode documents: integers are fixed-width little-endian, a tuple or struct is its
  fields in order, an enum is a 32-bit variant index followed by the variant's fields, an option is
  a byte, and a sequence is a 64-bit length followed by its elements.

  bincode is third-party code, and the component theories take its encodings as parameters.  The
  formats built here satisfy the contracts those theories assume, and they are what the concrete
  runs use.  A \<open>wire\<close> reads a value off the front of the input and returns the rest.
\<close>

record 'a wire =
  put :: "'a \<Rightarrow> bytes"
  get :: "bytes \<Rightarrow> ('a \<times> bytes) option"

locale wire_format =
  fixes w :: "'a wire"
  assumes get_put: "length (put w x) < 2 ^ 63 \<Longrightarrow> get w (put w x @ r) = Some (x, r)"
    and put_nonempty: "put w x \<noteq> []"

text \<open>\<open>serialize\<close>, and \<open>deserialize\<close>, which ignores trailing bytes.\<close>

definition codec_of :: "'a wire \<Rightarrow> 'a codec" where
  "codec_of w = \<lparr>enc = put w, dec = (\<lambda>bs. map_option fst (get w bs))\<rparr>"

lemma codec_of_sel [simp]: "enc (codec_of w) = put w"
  "dec (codec_of w) bs = map_option fst (get w bs)"
  by (simp_all add: codec_of_def)

lemma codec_of_bincode: "wire_format w \<Longrightarrow> bincode_codec (codec_of w)"
  by (unfold_locales) (use wire_format.get_put [of w _ "[]"] in simp)

text \<open>An encoding that can be followed by others: what a value encodes to tells where it ends.\<close>

definition wire_backed :: "'a codec \<Rightarrow> bool" where
  "wire_backed c \<longleftrightarrow> (\<exists>w. wire_format w \<and> c = codec_of w)"

lemma wire_backedI: "wire_format w \<Longrightarrow> wire_backed (codec_of w)"
  by (auto simp: wire_backed_def)

lemma wire_backed_bincode: "wire_backed c \<Longrightarrow> bincode_codec c"
  by (auto simp: wire_backed_def intro: codec_of_bincode)

lemma wire_backed_append:
  assumes "wire_backed c" and "enc c x @ r = enc c y @ s"
    and "length (enc c x) < 2 ^ 63" and "length (enc c y) < 2 ^ 63"
  shows "x = y \<and> r = s"
proof -
  obtain w where w: "wire_format w" "c = codec_of w" using assms(1) by (auto simp: wire_backed_def)
  have "Some (x, r) = get w (put w x @ r)" "Some (y, s) = get w (put w y @ s)"
    using assms(3,4) w by (simp_all add: wire_format.get_put)
  then show ?thesis using assms(2) unfolding w(2) codec_of_sel by (metis option.inject prod.inject)
qed

section \<open>Integers and byte arrays\<close>

definition word_wire :: "nat \<Rightarrow> 'a::len word wire" where
  "word_wire n = \<lparr>put = le_bytes n,
     get = (\<lambda>bs. if n \<le> length bs then Some (le_word (take n bs), drop n bs) else None)\<rparr>"

abbreviation u8_wire :: "u8 wire" where "u8_wire \<equiv> word_wire 1"
abbreviation u32_wire :: "u32 wire" where "u32_wire \<equiv> word_wire 4"
abbreviation u64_wire :: "u64 wire" where "u64_wire \<equiv> word_wire 8"

lemma word_wire_sel [simp]: "put (word_wire n) = le_bytes n"
  "get (word_wire n) (le_bytes n x @ r) = Some (le_word (le_bytes n x), r)"
  by (simp_all add: word_wire_def)

lemma word_wire_format:
  "LENGTH('a) = 8 * n \<Longrightarrow> wire_format (word_wire n :: 'a::len word wire)"
proof
  fix x :: "'a word" and r :: bytes
  assume n: "LENGTH('a) = 8 * n"
  then show "get (word_wire n) (put (word_wire n) x @ r) = Some (x, r)"
    by (simp add: le_round_trip)
  have "0 < n" using n len_gt_0 [where 'a = 'a] by (cases n) simp_all
  then show "put (word_wire n) x \<noteq> []" by (cases n) simp_all
qed

lemma word_wire_fixed:
  assumes "LENGTH('a) = 8 * n" and "n < 2 ^ 63"
  shows "fixed_codec (codec_of (word_wire n :: 'a::len word wire)) n"
  using assms codec_of_bincode [OF word_wire_format [where 'a = 'a]]
  by (simp add: fixed_codec_def fixed_codec_axioms_def)

interpretation u8w: wire_format u8_wire by (rule word_wire_format) simp
interpretation u32w: wire_format u32_wire by (rule word_wire_format) simp
interpretation u64w: wire_format u64_wire by (rule word_wire_format) simp
interpretation u64c: fixed_codec "codec_of u64_wire" 8 by (rule word_wire_fixed) simp_all

section \<open>Isomorphic images, pairs, options, sequences\<close>

definition iso_wire :: "('a \<Rightarrow> 'b) \<Rightarrow> ('b \<Rightarrow> 'a) \<Rightarrow> 'a wire \<Rightarrow> 'b wire" where
  "iso_wire f g w = \<lparr>put = (\<lambda>y. put w (g y)), get = (\<lambda>bs. map_option (\<lambda>(x, r). (f x, r)) (get w bs))\<rparr>"

definition pair_wire :: "'a wire \<Rightarrow> 'b wire \<Rightarrow> ('a \<times> 'b) wire" where
  "pair_wire v w = \<lparr>put = (\<lambda>(x, y). put v x @ put w y),
     get = (\<lambda>bs. do { (x, r) \<leftarrow> get v bs; (y, r) \<leftarrow> get w r; Some ((x, y), r) })\<rparr>"

definition option_wire :: "'a wire \<Rightarrow> 'a option wire" where
  "option_wire w = \<lparr>put = (\<lambda>ov. case ov of None \<Rightarrow> [0] | Some x \<Rightarrow> 1 # put w x),
     get = (\<lambda>bs. case bs of
         [] \<Rightarrow> None
       | b # r \<Rightarrow> if b = 0 then Some (None, r)
                 else if b = 1 then map_option (\<lambda>(x, r). (Some x, r)) (get w r)
                 else None)\<rparr>"

definition bool_wire :: "bool wire" where
  "bool_wire = \<lparr>put = (\<lambda>b. [of_bool b]),
     get = (\<lambda>bs. case bs of
         [] \<Rightarrow> None
       | b # r \<Rightarrow> if b = 0 then Some (False, r) else if b = 1 then Some (True, r) else None)\<rparr>"

primrec get_many :: "'a wire \<Rightarrow> nat \<Rightarrow> bytes \<Rightarrow> ('a list \<times> bytes) option" where
  "get_many w 0 bs = Some ([], bs)"
| "get_many w (Suc n) bs = do {
     (x, r) \<leftarrow> get w bs; (xs, r) \<leftarrow> get_many w n r; Some (x # xs, r) }"

definition list_wire :: "'a wire \<Rightarrow> 'a list wire" where
  "list_wire w = \<lparr>put = (\<lambda>xs. le_bytes 8 (of_nat (length xs) :: u64) @ concat (map (put w) xs)),
     get = (\<lambda>bs. do { (n, r) \<leftarrow> get u64_wire bs; get_many w (unat n) r })\<rparr>"

text \<open>An enum: the variant index, then the fields of the variant.\<close>

definition tagged :: "u32 \<Rightarrow> bytes \<Rightarrow> bytes" where
  "tagged t bs = le_bytes 4 t @ bs"

definition variant :: "('a \<Rightarrow> 'b) \<Rightarrow> 'a wire \<Rightarrow> bytes \<Rightarrow> ('b \<times> bytes) option" where
  "variant f w bs = map_option (\<lambda>(x, r). (f x, r)) (get w bs)"

section \<open>The laws are kept\<close>

lemma iso_wire_format:
  "wire_format w \<Longrightarrow> (\<And>y. f (g y) = y) \<Longrightarrow> wire_format (iso_wire f g w)"
  by unfold_locales (simp_all add: iso_wire_def wire_format.get_put wire_format.put_nonempty)

lemma pair_wire_format:
  assumes "wire_format v" "wire_format w"
  shows "wire_format (pair_wire v w)"
  by unfold_locales
    (auto simp: pair_wire_def wire_format.get_put [OF assms(1)] wire_format.get_put [OF assms(2)]
      wire_format.put_nonempty [OF assms(1)])

lemma option_wire_format: "wire_format w \<Longrightarrow> wire_format (option_wire w)"
  by unfold_locales (auto simp: option_wire_def wire_format.get_put split: option.splits)

lemma bool_wire_format: "wire_format bool_wire"
  by unfold_locales (auto simp: bool_wire_def)

lemma length_concat_ge: "(\<And>x. x \<in> set xs \<Longrightarrow> f x \<noteq> []) \<Longrightarrow> length xs \<le> length (concat (map f xs))"
proof (induction xs)
  case (Cons x xs)
  then have "1 \<le> length (f x)" by (cases "f x") auto
  then show ?case using Cons by simp
qed simp

lemma get_many_put:
  assumes "wire_format w" and "length (concat (map (put w) xs)) < 2 ^ 63"
  shows "get_many w (length xs) (concat (map (put w) xs) @ r) = Some (xs, r)"
  using assms(2) by (induction xs) (simp_all add: wire_format.get_put [OF assms(1)])

lemma list_wire_format:
  assumes "wire_format w"
  shows "wire_format (list_wire w)"
proof
  fix xs :: "'a list" and r
  show "put (list_wire w) xs \<noteq> []" by (simp add: list_wire_def numeral_eq_Suc)
  assume "length (put (list_wire w) xs) < 2 ^ 63"
  then have small: "length (concat (map (put w) xs)) < 2 ^ 63" by (simp add: list_wire_def)
  then have "length xs < 2 ^ 63"
    using length_concat_ge [of xs "put w"] wire_format.put_nonempty [OF assms] by fastforce
  then have "unat (of_nat (length xs) :: u64) = length xs" by (simp add: unat_of_nat)
  then show "get (list_wire w) (put (list_wire w) xs @ r) = Some (xs, r)"
    using get_many_put [OF assms small, of r]
    by (simp add: list_wire_def word_wire_def le_round_trip)
qed

lemma get_tagged [simp]: "get u32_wire (tagged t bs @ r) = Some (t, bs @ r)"
  "get u32_wire (le_bytes 4 t @ r) = Some (t, r)"
  by (simp_all add: tagged_def word_wire_def le_round_trip)

lemma tagged_nonempty [simp]: "tagged t bs \<noteq> []"
  by (simp add: tagged_def numeral_eq_Suc)

lemma length_tagged [simp]: "length (tagged t bs) = 4 + length bs"
  by (simp add: tagged_def)

lemma variant_put:
  "wire_format w \<Longrightarrow> 4 + length (put w x) < 2 ^ 63 \<Longrightarrow> variant f w (put w x @ r) = Some (f x, r)"
  by (simp add: variant_def wire_format.get_put)

lemmas wire_rules = iso_wire_format pair_wire_format option_wire_format bool_wire_format
  list_wire_format u8w.wire_format_axioms u32w.wire_format_axioms u64w.wire_format_axioms

section \<open>Instants\<close>

text \<open>
  chrono writes an instant as text.  The model only needs some self-delimiting form of an integer:
  the sign and the magnitude in groups of seven bits.
\<close>

fun put_nat :: "nat \<Rightarrow> bytes" where
  "put_nat n = (if n < 128 then [of_nat n] else of_nat (128 + n mod 128) # put_nat (n div 128))"

fun get_nat :: "bytes \<Rightarrow> (nat \<times> bytes) option" where
  "get_nat [] = None"
| "get_nat (b # bs) =
     (if unat b < 128 then Some (unat b, bs)
      else map_option (\<lambda>(n, r). (unat b - 128 + 128 * n, r)) (get_nat bs))"

declare put_nat.simps [simp del]

lemma get_nat_put: "get_nat (put_nat n @ r) = Some (n, r)"
proof (induction n rule: put_nat.induct)
  case (1 n)
  show ?case
  proof (cases "n < 128")
    case True
    then show ?thesis by (simp add: put_nat.simps [of n] unat_of_nat)
  next
    case False
    have "unat (of_nat (128 + n mod 128) :: u8) = 128 + n mod 128"
      by (rule unat_of_nat_small) (use mod_less_divisor [of 128 n] in simp)
    moreover have "n mod 128 + 128 * (n div 128) = n" by simp
    ultimately show ?thesis using 1 False by (simp add: put_nat.simps [of n])
  qed
qed

definition instant_wire :: "int wire" where
  "instant_wire = iso_wire (\<lambda>(neg, n). if neg then - int n else int n) (\<lambda>i. (i < 0, nat \<bar>i\<bar>))
     (pair_wire bool_wire \<lparr>put = put_nat, get = get_nat\<rparr>)"

lemma instant_wire_format: "wire_format instant_wire"
proof -
  have "wire_format \<lparr>put = put_nat, get = get_nat\<rparr>"
    by unfold_locales (simp_all add: get_nat_put, simp add: put_nat.simps)
  then show ?thesis
    unfolding instant_wire_def by (intro wire_rules) (auto split: prod.splits)
qed

section \<open>Keys, hashes, signatures, strings\<close>

definition pubkey_wire :: "pubkey wire" where
  "pubkey_wire = iso_wire Pubkey (\<lambda>k. case k of Pubkey w \<Rightarrow> w) (word_wire 32)"

definition hash_wire :: "hash wire" where
  "hash_wire = iso_wire Hash (\<lambda>h. case h of Hash w \<Rightarrow> w) (word_wire 32)"

definition signature_wire :: "signature wire" where
  "signature_wire = iso_wire Signature (\<lambda>s. case s of Signature w \<Rightarrow> w) (word_wire 64)"

definition bytes_wire :: "bytes wire" where
  "bytes_wire = list_wire u8_wire"

definition string_wire :: "string wire" where
  "string_wire = list_wire (iso_wire (\<lambda>b. char_of (unat b)) (\<lambda>c. of_nat (of_char c)) u8_wire)"

lemma key_wire_formats:
  "wire_format pubkey_wire" "wire_format hash_wire" "wire_format signature_wire"
  unfolding pubkey_wire_def hash_wire_def signature_wire_def
  by (intro iso_wire_format word_wire_format; simp split: pubkey.splits hash.splits signature.splits)+

lemma text_wire_formats: "wire_format bytes_wire" "wire_format string_wire"
proof -
  show "wire_format bytes_wire" unfolding bytes_wire_def by (intro wire_rules)
  have "char_of (unat (of_nat (of_char c) :: u8)) = c" for c
    by (simp add: unat_of_nat take_bit_eq_mod)
  then show "wire_format string_wire"
    unfolding string_wire_def by (intro wire_rules)
qed

interpretation pubkeyw: wire_format pubkey_wire by (rule key_wire_formats)
interpretation hashw: wire_format hash_wire by (rule key_wire_formats)
interpretation signaturew: wire_format signature_wire by (rule key_wire_formats)
interpretation bytesw: wire_format bytes_wire by (rule text_wire_formats)
interpretation stringw: wire_format string_wire by (rule text_wire_formats)

end
