(* ===== verification/Fin_Plan.thy ===== *)
theory Fin_Plan
  imports Bincode_Format
begin

text \<open>
  The payment-plan language: src/payment_plan.rs (\<open>Witness\<close>, \<open>Payment\<close>), src/fin_plan.rs
  (\<open>Condition\<close>, \<open>FinPlan\<close> and its operations) and src/fin_plan_instruction.rs.

  A \<open>DateTime<Utc>\<close> is an instant, modelled as an integer: the program only compares instants.
  The facts below give the language a specification that does not mention the reduction steps:
  which payment a plan makes after a history of witnesses.
\<close>

section \<open>Data\<close>

type_synonym date_time = int

datatype witness = WitTimestamp date_time | WitSignature

record payment =
  pay_tokens :: i64
  pay_to :: pubkey

datatype condition = CondTimestamp date_time pubkey | CondSignature pubkey

datatype fin_plan =
    Pay payment
  | After condition payment
  | Or "condition \<times> payment" "condition \<times> payment"
  | And condition condition payment

record contract =
  con_tokens :: i64
  con_fin_plan :: fin_plan

record vote =
  vote_version :: u64
  contact_info_version :: u64

datatype instruction =
    NewContract contract
  | ApplyTimestamp date_time
  | ApplySignature
  | NewVote vote

section \<open>Operations\<close>

fun is_satisfied :: "condition \<Rightarrow> witness \<Rightarrow> pubkey \<Rightarrow> bool" where
  "is_satisfied (CondSignature pubkey) WitSignature from_key \<longleftrightarrow> pubkey = from_key"
| "is_satisfied (CondTimestamp dt pubkey) (WitTimestamp last_time) from_key \<longleftrightarrow>
     pubkey = from_key \<and> dt \<le> last_time"
| "is_satisfied _ _ _ \<longleftrightarrow> False"

definition new_payment :: "i64 \<Rightarrow> pubkey \<Rightarrow> fin_plan" where
  "new_payment t to_key = Pay \<lparr>pay_tokens = t, pay_to = to_key\<rparr>"

definition new_authorized_payment :: "pubkey \<Rightarrow> i64 \<Rightarrow> pubkey \<Rightarrow> fin_plan" where
  "new_authorized_payment from_key t to_key =
     After (CondSignature from_key) \<lparr>pay_tokens = t, pay_to = to_key\<rparr>"

definition new_2_2_multisig_payment :: "pubkey \<Rightarrow> pubkey \<Rightarrow> i64 \<Rightarrow> pubkey \<Rightarrow> fin_plan" where
  "new_2_2_multisig_payment from0 from1 t to_key =
     And (CondSignature from0) (CondSignature from1) \<lparr>pay_tokens = t, pay_to = to_key\<rparr>"

definition new_future_payment :: "date_time \<Rightarrow> pubkey \<Rightarrow> i64 \<Rightarrow> pubkey \<Rightarrow> fin_plan" where
  "new_future_payment dt from_key t to_key =
     After (CondTimestamp dt from_key) \<lparr>pay_tokens = t, pay_to = to_key\<rparr>"

definition new_cancelable_future_payment ::
    "date_time \<Rightarrow> pubkey \<Rightarrow> i64 \<Rightarrow> pubkey \<Rightarrow> fin_plan" where
  "new_cancelable_future_payment dt from_key t to_key =
     Or (CondTimestamp dt from_key, \<lparr>pay_tokens = t, pay_to = to_key\<rparr>)
        (CondSignature from_key, \<lparr>pay_tokens = t, pay_to = from_key\<rparr>)"

fun final_payment :: "fin_plan \<Rightarrow> payment option" where
  "final_payment (Pay p) = Some p"
| "final_payment _ = None"

fun plan_verify :: "fin_plan \<Rightarrow> i64 \<Rightarrow> bool" where
  "plan_verify (Pay p) spendable_tokens \<longleftrightarrow> pay_tokens p = spendable_tokens"
| "plan_verify (After _ p) spendable_tokens \<longleftrightarrow> pay_tokens p = spendable_tokens"
| "plan_verify (And _ _ p) spendable_tokens \<longleftrightarrow> pay_tokens p = spendable_tokens"
| "plan_verify (Or a b) spendable_tokens \<longleftrightarrow>
     pay_tokens (snd a) = spendable_tokens \<and> pay_tokens (snd b) = spendable_tokens"

fun apply_witness :: "fin_plan \<Rightarrow> witness \<Rightarrow> pubkey \<Rightarrow> fin_plan" where
  "apply_witness (After cond p) w from_key =
     (if is_satisfied cond w from_key then Pay p else After cond p)"
| "apply_witness (Or (c0, p0) (c1, p1)) w from_key =
     (if is_satisfied c0 w from_key then Pay p0
      else if is_satisfied c1 w from_key then Pay p1
      else Or (c0, p0) (c1, p1))"
| "apply_witness (And c0 c1 p) w from_key =
     (if is_satisfied c0 w from_key then After c1 p
      else if is_satisfied c1 w from_key then After c0 p
      else And c0 c1 p)"
| "apply_witness (Pay p) w from_key = Pay p"

section \<open>Histories of witnesses\<close>

text \<open>A history is the sequence of witnesses a contract sees, each with the key that sent it.\<close>

type_synonym history = "(witness \<times> pubkey) list"

definition apply_witnesses :: "fin_plan \<Rightarrow> history \<Rightarrow> fin_plan" where
  "apply_witnesses plan ws = fold (\<lambda>(w, k) pl. apply_witness pl w k) ws plan"

definition satisfied_in :: "condition \<Rightarrow> history \<Rightarrow> bool" where
  "satisfied_in cond ws \<longleftrightarrow> (\<exists>(w, k) \<in> set ws. is_satisfied cond w k)"

text \<open>The payments a plan can end in, and the keys it listens to.\<close>

fun plan_payments :: "fin_plan \<Rightarrow> payment set" where
  "plan_payments (Pay p) = {p}"
| "plan_payments (After _ p) = {p}"
| "plan_payments (Or (_, p0) (_, p1)) = {p0, p1}"
| "plan_payments (And _ _ p) = {p}"

fun cond_key :: "condition \<Rightarrow> pubkey" where
  "cond_key (CondTimestamp _ k) = k"
| "cond_key (CondSignature k) = k"

fun plan_keys :: "fin_plan \<Rightarrow> pubkey set" where
  "plan_keys (Pay _) = {}"
| "plan_keys (After c _) = {cond_key c}"
| "plan_keys (Or (c0, _) (c1, _)) = {cond_key c0, cond_key c1}"
| "plan_keys (And c0 c1 _) = {cond_key c0, cond_key c1}"

text \<open>The steps left before a plan pays.\<close>

fun plan_rank :: "fin_plan \<Rightarrow> nat" where
  "plan_rank (Pay _) = 0"
| "plan_rank (After _ _) = 1"
| "plan_rank (Or _ _) = 1"
| "plan_rank (And _ _ _) = 2"

section \<open>Single steps\<close>

lemma is_satisfied_key: "is_satisfied c w k \<Longrightarrow> cond_key c = k"
  by (induction c w k rule: is_satisfied.induct) auto

lemma apply_witness_unchanged: "k \<notin> plan_keys plan \<Longrightarrow> apply_witness plan w k = plan"
  by (induction plan w k rule: apply_witness.induct) (auto dest: is_satisfied_key)

lemma apply_witness_payments: "plan_payments (apply_witness plan w k) \<subseteq> plan_payments plan"
  by (induction plan w k rule: apply_witness.induct) auto

lemma apply_witness_keys: "plan_keys (apply_witness plan w k) \<subseteq> plan_keys plan"
  by (induction plan w k rule: apply_witness.induct) auto

lemma apply_witness_rank:
  "apply_witness plan w k = plan \<or> plan_rank (apply_witness plan w k) < plan_rank plan"
  by (induction plan w k rule: apply_witness.induct) auto

lemma plan_verify_payments:
  "plan_verify plan n \<longleftrightarrow> (\<forall>p \<in> plan_payments plan. pay_tokens p = n)"
  by (induction plan rule: plan_payments.induct) auto

lemma final_payment_in_plan: "final_payment plan = Some p \<Longrightarrow> plan_payments plan = {p}"
  by (induction plan rule: final_payment.induct) auto

section \<open>Whole histories\<close>

lemma apply_witnesses_Nil [simp]: "apply_witnesses plan [] = plan"
  by (simp add: apply_witnesses_def)

lemma apply_witnesses_Cons [simp]:
  "apply_witnesses plan ((w, k) # ws) = apply_witnesses (apply_witness plan w k) ws"
  by (simp add: apply_witnesses_def)

lemma satisfied_in_simps [simp]:
  "satisfied_in c [] \<longleftrightarrow> False"
  "satisfied_in c ((w, k) # ws) \<longleftrightarrow> is_satisfied c w k \<or> satisfied_in c ws"
  by (auto simp: satisfied_in_def)

lemma apply_witnesses_Pay [simp]: "apply_witnesses (Pay p) ws = Pay p"
  by (induction ws) auto

lemma apply_witnesses_payments: "plan_payments (apply_witnesses plan ws) \<subseteq> plan_payments plan"
proof (induction ws arbitrary: plan)
  case (Cons wk ws)
  then show ?case using apply_witness_payments by (cases wk) fastforce
qed simp

lemma apply_witnesses_unchanged:
  "(\<forall>(w, k) \<in> set ws. k \<notin> plan_keys plan) \<Longrightarrow> apply_witnesses plan ws = plan"
  by (induction ws) (auto simp: apply_witness_unchanged)

lemma apply_witnesses_After:
  "final_payment (apply_witnesses (After c p) ws) = (if satisfied_in c ws then Some p else None)"
  by (induction ws) auto

text \<open>The branch an \<open>Or\<close> takes is the one whose condition is met first; ties go to the left.\<close>

fun or_outcome :: "condition \<times> payment \<Rightarrow> condition \<times> payment \<Rightarrow> history \<Rightarrow> payment option" where
  "or_outcome a b [] = None"
| "or_outcome a b ((w, k) # ws) =
     (if is_satisfied (fst a) w k then Some (snd a)
      else if is_satisfied (fst b) w k then Some (snd b)
      else or_outcome a b ws)"

lemma apply_witnesses_Or:
  "final_payment (apply_witnesses (Or a b) ws) = or_outcome a b ws"
proof (induction ws)
  case (Cons wk ws)
  then show ?case by (cases wk; cases a; cases b) auto
qed (cases a; cases b; simp)

lemma or_outcome_None:
  "or_outcome a b ws = None \<longleftrightarrow> \<not> satisfied_in (fst a) ws \<and> \<not> satisfied_in (fst b) ws"
  by (induction a b ws rule: or_outcome.induct) auto

text \<open>Two conditions are separate when no single witness meets both.\<close>

definition separate_conditions :: "condition \<Rightarrow> condition \<Rightarrow> bool" where
  "separate_conditions c0 c1 \<longleftrightarrow> (\<forall>w k. \<not> (is_satisfied c0 w k \<and> is_satisfied c1 w k))"

lemma separate_signatures:
  "separate_conditions (CondSignature k0) (CondSignature k1) \<longleftrightarrow> k0 \<noteq> k1"
  unfolding separate_conditions_def
  by (metis cond_key.simps(2) is_satisfied.simps(1) is_satisfied_key)

lemma apply_witnesses_And:
  assumes "separate_conditions c0 c1"
  shows "final_payment (apply_witnesses (And c0 c1 p) ws) =
    (if satisfied_in c0 ws \<and> satisfied_in c1 ws then Some p else None)"
proof (induction ws)
  case (Cons wk ws)
  obtain w k where wk: "wk = (w, k)" by (cases wk)
  have "\<not> (is_satisfied c0 w k \<and> is_satisfied c1 w k)"
    using assms by (auto simp: separate_conditions_def)
  then show ?case using Cons by (auto simp: wk apply_witnesses_After)
qed simp

section \<open>On the wire\<close>

definition payment_wire :: "payment wire" where
  "payment_wire = iso_wire (\<lambda>(t, k). \<lparr>pay_tokens = t, pay_to = k\<rparr>) (\<lambda>p. (pay_tokens p, pay_to p))
     (pair_wire u64_wire pubkey_wire)"

definition condition_wire :: "condition wire" where
  "condition_wire =
     \<lparr>put = (\<lambda>c. case c of
         CondTimestamp dt k \<Rightarrow> tagged 0 (put (pair_wire instant_wire pubkey_wire) (dt, k))
       | CondSignature k \<Rightarrow> tagged 1 (put pubkey_wire k)),
      get = (\<lambda>bs. do { (t, r) \<leftarrow> get u32_wire bs;
         if t = 0 then variant (\<lambda>(dt, k). CondTimestamp dt k) (pair_wire instant_wire pubkey_wire) r
         else if t = 1 then variant CondSignature pubkey_wire r else None })\<rparr>"

definition branch_wire :: "(condition \<times> payment) wire" where
  "branch_wire = pair_wire condition_wire payment_wire"

definition fin_plan_wire :: "fin_plan wire" where
  "fin_plan_wire =
     \<lparr>put = (\<lambda>pl. case pl of
         Pay p \<Rightarrow> tagged 0 (put payment_wire p)
       | After c p \<Rightarrow> tagged 1 (put branch_wire (c, p))
       | Or a b \<Rightarrow> tagged 2 (put (pair_wire branch_wire branch_wire) (a, b))
       | And c d p \<Rightarrow> tagged 3 (put (pair_wire condition_wire branch_wire) (c, d, p))),
      get = (\<lambda>bs. do { (t, r) \<leftarrow> get u32_wire bs;
         if t = 0 then variant Pay payment_wire r
         else if t = 1 then variant (\<lambda>(c, p). After c p) branch_wire r
         else if t = 2 then variant (\<lambda>(a, b). Or a b) (pair_wire branch_wire branch_wire) r
         else if t = 3 then variant (\<lambda>(c, d, p). And c d p) (pair_wire condition_wire branch_wire) r
         else None })\<rparr>"

definition contract_wire :: "contract wire" where
  "contract_wire = iso_wire (\<lambda>(t, pl). \<lparr>con_tokens = t, con_fin_plan = pl\<rparr>)
     (\<lambda>c. (con_tokens c, con_fin_plan c)) (pair_wire u64_wire fin_plan_wire)"

definition vote_wire :: "vote wire" where
  "vote_wire = iso_wire (\<lambda>(v, c). \<lparr>vote_version = v, contact_info_version = c\<rparr>)
     (\<lambda>v. (vote_version v, contact_info_version v)) (pair_wire u64_wire u64_wire)"

definition instruction_wire :: "instruction wire" where
  "instruction_wire =
     \<lparr>put = (\<lambda>i. case i of
         NewContract c \<Rightarrow> tagged 0 (put contract_wire c)
       | ApplyTimestamp dt \<Rightarrow> tagged 1 (put instant_wire dt)
       | ApplySignature \<Rightarrow> tagged 2 []
       | NewVote v \<Rightarrow> tagged 3 (put vote_wire v)),
      get = (\<lambda>bs. do { (t, r) \<leftarrow> get u32_wire bs;
         if t = 0 then variant NewContract contract_wire r
         else if t = 1 then variant ApplyTimestamp instant_wire r
         else if t = 2 then Some (ApplySignature, r)
         else if t = 3 then variant NewVote vote_wire r
         else None })\<rparr>"

lemma payment_wire_format: "wire_format payment_wire"
  unfolding payment_wire_def by (intro wire_rules key_wire_formats) simp

lemma condition_wire_format: "wire_format condition_wire"
proof -
  have "wire_format (pair_wire instant_wire pubkey_wire)"
    by (intro wire_rules key_wire_formats instant_wire_format)
  note laws = variant_put [OF this] variant_put [OF key_wire_formats(1)]
  show ?thesis
    by unfold_locales (simp_all add: condition_wire_def laws split: condition.splits)
qed

lemma branch_wire_format: "wire_format branch_wire"
  unfolding branch_wire_def by (intro wire_rules payment_wire_format condition_wire_format)

lemma fin_plan_wire_format: "wire_format fin_plan_wire"
proof -
  have "wire_format (pair_wire branch_wire branch_wire)"
    "wire_format (pair_wire condition_wire branch_wire)"
    by (intro wire_rules branch_wire_format condition_wire_format)+
  note laws = this [THEN variant_put] variant_put [OF branch_wire_format]
    variant_put [OF payment_wire_format]
  show ?thesis
    by unfold_locales (auto simp: fin_plan_wire_def laws split: fin_plan.splits)
qed

lemma contract_wire_format: "wire_format contract_wire"
  unfolding contract_wire_def by (intro wire_rules fin_plan_wire_format) simp

lemma vote_wire_format: "wire_format vote_wire"
  unfolding vote_wire_def by (intro wire_rules) simp

lemma instruction_wire_format: "wire_format instruction_wire"
  by unfold_locales
    (simp_all add: instruction_wire_def variant_put contract_wire_format vote_wire_format
      instant_wire_format split: instruction.splits)

interpretation planw: wire_format fin_plan_wire by (rule fin_plan_wire_format)
interpretation instructionw: wire_format instruction_wire by (rule instruction_wire_format)

section \<open>What plans promise\<close>

text \<open>A two-of-two plan between different keys pays, and pays its own payment, exactly when both
  keys have signed, in either order and whatever else arrives in between.\<close>

theorem multisig_pays_iff_both_signed:
  assumes "from0 \<noteq> from1"
  shows "final_payment (apply_witnesses (new_2_2_multisig_payment from0 from1 t to_key) ws) =
    (if (WitSignature, from0) \<in> set ws \<and> (WitSignature, from1) \<in> set ws
     then Some \<lparr>pay_tokens = t, pay_to = to_key\<rparr> else None)"
proof -
  have "satisfied_in (CondSignature k) ws \<longleftrightarrow> (WitSignature, k) \<in> set ws" for k
    by (induction ws) (auto elim: is_satisfied.elims)
  then show ?thesis
    using assms by (simp add: new_2_2_multisig_payment_def apply_witnesses_And separate_signatures)
qed

theorem multisig_pays_witness:
  "final_payment (apply_witnesses (new_2_2_multisig_payment (Pubkey 1) (Pubkey 2) 42 (Pubkey 3))
     [(WitSignature, Pubkey 2), (WitTimestamp 5, Pubkey 1), (WitSignature, Pubkey 1)]) =
   Some \<lparr>pay_tokens = 42, pay_to = Pubkey 3\<rparr>"
  using multisig_pays_iff_both_signed [of "Pubkey 1" "Pubkey 2" 42 "Pubkey 3"
      "[(WitSignature, Pubkey 2), (WitTimestamp 5, Pubkey 1), (WitSignature, Pubkey 1)]"]
  by simp

text \<open>A cancelable future payment is decided by the first witness from \<open>from\<close> that is a signature
  or a late enough timestamp: a timestamp pays the recipient, a signature refunds the sender.\<close>

theorem cancelable_decided_by_first_event:
  "final_payment (apply_witnesses (new_cancelable_future_payment dt from_key t to_key) ws) =
     (case find (\<lambda>(w, k). k = from_key \<and> (case w of WitTimestamp d \<Rightarrow> dt \<le> d | WitSignature \<Rightarrow> True)) ws of
        None \<Rightarrow> None
      | Some (WitTimestamp _, _) \<Rightarrow> Some \<lparr>pay_tokens = t, pay_to = to_key\<rparr>
      | Some (WitSignature, _) \<Rightarrow> Some \<lparr>pay_tokens = t, pay_to = from_key\<rparr>)"
  unfolding new_cancelable_future_payment_def apply_witnesses_Or
proof (induction ws)
  case (Cons wk ws)
  obtain w k where "wk = (w, k)" by (cases wk)
  then show ?case using Cons by (cases w) auto
qed simp



end
