(* ===== verification/Transactions.thy ===== *)
theory Transactions
  imports Fin_Plan
begin

text \<open>
  Transactions (src/transaction.rs), the instructions of the system program
  (the enum of src/builtin_pgm.rs), and the constructors that build signed transactions
  (src/builtin_transaction.rs, src/fin_plan_transaction.rs).

  \<open>tx_ext\<close> collects the third-party functions the constructors use: the bincode encodings of
  the signed fields and of the two instruction types.
\<close>

section \<open>Data\<close>

record transaction =
  tx_signature :: signature
  tx_keys :: "pubkey list"
  tx_program_id :: pubkey
  tx_last_id :: hash
  tx_fee :: i64
  tx_userdata :: bytes

datatype system_program =
    CreateAccount (sp_tokens: i64) (sp_space: u64) (sp_program_id: pubkey)
  | Assign pubkey
  | Move i64
  | Load pubkey string

record tx_ext =
  tc_keys :: "pubkey list codec"
  tc_pubkey :: "pubkey codec"
  tc_hash :: "hash codec"
  tc_i64 :: "i64 codec"
  tc_bytes :: "bytes codec"
  tc_system :: "system_program codec"
  tc_instruction :: "instruction codec"

definition SYSTEM_PROGRAM_ID :: bytes where
  "SYSTEM_PROGRAM_ID = replicate 32 0"

definition BUDGET_PROGRAM_ID :: bytes where
  "BUDGET_PROGRAM_ID = 1 # replicate 31 0"

definition SystemProgram_check_id :: "pubkey \<Rightarrow> bool" where
  "SystemProgram_check_id p \<longleftrightarrow> pubkey_as_ref p = SYSTEM_PROGRAM_ID"

definition FinPlanState_check_id :: "pubkey \<Rightarrow> bool" where
  "FinPlanState_check_id p \<longleftrightarrow> pubkey_as_ref p = BUDGET_PROGRAM_ID"

text \<open>\<open>Pubkey::new\<close> of a 32-byte constant does not panic.\<close>

definition SystemProgram_id :: pubkey where
  "SystemProgram_id = the (Pubkey_new SYSTEM_PROGRAM_ID)"

definition FinPlanState_id :: pubkey where
  "FinPlanState_id = the (Pubkey_new BUDGET_PROGRAM_ID)"

section \<open>Signing\<close>

definition get_sign_data :: "tx_ext \<Rightarrow> transaction \<Rightarrow> bytes" where
  "get_sign_data tc tx =
     enc (tc_keys tc) (tx_keys tx) @ enc (tc_pubkey tc) (tx_program_id tx) @
     enc (tc_hash tc) (tx_last_id tx) @ enc (tc_i64 tc) (tx_fee tx) @
     enc (tc_bytes tc) (tx_userdata tx)"

definition tx_sign :: "'kp ed25519 \<Rightarrow> tx_ext \<Rightarrow> 'kp \<Rightarrow> transaction \<Rightarrow> transaction panics" where
  "tx_sign ring tc keypair tx = do {
     sig \<leftarrow> Signature_new (sign_bytes ring keypair (get_sign_data tc tx));
     Some (tx\<lparr>tx_signature := sig\<rparr>) }"

definition Transaction_new ::
    "'kp ed25519 \<Rightarrow> tx_ext \<Rightarrow> 'kp \<Rightarrow> pubkey list \<Rightarrow> pubkey \<Rightarrow> bytes \<Rightarrow> hash \<Rightarrow> i64 \<Rightarrow> transaction panics"
where
  "Transaction_new ring tc from_keypair transaction_keys pid udata last_id fee = do {
     from_key \<leftarrow> keypair_pubkey ring from_keypair;
     tx_sign ring tc from_keypair
       \<lparr>tx_signature = Signature_default, tx_keys = from_key # transaction_keys,
        tx_program_id = pid, tx_last_id = last_id, tx_fee = fee, tx_userdata = udata\<rparr> }"

definition tx_from :: "transaction \<Rightarrow> pubkey panics" where
  "tx_from tx = get_at (tx_keys tx) 0"

definition verify_signature :: "'kp ed25519 \<Rightarrow> tx_ext \<Rightarrow> transaction \<Rightarrow> bool panics" where
  "verify_signature ring tc tx = do {
     from_key \<leftarrow> tx_from tx;
     Some (Signature_verify ring (tx_signature tx) (pubkey_as_ref from_key) (get_sign_data tc tx)) }"

definition Transaction_hash :: "(bytes \<Rightarrow> hash) \<Rightarrow> transaction list \<Rightarrow> hash" where
  "Transaction_hash sha txs =
     Hasher_result sha
       (fold (\<lambda>tx. Hasher_hash (signature_as_ref (tx_signature tx))) txs Hasher_default)"

section \<open>System transactions\<close>

definition system_create ::
    "'kp ed25519 \<Rightarrow> tx_ext \<Rightarrow> 'kp \<Rightarrow> pubkey \<Rightarrow> hash \<Rightarrow> i64 \<Rightarrow> u64 \<Rightarrow> pubkey \<Rightarrow> i64 \<Rightarrow> transaction panics"
where
  "system_create ring tc from_keypair to_key last_id t space pid fee =
     Transaction_new ring tc from_keypair [to_key] SystemProgram_id
       (enc (tc_system tc) (CreateAccount t space pid)) last_id fee"

definition system_assign ::
    "'kp ed25519 \<Rightarrow> tx_ext \<Rightarrow> 'kp \<Rightarrow> hash \<Rightarrow> pubkey \<Rightarrow> i64 \<Rightarrow> transaction panics" where
  "system_assign ring tc from_keypair last_id pid fee =
     Transaction_new ring tc from_keypair [] SystemProgram_id
       (enc (tc_system tc) (Assign pid)) last_id fee"

definition system_new ::
    "'kp ed25519 \<Rightarrow> tx_ext \<Rightarrow> 'kp \<Rightarrow> pubkey \<Rightarrow> i64 \<Rightarrow> hash \<Rightarrow> transaction panics" where
  "system_new ring tc from_keypair to_key t last_id =
     system_create ring tc from_keypair to_key last_id t 0 Pubkey_default 0"

definition system_move ::
    "'kp ed25519 \<Rightarrow> tx_ext \<Rightarrow> 'kp \<Rightarrow> pubkey \<Rightarrow> i64 \<Rightarrow> hash \<Rightarrow> i64 \<Rightarrow> transaction panics" where
  "system_move ring tc from_keypair to_key t last_id fee =
     Transaction_new ring tc from_keypair [to_key] SystemProgram_id
       (enc (tc_system tc) (Move t)) last_id fee"

definition system_load ::
    "'kp ed25519 \<Rightarrow> tx_ext \<Rightarrow> 'kp \<Rightarrow> hash \<Rightarrow> i64 \<Rightarrow> pubkey \<Rightarrow> string \<Rightarrow> transaction panics" where
  "system_load ring tc from_keypair last_id fee pid name =
     Transaction_new ring tc from_keypair [] SystemProgram_id
       (enc (tc_system tc) (Load pid name)) last_id fee"

section \<open>Payment-plan transactions\<close>

definition fin_plan_new_taxed ::
    "'kp ed25519 \<Rightarrow> tx_ext \<Rightarrow> 'kp \<Rightarrow> pubkey \<Rightarrow> i64 \<Rightarrow> i64 \<Rightarrow> hash \<Rightarrow> transaction panics" where
  "fin_plan_new_taxed ring tc from_keypair to_key t fee last_id =
     Transaction_new ring tc from_keypair [to_key] FinPlanState_id
       (enc (tc_instruction tc) (NewContract
          \<lparr>con_tokens = t, con_fin_plan = Pay \<lparr>pay_tokens = t - fee, pay_to = to_key\<rparr>\<rparr>))
       last_id fee"

definition fin_plan_new ::
    "'kp ed25519 \<Rightarrow> tx_ext \<Rightarrow> 'kp \<Rightarrow> pubkey \<Rightarrow> i64 \<Rightarrow> hash \<Rightarrow> transaction panics" where
  "fin_plan_new ring tc from_keypair to_key t last_id =
     fin_plan_new_taxed ring tc from_keypair to_key t 0 last_id"

definition fin_plan_new_timestamp ::
    "'kp ed25519 \<Rightarrow> tx_ext \<Rightarrow> 'kp \<Rightarrow> pubkey \<Rightarrow> pubkey \<Rightarrow> date_time \<Rightarrow> hash \<Rightarrow> transaction panics" where
  "fin_plan_new_timestamp ring tc from_keypair contract_key to_key dt last_id =
     Transaction_new ring tc from_keypair [contract_key, to_key] FinPlanState_id
       (enc (tc_instruction tc) (ApplyTimestamp dt)) last_id 0"

definition fin_plan_new_signature ::
    "'kp ed25519 \<Rightarrow> tx_ext \<Rightarrow> 'kp \<Rightarrow> pubkey \<Rightarrow> pubkey \<Rightarrow> hash \<Rightarrow> transaction panics" where
  "fin_plan_new_signature ring tc from_keypair contract_key to_key last_id =
     Transaction_new ring tc from_keypair [contract_key, to_key] FinPlanState_id
       (enc (tc_instruction tc) ApplySignature) last_id 0"

definition fin_plan_new_vote ::
    "'kp ed25519 \<Rightarrow> tx_ext \<Rightarrow> 'kp \<Rightarrow> vote \<Rightarrow> hash \<Rightarrow> i64 \<Rightarrow> transaction panics" where
  "fin_plan_new_vote ring tc from_keypair v last_id fee =
     Transaction_new ring tc from_keypair [] FinPlanState_id
       (enc (tc_instruction tc) (NewVote v)) last_id fee"

definition fin_plan_new_on_date ::
    "'kp ed25519 \<Rightarrow> tx_ext \<Rightarrow> 'kp \<Rightarrow> pubkey \<Rightarrow> pubkey \<Rightarrow> date_time \<Rightarrow> pubkey \<Rightarrow> pubkey option \<Rightarrow>
       i64 \<Rightarrow> hash \<Rightarrow> transaction panics" where
  "fin_plan_new_on_date ring tc from_keypair to_key contract_key dt dt_pubkey cancelable t last_id =
     (let plan = (case cancelable of
          Some from_key \<Rightarrow>
            Or (CondTimestamp dt dt_pubkey, \<lparr>pay_tokens = t, pay_to = to_key\<rparr>)
               (CondSignature from_key, \<lparr>pay_tokens = t, pay_to = from_key\<rparr>)
        | None \<Rightarrow> After (CondTimestamp dt dt_pubkey) \<lparr>pay_tokens = t, pay_to = to_key\<rparr>)
      in Transaction_new ring tc from_keypair [contract_key] FinPlanState_id
           (enc (tc_instruction tc) (NewContract \<lparr>con_tokens = t, con_fin_plan = plan\<rparr>)) last_id 0)"

definition fin_plan_new_when_signed ::
    "'kp ed25519 \<Rightarrow> tx_ext \<Rightarrow> 'kp \<Rightarrow> pubkey \<Rightarrow> pubkey \<Rightarrow> pubkey \<Rightarrow> pubkey option \<Rightarrow>
       i64 \<Rightarrow> hash \<Rightarrow> transaction panics" where
  "fin_plan_new_when_signed ring tc from_keypair to_key contract_key witness_key cancelable t last_id =
     (let plan = (case cancelable of
          Some from_key \<Rightarrow>
            Or (CondSignature witness_key, \<lparr>pay_tokens = t, pay_to = to_key\<rparr>)
               (CondSignature from_key, \<lparr>pay_tokens = t, pay_to = from_key\<rparr>)
        | None \<Rightarrow> After (CondSignature witness_key) \<lparr>pay_tokens = t, pay_to = to_key\<rparr>)
      in Transaction_new ring tc from_keypair [contract_key] FinPlanState_id
           (enc (tc_instruction tc) (NewContract \<lparr>con_tokens = t, con_fin_plan = plan\<rparr>)) last_id 0)"

definition tx_instruction :: "tx_ext \<Rightarrow> transaction \<Rightarrow> instruction option" where
  "tx_instruction tc tx = dec (tc_instruction tc) (tx_userdata tx)"

definition tx_vote :: "tx_ext \<Rightarrow> transaction \<Rightarrow> (pubkey \<times> vote \<times> hash) option panics" where
  "tx_vote tc tx =
     (case tx_instruction tc tx of
        Some (NewVote v) \<Rightarrow> do { from_key \<leftarrow> tx_from tx; Some (Some (from_key, v, tx_last_id tx)) }
      | _ \<Rightarrow> Some None)"

definition verify_plan :: "tx_ext \<Rightarrow> transaction \<Rightarrow> bool" where
  "verify_plan tc tx =
     (case tx_instruction tc tx of
        Some (NewContract con) \<Rightarrow>
          0 \<le> sint (tx_fee tx) \<and> sint (tx_fee tx) \<le> sint (con_tokens con) \<and>
          plan_verify (con_fin_plan con) (con_tokens con - tx_fee tx)
      | _ \<Rightarrow> True)"

section \<open>Facts\<close>

lemma SystemProgram_id_eq [simp]: "SystemProgram_id = Pubkey 0"
  by (simp add: SystemProgram_id_def Pubkey_new_def SYSTEM_PROGRAM_ID_def numeral_eq_Suc)

lemma FinPlanState_id_eq [simp]: "FinPlanState_id = Pubkey 1"
  by (simp add: FinPlanState_id_def Pubkey_new_def BUDGET_PROGRAM_ID_def numeral_eq_Suc)

lemma pubkey_as_ref_eq_iff:
  "length bs = 32 \<Longrightarrow> pubkey_as_ref p = bs \<longleftrightarrow> Pubkey_new bs = Some p"
  using pubkey_as_ref_Pubkey_new [of bs] by (auto simp: Pubkey_new_as_ref pubkey_as_ref_inject)

lemma SystemProgram_check_id_iff: "SystemProgram_check_id p \<longleftrightarrow> p = SystemProgram_id"
  unfolding SystemProgram_check_id_def SystemProgram_id_def
  by (subst pubkey_as_ref_eq_iff) (auto simp: SYSTEM_PROGRAM_ID_def Pubkey_new_def)

lemma FinPlanState_check_id_iff: "FinPlanState_check_id p \<longleftrightarrow> p = FinPlanState_id"
  unfolding FinPlanState_check_id_def FinPlanState_id_def
  by (subst pubkey_as_ref_eq_iff) (auto simp: BUDGET_PROGRAM_ID_def Pubkey_new_def)

lemma fold_Hasher_hash:
  "hasher_input (fold (\<lambda>x. Hasher_hash (f x)) xs h) = hasher_input h @ concat (map f xs)"
  by (induction xs arbitrary: h) (auto simp: Hasher_hash_def)

lemma Transaction_hash_eq:
  "Transaction_hash sha txs = sha (concat (map (\<lambda>tx. signature_as_ref (tx_signature tx)) txs))"
  by (simp add: Transaction_hash_def Hasher_result_def fold_Hasher_hash Hasher_default_def)

lemma get_sign_data_signature [simp]:
  "get_sign_data tc (tx\<lparr>tx_signature := s\<rparr>) = get_sign_data tc tx"
  by (simp add: get_sign_data_def)

lemma keypair_pubkey_bytes:
  "ed25519_contract ring \<Longrightarrow>
     \<exists>k. keypair_pubkey ring kp = Some k \<and> pubkey_as_ref k = public_key_bytes ring kp"
  unfolding keypair_pubkey_def ed25519_contract_def
  by (rule pubkey_as_ref_Pubkey_new) simp

lemma tx_sign_Some:
  assumes "ed25519_contract ring"
  shows "\<exists>s. tx_sign ring tc kp tx = Some (tx\<lparr>tx_signature := s\<rparr>) \<and>
       signature_as_ref s = sign_bytes ring kp (get_sign_data tc tx)"
proof -
  have "length (sign_bytes ring kp (get_sign_data tc tx)) = 64"
    using assms by (simp add: ed25519_contract_def)
  then obtain s where "Signature_new (sign_bytes ring kp (get_sign_data tc tx)) = Some s"
      "signature_as_ref s = sign_bytes ring kp (get_sign_data tc tx)"
    using signature_as_ref_Signature_new by blast
  then show ?thesis by (auto simp: tx_sign_def)
qed

text \<open>What every constructor promises: the fields it was given, and a signature that verifies.\<close>

lemma Transaction_new_signed:
  assumes ring: "ed25519_contract ring"
  obtains tx k where "Transaction_new ring tc kp keys pid udata last_id fee = Some tx"
    "keypair_pubkey ring kp = Some k" "tx_keys tx = k # keys" "tx_program_id tx = pid"
    "tx_userdata tx = udata" "tx_last_id tx = last_id" "tx_fee tx = fee"
    "verify_signature ring tc tx = Some True"
proof -
  obtain k where k: "keypair_pubkey ring kp = Some k" "pubkey_as_ref k = public_key_bytes ring kp"
    using keypair_pubkey_bytes [OF ring] by blast
  let ?t = "\<lparr>tx_signature = Signature_default, tx_keys = k # keys, tx_program_id = pid,
    tx_last_id = last_id, tx_fee = fee, tx_userdata = udata\<rparr>"
  obtain s where s: "tx_sign ring tc kp ?t = Some (?t\<lparr>tx_signature := s\<rparr>)"
      "signature_as_ref s = sign_bytes ring kp (get_sign_data tc ?t)"
    using tx_sign_Some [OF ring] by blast
  show thesis
  proof (rule that)
    show "Transaction_new ring tc kp keys pid udata last_id fee = Some (?t\<lparr>tx_signature := s\<rparr>)"
      by (simp add: Transaction_new_def k s)
    have "get_sign_data tc (?t\<lparr>tx_signature := s\<rparr>) = get_sign_data tc ?t"
      by (rule get_sign_data_signature)
    then show "verify_signature ring tc (?t\<lparr>tx_signature := s\<rparr>) = Some True"
      using ring k(2) s(2)
      by (simp add: ed25519_contract_def verify_signature_def tx_from_def get_at_def
          Signature_verify_def)
  qed (use k in simp_all)
qed

section \<open>On the wire\<close>

definition system_program_wire :: "system_program wire" where
  "system_program_wire =
     \<lparr>put = (\<lambda>i. case i of
         CreateAccount t space p \<Rightarrow>
           tagged 0 (put (pair_wire u64_wire (pair_wire u64_wire pubkey_wire)) (t, space, p))
       | Assign p \<Rightarrow> tagged 1 (put pubkey_wire p)
       | Move t \<Rightarrow> tagged 2 (put u64_wire t)
       | Load p name \<Rightarrow> tagged 3 (put (pair_wire pubkey_wire string_wire) (p, name))),
      get = (\<lambda>bs. do { (t, r) \<leftarrow> get u32_wire bs;
         if t = 0 then variant (\<lambda>(t, space, p). CreateAccount t space p)
                         (pair_wire u64_wire (pair_wire u64_wire pubkey_wire)) r
         else if t = 1 then variant Assign pubkey_wire r
         else if t = 2 then variant Move u64_wire r
         else if t = 3 then variant (\<lambda>(p, name). Load p name) (pair_wire pubkey_wire string_wire) r
         else None })\<rparr>"

definition transaction_wire :: "transaction wire" where
  "transaction_wire = iso_wire
     (\<lambda>(s, ks, p, l, f, u). \<lparr>tx_signature = s, tx_keys = ks, tx_program_id = p, tx_last_id = l,
        tx_fee = f, tx_userdata = u\<rparr>)
     (\<lambda>tx. (tx_signature tx, tx_keys tx, tx_program_id tx, tx_last_id tx, tx_fee tx, tx_userdata tx))
     (pair_wire signature_wire (pair_wire (list_wire pubkey_wire) (pair_wire pubkey_wire
       (pair_wire hash_wire (pair_wire u64_wire bytes_wire)))))"

definition bincode_tx_ext :: tx_ext where
  "bincode_tx_ext =
     \<lparr>tc_keys = codec_of (list_wire pubkey_wire), tc_pubkey = codec_of pubkey_wire,
      tc_hash = codec_of hash_wire, tc_i64 = codec_of u64_wire, tc_bytes = codec_of bytes_wire,
      tc_system = codec_of system_program_wire, tc_instruction = codec_of instruction_wire\<rparr>"

lemma system_program_wire_format: "wire_format system_program_wire"
proof -
  have "wire_format (pair_wire u64_wire (pair_wire u64_wire pubkey_wire))"
    "wire_format (pair_wire pubkey_wire string_wire)"
    by (intro wire_rules key_wire_formats text_wire_formats)+
  note laws = this [THEN variant_put] variant_put [OF key_wire_formats(1)]
    variant_put [OF u64w.wire_format_axioms]
  show ?thesis
    by unfold_locales
      (auto simp: system_program_wire_def laws simp del: word_wire_sel split: system_program.splits)
qed

lemma transaction_wire_format: "wire_format transaction_wire"
  unfolding transaction_wire_def by (intro wire_rules key_wire_formats text_wire_formats) simp

interpretation systemw: wire_format system_program_wire by (rule system_program_wire_format)
interpretation transactionw: wire_format transaction_wire by (rule transaction_wire_format)

text \<open>What a signature covers: all the fields, when their encodings are self-delimiting.\<close>

locale tx_codecs =
  fixes tc :: tx_ext
  assumes fields: "wire_backed (tc_keys tc)" "wire_backed (tc_pubkey tc)" "wire_backed (tc_hash tc)"
      "wire_backed (tc_i64 tc)" "wire_backed (tc_bytes tc)"
    and instructions: "bincode_codec (tc_system tc)" "bincode_codec (tc_instruction tc)"
begin

lemma get_sign_data_fields:
  assumes "get_sign_data tc tx = get_sign_data tc tx'"
    and "length (get_sign_data tc tx) < 2 ^ 63"
  shows "tx' = tx\<lparr>tx_signature := tx_signature tx'\<rparr>"
proof -
  have len': "length (get_sign_data tc tx') < 2 ^ 63" using assms by simp
  note lens = assms(2) [unfolded get_sign_data_def] len' [unfolded get_sign_data_def]
  have 1: "tx_keys tx = tx_keys tx' \<and>
      enc (tc_pubkey tc) (tx_program_id tx) @ enc (tc_hash tc) (tx_last_id tx) @
        enc (tc_i64 tc) (tx_fee tx) @ enc (tc_bytes tc) (tx_userdata tx) =
      enc (tc_pubkey tc) (tx_program_id tx') @ enc (tc_hash tc) (tx_last_id tx') @
        enc (tc_i64 tc) (tx_fee tx') @ enc (tc_bytes tc) (tx_userdata tx')"
    by (rule wire_backed_append [OF fields(1)])
      (use assms(1) in \<open>simp add: get_sign_data_def\<close>, use lens in simp_all)
  have 2: "tx_program_id tx = tx_program_id tx' \<and>
      enc (tc_hash tc) (tx_last_id tx) @ enc (tc_i64 tc) (tx_fee tx) @ enc (tc_bytes tc) (tx_userdata tx) =
      enc (tc_hash tc) (tx_last_id tx') @ enc (tc_i64 tc) (tx_fee tx') @ enc (tc_bytes tc) (tx_userdata tx')"
    by (rule wire_backed_append [OF fields(2)]) (use 1 in simp, use lens in simp_all)
  have 3: "tx_last_id tx = tx_last_id tx' \<and>
      enc (tc_i64 tc) (tx_fee tx) @ enc (tc_bytes tc) (tx_userdata tx) =
      enc (tc_i64 tc) (tx_fee tx') @ enc (tc_bytes tc) (tx_userdata tx')"
    by (rule wire_backed_append [OF fields(3)]) (use 2 in simp, use lens in simp_all)
  have 4: "tx_fee tx = tx_fee tx' \<and>
      enc (tc_bytes tc) (tx_userdata tx) = enc (tc_bytes tc) (tx_userdata tx')"
    by (rule wire_backed_append [OF fields(4)]) (use 3 in simp, use lens in simp_all)
  have 5: "tx_userdata tx = tx_userdata tx' \<and> ([] :: bytes) = []"
    by (rule wire_backed_append [OF fields(5)]) (use 4 in simp, use lens in simp_all)
  show ?thesis using 1 2 3 4 5 by simp
qed

end

interpretation bincode_tx: tx_codecs bincode_tx_ext
  by unfold_locales
    (auto simp: bincode_tx_ext_def
      intro!: wire_backedI wire_rules key_wire_formats text_wire_formats
        bincode_codec.dec_enc [OF codec_of_bincode]
        system_program_wire_format instruction_wire_format simp del: codec_of_sel)

section \<open>What transactions promise\<close>

text \<open>The signature covers everything else: when a transaction's encodings are self-delimiting, two
  transactions with the same bytes to sign differ at most in the signature itself.\<close>

theorem sign_data_determines_transaction:
  assumes "tx_codecs tc" and "get_sign_data tc tx = get_sign_data tc tx'"
    and "length (get_sign_data tc tx) < 2 ^ 63"
  shows "tx' = tx\<lparr>tx_signature := tx_signature tx'\<rparr>"
  using tx_codecs.get_sign_data_fields [OF assms] .

definition sample_tx :: transaction where
  "sample_tx = \<lparr>tx_signature = Signature 9, tx_keys = [Pubkey 1, Pubkey 2], tx_program_id = Pubkey 0,
     tx_last_id = Hash 5, tx_fee = 0, tx_userdata = [2, 0, 0, 0]\<rparr>"

lemma sample_sign_data_length: "length (get_sign_data bincode_tx_ext sample_tx) = 156"
  by (simp add: get_sign_data_def bincode_tx_ext_def sample_tx_def list_wire_def pubkey_wire_def
      hash_wire_def bytes_wire_def iso_wire_def)

theorem sign_data_witness:
  "sample_tx = (sample_tx\<lparr>tx_signature := Signature 0\<rparr>)\<lparr>tx_signature := tx_signature sample_tx\<rparr>"
  by (rule sign_data_determines_transaction [OF bincode_tx.tx_codecs_axioms])
    (simp_all add: sample_sign_data_length)

text \<open>A transaction made by \<open>Transaction::new\<close> carries the signer's key first and the given fields,
  and its signature verifies.\<close>

theorem new_transaction_verifies:
  assumes "ed25519_contract ring"
  shows "\<exists>tx k. Transaction_new ring tc kp keys pid udata last_id fee = Some tx \<and>
    keypair_pubkey ring kp = Some k \<and> tx_keys tx = k # keys \<and> tx_program_id tx = pid \<and>
    tx_userdata tx = udata \<and> tx_last_id tx = last_id \<and> tx_fee tx = fee \<and>
    verify_signature ring tc tx = Some True"
  by (rule Transaction_new_signed [OF assms]) blast

text \<open>A scheme that meets the contract: the key is a byte, a signature is that byte 64 times.\<close>

definition sample_ring :: "u8 ed25519" where
  "sample_ring = \<lparr>public_key_bytes = replicate 32, sign_bytes = (\<lambda>kp msg. replicate 64 kp),
     verify_bytes = (\<lambda>pk msg sig. take 32 sig = pk \<and> length sig = 64)\<rparr>"

lemma sample_ring_contract: "ed25519_contract sample_ring"
  by (simp add: ed25519_contract_def sample_ring_def)

theorem new_transaction_witness:
  "\<exists>tx k. Transaction_new sample_ring bincode_tx_ext 7 [Pubkey 2] (Pubkey 0) [1] (Hash 3) 0 = Some tx \<and>
    keypair_pubkey sample_ring 7 = Some k \<and> tx_keys tx = k # [Pubkey 2] \<and> tx_program_id tx = Pubkey 0 \<and>
    tx_userdata tx = [1] \<and> tx_last_id tx = Hash 3 \<and> tx_fee tx = 0 \<and>
    verify_signature sample_ring bincode_tx_ext tx = Some True"
  by (rule new_transaction_verifies [OF sample_ring_contract])

end
