(* ===== verification/Fin_Plan_Program.thy ===== *)
theory Fin_Plan_Program
  imports Transactions
begin

text \<open>
  The payment-plan program, src/fin_plan_program.rs.  The contract's state lives in the userdata
  of account 1, behind an 8-byte length.

  Operations return the accounts as they stand when the call ends, whether it ends in \<open>Ok\<close>
  or in \<open>Err\<close>, because the Rust code updates the slice in place.
\<close>

section \<open>Data\<close>

datatype fin_plan_error =
    InsufficientFunds pubkey
  | ContractAlreadyExists pubkey
  | ContractNotPending pubkey
  | SourceIsPendingContract pubkey
  | UninitializedContract pubkey
  | NegativeTokens
  | DestinationMissing pubkey
  | FailedWitness
  | UserdataTooSmall
  | UserdataDeserializeFailure

record fin_plan_state =
  initialized :: bool
  pending_fin_plan :: "fin_plan option"

definition FinPlanState_default :: fin_plan_state where
  "FinPlanState_default = \<lparr>initialized = False, pending_fin_plan = None\<rparr>"

text \<open>The bincode encodings the program uses: its instruction, its state, and a \<open>u64\<close> length.\<close>

record fin_plan_ext =
  fx_instruction :: "instruction codec"
  fx_state :: "fin_plan_state codec"
  fx_u64 :: "u64 codec"

definition is_pending :: "fin_plan_state \<Rightarrow> bool" where
  "is_pending st \<longleftrightarrow> pending_fin_plan st \<noteq> None"

section \<open>Storing the state in the userdata\<close>

text \<open>
  A \<open>BufWriter\<close> over the slice \<open>xs[a..b]\<close>: taking the slice panics when it is out of
  range, and bytes past its end are dropped when the writer is flushed.
\<close>

definition write_slice :: "nat \<Rightarrow> nat \<Rightarrow> bytes \<Rightarrow> bytes \<Rightarrow> bytes panics" where
  "write_slice a b bs xs = (if a \<le> b \<and> b \<le> length xs then overwrite a (take (b - a) bs) xs else None)"

definition FinPlanState_serialize ::
    "fin_plan_ext \<Rightarrow> fin_plan_state \<Rightarrow> bytes \<Rightarrow> (bytes \<times> (fin_plan_error + unit)) panics" where
  "FinPlanState_serialize fx st output =
     (let len = length (enc (fx_state fx) st) in
      if length output < len then Some (output, Inl UserdataTooSmall)
      else do {
        output \<leftarrow> write_slice 0 8 (enc (fx_u64 fx) (of_nat len)) output;
        output \<leftarrow> write_slice 8 (8 + len) (enc (fx_state fx) st) output;
        Some (output, Inr ()) })"

text \<open>The inner option is the \<open>Result\<close> of the Rust function: \<open>None\<close> is its \<open>Err\<close>.\<close>

definition FinPlanState_deserialize :: "fin_plan_ext \<Rightarrow> bytes \<Rightarrow> fin_plan_state option panics" where
  "FinPlanState_deserialize fx input =
     (if length input < 8 then Some None
      else do {
        len \<leftarrow> dec (fx_u64 fx) (take 8 input);
        if len < 2 then Some None
        else if length input < unat (8 + len) then Some None
        else do {
          body \<leftarrow> subslice 8 (unat (8 + len)) input;
          Some (dec (fx_state fx) body) } })"

section \<open>Witnesses\<close>

text \<open>\<open>apply_signature\<close> and \<open>apply_timestamp\<close> have the same body but for the witness.\<close>

definition apply_contract_witness ::
    "witness \<Rightarrow> fin_plan_state \<Rightarrow> pubkey list \<Rightarrow> account list \<Rightarrow>
       (fin_plan_state \<times> account list \<times> (fin_plan_error + unit)) panics" where
  "apply_contract_witness w st keys accs = do {
     (st, fp) \<leftarrow> (case pending_fin_plan st of
         Some plan \<Rightarrow> do {
           k0 \<leftarrow> get_at keys 0;
           let plan = apply_witness plan w k0;
           Some (st\<lparr>pending_fin_plan := Some plan\<rparr>, final_payment plan) }
       | None \<Rightarrow> Some (st, None));
     (case fp of
        None \<Rightarrow> Some (st, accs, Inr ())
      | Some p \<Rightarrow> do {
          missing \<leftarrow> (if length keys < 2 then Some True
                      else do { k2 \<leftarrow> get_at keys 2; Some (pay_to p \<noteq> k2) });
          if missing then Some (st, accs, Inl (DestinationMissing (pay_to p)))
          else do {
            accs \<leftarrow> transfer_tokens 1 2 (pay_tokens p) accs;
            Some (st\<lparr>pending_fin_plan := None\<rparr>, accs, Inr ()) } }) }"

definition apply_signature ::
    "fin_plan_state \<Rightarrow> pubkey list \<Rightarrow> account list \<Rightarrow>
       (fin_plan_state \<times> account list \<times> (fin_plan_error + unit)) panics" where
  "apply_signature st keys accs = apply_contract_witness WitSignature st keys accs"

definition apply_timestamp ::
    "fin_plan_state \<Rightarrow> pubkey list \<Rightarrow> account list \<Rightarrow> date_time \<Rightarrow>
       (fin_plan_state \<times> account list \<times> (fin_plan_error + unit)) panics" where
  "apply_timestamp st keys accs dt = apply_contract_witness (WitTimestamp dt) st keys accs"

section \<open>Debits and credits\<close>

definition apply_debits_to_fin_plan_state ::
    "transaction \<Rightarrow> account list \<Rightarrow> instruction \<Rightarrow> (account list \<times> (fin_plan_error + unit)) panics" where
  "apply_debits_to_fin_plan_state tx accs inst = do {
     a0 \<leftarrow> get_at accs 0;
     if userdata a0 \<noteq> [] then do {
       k0 \<leftarrow> get_at (tx_keys tx) 0;
       Some (accs, Inl (SourceIsPendingContract k0)) }
     else (case inst of
         NewContract con \<Rightarrow>
           if sint (con_tokens con) < 0 then Some (accs, Inl NegativeTokens)
           else if sint (tokens a0) < sint (con_tokens con) then do {
             k0 \<leftarrow> get_at (tx_keys tx) 0;
             Some (accs, Inl (InsufficientFunds k0)) }
           else do {
             accs \<leftarrow> modify_at 0 (\<lambda>a. a\<lparr>tokens := tokens a - con_tokens con\<rparr>) accs;
             Some (accs, Inr ()) }
       | _ \<Rightarrow> Some (accs, Inr ())) }"

text \<open>Writing a state back into the userdata of account 1.\<close>

definition store_contract_state ::
    "fin_plan_ext \<Rightarrow> fin_plan_state \<Rightarrow> account list \<Rightarrow> (account list \<times> (fin_plan_error + unit)) panics" where
  "store_contract_state fx st accs = do {
     a1 \<leftarrow> get_at accs 1;
     (output, res) \<leftarrow> FinPlanState_serialize fx st (userdata a1);
     accs \<leftarrow> modify_at 1 (\<lambda>a. a\<lparr>userdata := output\<rparr>) accs;
     Some (accs, res) }"

text \<open>The shared shape of the \<open>ApplyTimestamp\<close> and \<open>ApplySignature\<close> branches.\<close>

definition step_contract ::
    "fin_plan_ext \<Rightarrow> transaction \<Rightarrow> account list \<Rightarrow>
       (fin_plan_state \<Rightarrow> (fin_plan_state \<times> account list \<times> (fin_plan_error + unit)) panics) \<Rightarrow>
       (account list \<times> (fin_plan_error + unit)) panics" where
  "step_contract fx tx accs f = do {
     a1 \<leftarrow> get_at accs 1;
     r \<leftarrow> FinPlanState_deserialize fx (userdata a1);
     (case r of
        None \<Rightarrow> do { k1 \<leftarrow> get_at (tx_keys tx) 1; Some (accs, Inl (UninitializedContract k1)) }
      | Some st \<Rightarrow>
          if \<not> is_pending st then do {
            k1 \<leftarrow> get_at (tx_keys tx) 1; Some (accs, Inl (ContractNotPending k1)) }
          else if \<not> initialized st then do {
            k1 \<leftarrow> get_at (tx_keys tx) 1; Some (accs, Inl (UninitializedContract k1)) }
          else do {
            (st, accs, res) \<leftarrow> f st;
            (case res of
               Inl e \<Rightarrow> Some (accs, Inl e)
             | Inr _ \<Rightarrow> store_contract_state fx st accs) }) }"

definition apply_credits_to_fin_plan_state ::
    "fin_plan_ext \<Rightarrow> transaction \<Rightarrow> account list \<Rightarrow> instruction \<Rightarrow>
       (account list \<times> (fin_plan_error + unit)) panics" where
  "apply_credits_to_fin_plan_state fx tx accs inst =
     (case inst of
        NewContract con \<Rightarrow>
          (case final_payment (con_fin_plan con) of
             Some p \<Rightarrow> do {
               accs \<leftarrow> modify_at 1 (\<lambda>a. a\<lparr>tokens := tokens a + pay_tokens p\<rparr>) accs;
               Some (accs, Inr ()) }
           | None \<Rightarrow> do {
               a1 \<leftarrow> get_at accs 1;
               existing \<leftarrow> FinPlanState_deserialize fx (userdata a1);
               if map_option initialized existing = Some True then do {
                 k1 \<leftarrow> get_at (tx_keys tx) 1;
                 Some (accs, Inl (ContractAlreadyExists k1)) }
               else do {
                 accs \<leftarrow> modify_at 1 (\<lambda>a. a\<lparr>tokens := tokens a + con_tokens con\<rparr>) accs;
                 store_contract_state fx
                   (FinPlanState_default\<lparr>pending_fin_plan := Some (con_fin_plan con),
                                          initialized := True\<rparr>) accs } })
      | ApplyTimestamp dt \<Rightarrow>
          step_contract fx tx accs (\<lambda>st. apply_timestamp st (tx_keys tx) accs dt)
      | ApplySignature \<Rightarrow>
          step_contract fx tx accs (\<lambda>st. apply_signature st (tx_keys tx) accs)
      | NewVote _ \<Rightarrow> Some (accs, Inr ()))"

definition FinPlanState_process_transaction ::
    "fin_plan_ext \<Rightarrow> transaction \<Rightarrow> account list \<Rightarrow> (account list \<times> (fin_plan_error + unit)) panics" where
  "FinPlanState_process_transaction fx tx accs =
     (case dec (fx_instruction fx) (tx_userdata tx) of
        None \<Rightarrow> Some (accs, Inl UserdataDeserializeFailure)
      | Some inst \<Rightarrow> do {
          (accs, res) \<leftarrow> apply_debits_to_fin_plan_state tx accs inst;
          (case res of
             Inl e \<Rightarrow> Some (accs, Inl e)
           | Inr _ \<Rightarrow> apply_credits_to_fin_plan_state fx tx accs inst) })"

definition FinPlanState_get_balance :: "fin_plan_ext \<Rightarrow> account \<Rightarrow> i64" where
  "FinPlanState_get_balance fx a =
     (case dec (fx_state fx) (userdata a) of
        Some st \<Rightarrow> if is_pending st then 0 else tokens a
      | None \<Rightarrow> tokens a)"

section \<open>The stored state\<close>

text \<open>What the program relies on of bincode.  The width of a state is at least its two tag bytes.\<close>

locale fin_plan_codecs =
  fixes fx :: fin_plan_ext
  assumes instruction_codec: "bincode_codec (fx_instruction fx)"
    and state_codec: "bincode_codec (fx_state fx)"
    and u64_codec: "fixed_codec (fx_u64 fx) 8"
    and state_width: "2 \<le> length (enc (fx_state fx) st)"
begin

lemma FinPlanState_serialize_fits:
  assumes "8 + length (enc (fx_state fx) st) \<le> length output"
  shows "FinPlanState_serialize fx st output =
    Some (enc (fx_u64 fx) (of_nat (length (enc (fx_state fx) st))) @ enc (fx_state fx) st @
          drop (8 + length (enc (fx_state fx) st)) output, Inr ())"
  using assms fixed_codec.enc_width [OF u64_codec]
  by (simp add: FinPlanState_serialize_def write_slice_def overwrite_def Let_def add.commute)

text \<open>The round trip, for buffers no longer than Rust allows (\<open>isize::MAX\<close>).\<close>

lemma FinPlanState_round_trip:
  assumes "8 + length (enc (fx_state fx) st) \<le> length output" and "length output < 2 ^ 63"
  obtains output' where "FinPlanState_serialize fx st output = Some (output', Inr ())"
    "FinPlanState_deserialize fx output' = Some (Some st)" "length output' = length output"
proof
  let ?n = "length (enc (fx_state fx) st)"
  let ?len = "enc (fx_u64 fx) (of_nat ?n)"
  let ?out = "?len @ enc (fx_state fx) st @ drop (8 + ?n) output"
  have len8: "length ?len = 8" by (rule fixed_codec.enc_width [OF u64_codec])
  show "FinPlanState_serialize fx st output = Some (?out, Inr ())"
    by (rule FinPlanState_serialize_fits) fact
  show "length ?out = length output" using assms(1) len8 by simp
  have n: "unat (8 + of_nat ?n :: u64) = 8 + ?n"
    using assms by (simp add: unat_word_ariths unat_of_nat)
  have "\<not> (of_nat ?n :: u64) < 2"
    using assms state_width [of st] by (simp add: word_less_nat_alt unat_of_nat)
  moreover have "dec (fx_u64 fx) (take 8 ?out) = Some (of_nat ?n)"
    using len8 fixed_codec.dec_enc_fixed [OF u64_codec] by simp
  ultimately show "FinPlanState_deserialize fx ?out = Some (Some st)"
    using len8 assms bincode_codec.dec_enc [OF state_codec, of st]
    by (simp add: FinPlanState_deserialize_def n subslice_def)
qed

end

text \<open>bincode's own formats meet the contract.\<close>

definition state_wire :: "fin_plan_state wire" where
  "state_wire = iso_wire (\<lambda>(i, p). \<lparr>initialized = i, pending_fin_plan = p\<rparr>)
     (\<lambda>st. (initialized st, pending_fin_plan st)) (pair_wire bool_wire (option_wire fin_plan_wire))"

definition bincode_fin_plan_ext :: fin_plan_ext where
  "bincode_fin_plan_ext = \<lparr>fx_instruction = codec_of instruction_wire,
     fx_state = codec_of state_wire, fx_u64 = codec_of u64_wire\<rparr>"

lemma state_wire_format: "wire_format state_wire"
  unfolding state_wire_def by (intro wire_rules fin_plan_wire_format) simp

lemma bincode_fin_plan_codecs: "fin_plan_codecs bincode_fin_plan_ext"
proof (rule fin_plan_codecs.intro)
  show "bincode_codec (fx_instruction bincode_fin_plan_ext)"
    by (simp add: bincode_fin_plan_ext_def codec_of_bincode instruction_wire_format)
  show "bincode_codec (fx_state bincode_fin_plan_ext)"
    by (simp add: bincode_fin_plan_ext_def codec_of_bincode state_wire_format)
  show "fixed_codec (fx_u64 bincode_fin_plan_ext) 8"
    by (simp add: bincode_fin_plan_ext_def u64c.fixed_codec_axioms)
  show "2 \<le> length (enc (fx_state bincode_fin_plan_ext) st)" for st
    by (simp add: bincode_fin_plan_ext_def state_wire_def iso_wire_def pair_wire_def bool_wire_def
        option_wire_def split: option.split)
qed

interpretation bincode_plan: fin_plan_codecs bincode_fin_plan_ext
  by (rule bincode_fin_plan_codecs)

section \<open>Tokens\<close>

lemma store_contract_state_frame:
  "store_contract_state fx st accs = Some (accs', res) \<Longrightarrow>
     length accs' = length accs \<and> map tokens accs' = map tokens accs \<and>
     map program_id accs' = map program_id accs"
  by (auto simp: store_contract_state_def bind_eq_Some_conv map_modify_at modify_at_length)

lemma apply_contract_witness_cases:
  assumes "apply_contract_witness w st keys accs = Some (st', accs', res)"
  obtains "accs' = accs" | t where "transfer_tokens 1 2 t accs = Some accs'"
  using assms
  by (auto simp: apply_contract_witness_def bind_eq_Some_conv Let_def
      split: option.splits if_splits)

lemma apply_contract_witness_conserves:
  assumes "apply_contract_witness w st keys accs = Some (st', accs', res)"
  shows "length accs' = length accs \<and> total_tokens accs' = total_tokens accs \<and>
     map program_id accs' = map program_id accs"
  using assms
  by (cases rule: apply_contract_witness_cases)
    (simp_all add: transfer_tokens_frame transfer_tokens_conserves)

lemma step_contract_cases:
  assumes "step_contract fx tx accs f = Some (accs', res)"
  obtains (refused) e where "accs' = accs" "res = Inl e"
  | (stepped) a1 st st' mid r where "get_at accs 1 = Some a1"
      "FinPlanState_deserialize fx (userdata a1) = Some (Some st)" "is_pending st" "initialized st"
      "f st = Some (st', mid, r)"
      "\<And>e. r = Inl e \<Longrightarrow> accs' = mid \<and> res = Inl e"
      "r = Inr () \<Longrightarrow> store_contract_state fx st' mid = Some (accs', res)"
proof -
  obtain a1 d where a1: "get_at accs 1 = Some a1"
    and d: "FinPlanState_deserialize fx (userdata a1) = Some d"
    using assms by (auto simp: step_contract_def bind_eq_Some_conv)
  show thesis
  proof (cases "\<exists>st. d = Some st \<and> is_pending st \<and> initialized st")
    case True
    then obtain st where st: "d = Some st" "is_pending st" "initialized st" by blast
    then obtain st' mid r where "f st = Some (st', mid, r)"
      using assms a1 d by (auto simp: step_contract_def bind_eq_Some_conv)
    then show thesis
      using assms a1 d st by (intro stepped [of a1 st st' mid r]) (auto simp: step_contract_def)
  next
    case False
    then show thesis
      using assms a1 d
      by (cases d) (auto simp: step_contract_def bind_eq_Some_conv intro: refused split: if_splits)
  qed
qed

lemma step_contract_conserves:
  assumes "step_contract fx tx accs f = Some (accs', res)"
    and "\<And>st st' accs' res. f st = Some (st', accs', res) \<Longrightarrow>
      length accs' = length accs \<and> total_tokens accs' = total_tokens accs \<and>
      map program_id accs' = map program_id accs"
  shows "length accs' = length accs \<and> total_tokens accs' = total_tokens accs \<and>
      map program_id accs' = map program_id accs"
  using assms(1)
proof (cases rule: step_contract_cases)
  case (stepped a1 st st' mid r)
  then show ?thesis
    using assms(2) [OF stepped(5)] unit_result_cases [of r] store_contract_state_frame [of fx st' mid]
    by metis
qed simp

text \<open>How a debit followed by a credit changes the total.\<close>

fun contract_imbalance :: "instruction \<Rightarrow> i64" where
  "contract_imbalance (NewContract con) =
     (case final_payment (con_fin_plan con) of
        Some p \<Rightarrow> pay_tokens p - con_tokens con
      | None \<Rightarrow> 0)"
| "contract_imbalance _ = 0"

lemma apply_debits_total:
  assumes "apply_debits_to_fin_plan_state tx accs inst = Some (accs', Inr ())"
  shows "length accs' = length accs \<and> map program_id accs' = map program_id accs \<and>
    total_tokens accs' = total_tokens accs -
      (case inst of NewContract con \<Rightarrow> con_tokens con | _ \<Rightarrow> 0)"
  using assms
  by (auto simp: apply_debits_to_fin_plan_state_def bind_eq_Some_conv modify_at_eq_Some get_at_eq_Some
      map_update sum_list_update_group list_update_same_conv
      split: instruction.splits if_splits)

lemma apply_credits_total:
  assumes "apply_credits_to_fin_plan_state fx tx accs inst = Some (accs', Inr ())"
  shows "length accs' = length accs \<and> map program_id accs' = map program_id accs \<and>
    total_tokens accs' = total_tokens accs + contract_imbalance inst +
      (case inst of NewContract con \<Rightarrow> con_tokens con | _ \<Rightarrow> 0)"
proof (cases inst)
  case (NewContract con)
  then show ?thesis
    using assms
    by (auto simp: apply_credits_to_fin_plan_state_def bind_eq_Some_conv modify_at_eq_Some get_at_eq_Some
        map_update sum_list_update_group list_update_same_conv
        split: option.splits if_splits dest!: store_contract_state_frame)
next
  case (ApplyTimestamp dt)
  then show ?thesis
    using assms step_contract_conserves [OF _ apply_contract_witness_conserves]
    unfolding apply_credits_to_fin_plan_state_def apply_timestamp_def by fastforce
next
  case ApplySignature
  then show ?thesis
    using assms step_contract_conserves [OF _ apply_contract_witness_conserves]
    unfolding apply_credits_to_fin_plan_state_def apply_signature_def by fastforce
next
  case (NewVote v)
  then show ?thesis using assms by (simp add: apply_credits_to_fin_plan_state_def)
qed

lemma process_transaction_cases:
  assumes "FinPlanState_process_transaction fx tx accs = Some (accs', res)"
  obtains (undecodable) "accs' = accs" "res = Inl UserdataDeserializeFailure"
  | (debit_refused) inst e where "apply_debits_to_fin_plan_state tx accs inst = Some (accs', Inl e)"
      "res = Inl e"
  | (credited) inst mid where "dec (fx_instruction fx) (tx_userdata tx) = Some inst"
      "apply_debits_to_fin_plan_state tx accs inst = Some (mid, Inr ())"
      "apply_credits_to_fin_plan_state fx tx mid inst = Some (accs', res)"
proof (cases "dec (fx_instruction fx) (tx_userdata tx)")
  case None
  then show thesis using assms undecodable by (simp add: FinPlanState_process_transaction_def)
next
  case (Some inst)
  then obtain mid r where "apply_debits_to_fin_plan_state tx accs inst = Some (mid, r)"
    using assms by (auto simp: FinPlanState_process_transaction_def bind_eq_Some_conv)
  then show thesis
    using assms Some debit_refused credited unit_result_cases [of r]
    by (auto simp: FinPlanState_process_transaction_def)
qed

lemma process_transaction_total:
  assumes "FinPlanState_process_transaction fx tx accs = Some (accs', Inr ())"
  obtains inst where "dec (fx_instruction fx) (tx_userdata tx) = Some inst"
    "length accs' = length accs" "map program_id accs' = map program_id accs"
    "total_tokens accs' = total_tokens accs + contract_imbalance inst"
  using assms
proof (cases rule: process_transaction_cases)
  case (credited inst mid)
  then show thesis
    using apply_debits_total [OF credited(2)] apply_credits_total [OF credited(3)]
    by (intro that) simp_all
qed simp_all

text \<open>Whatever the outcome, the number of accounts stays.\<close>

lemma apply_debits_length:
  "apply_debits_to_fin_plan_state tx accs inst = Some (accs', res) \<Longrightarrow> length accs' = length accs"
  by (auto simp: apply_debits_to_fin_plan_state_def bind_eq_Some_conv modify_at_eq_Some get_at_eq_Some
      split: instruction.splits if_splits)

lemma apply_credits_length:
  assumes "apply_credits_to_fin_plan_state fx tx accs inst = Some (accs', res)"
  shows "length accs' = length accs"
proof -
  have steps: "step_contract fx tx accs (\<lambda>st. apply_contract_witness w st (tx_keys tx) accs) =
      Some (accs', res) \<Longrightarrow> length accs' = length accs" for w
    using step_contract_conserves [OF _ apply_contract_witness_conserves] by fastforce
  show ?thesis
  proof (cases inst)
    case (NewContract con)
    then show ?thesis
      using assms
      by (auto simp: apply_credits_to_fin_plan_state_def bind_eq_Some_conv modify_at_eq_Some get_at_eq_Some
          split: option.splits if_splits dest!: store_contract_state_frame)
  qed (use assms steps in
    \<open>auto simp: apply_credits_to_fin_plan_state_def apply_timestamp_def apply_signature_def\<close>)
qed

lemma process_transaction_length:
  assumes "FinPlanState_process_transaction fx tx accs = Some (accs', res)"
  shows "length accs' = length accs"
  using assms
  by (cases rule: process_transaction_cases) (auto dest!: apply_debits_length apply_credits_length)

section \<open>The life of a contract\<close>

text \<open>The plan an account's userdata holds, and the witness an instruction brings.\<close>

definition contract_plan :: "fin_plan_ext \<Rightarrow> account \<Rightarrow> fin_plan option" where
  "contract_plan fx a =
     (case FinPlanState_deserialize fx (userdata a) of
        Some (Some st) \<Rightarrow> if initialized st then pending_fin_plan st else None
      | _ \<Rightarrow> None)"

fun witness_of :: "instruction \<Rightarrow> witness option" where
  "witness_of (ApplyTimestamp dt) = Some (WitTimestamp dt)"
| "witness_of ApplySignature = Some WitSignature"
| "witness_of _ = None"

lemma contract_planE:
  assumes "contract_plan fx a = Some plan"
  shows "FinPlanState_deserialize fx (userdata a) =
    Some (Some \<lparr>initialized = True, pending_fin_plan = Some plan\<rparr>)"
  using assms by (auto simp: contract_plan_def split: option.splits if_splits)

lemma process_witness_transaction:
  assumes "dec (fx_instruction fx) (tx_userdata tx) = Some inst" and "witness_of inst = Some w"
    and "accs \<noteq> []" and "userdata (accs ! 0) = []"
  shows "FinPlanState_process_transaction fx tx accs =
    step_contract fx tx accs (\<lambda>st. apply_contract_witness w st (tx_keys tx) accs)"
  using assms
  by (cases inst)
    (auto simp: FinPlanState_process_transaction_def apply_debits_to_fin_plan_state_def
      apply_credits_to_fin_plan_state_def apply_signature_def apply_timestamp_def get_at_def)

lemma apply_contract_witness_eq:
  assumes "pending_fin_plan st = Some plan" and "3 \<le> length keys" and "3 \<le> length accs"
    and plan': "plan' = apply_witness plan w (keys ! 0)"
  shows "apply_contract_witness w st keys accs =
    (case final_payment plan' of
       None \<Rightarrow> Some (st\<lparr>pending_fin_plan := Some plan'\<rparr>, accs, Inr ())
     | Some p \<Rightarrow>
         if pay_to p = keys ! 2
         then Some (st\<lparr>pending_fin_plan := None\<rparr>,
           accs[1 := (accs ! 1)\<lparr>tokens := tokens (accs ! 1) - pay_tokens p\<rparr>,
                2 := (accs ! 2)\<lparr>tokens := tokens (accs ! 2) + pay_tokens p\<rparr>], Inr ())
         else Some (st\<lparr>pending_fin_plan := Some plan'\<rparr>, accs, Inl (DestinationMissing (pay_to p))))"
  using assms(1-3)
  by (auto simp: apply_contract_witness_def plan' get_at_def transfer_tokens_eq Let_def
      split: option.splits)

lemma step_contract_pending:
  assumes "1 < length accs"
    and "FinPlanState_deserialize fx (userdata (accs ! 1)) = Some (Some st)"
    and "initialized st" "is_pending st"
  shows "step_contract fx tx accs f = do {
    (st, accs, res) \<leftarrow> f st;
    (case res of Inl e \<Rightarrow> Some (accs, Inl e) | Inr _ \<Rightarrow> store_contract_state fx st accs) }"
  using assms by (simp add: step_contract_def get_at_def)

context fin_plan_codecs
begin

lemma store_contract_state_stores:
  assumes "1 < length accs" and "length (userdata (accs ! 1)) < 2 ^ 63"
    and "8 + length (enc (fx_state fx) st) \<le> length (userdata (accs ! 1))"
  obtains out where
    "store_contract_state fx st accs = Some (accs[1 := (accs ! 1)\<lparr>userdata := out\<rparr>], Inr ())"
    "FinPlanState_deserialize fx out = Some (Some st)"
proof -
  obtain out where "FinPlanState_serialize fx st (userdata (accs ! 1)) = Some (out, Inr ())"
    "FinPlanState_deserialize fx out = Some (Some st)"
    using FinPlanState_round_trip [OF assms(3,2)] by blast
  then show thesis
    using assms(1) by (intro that) (auto simp: store_contract_state_def get_at_def modify_at_def)
qed

lemma witness_step:
  assumes inst: "dec (fx_instruction fx) (tx_userdata tx) = Some inst" "witness_of inst = Some w"
    and lens: "3 \<le> length (tx_keys tx)" "3 \<le> length accs"
    and src: "userdata (accs ! 0) = []"
    and plan: "contract_plan fx (accs ! 1) = Some plan"
    and plan': "plan' = apply_witness plan w (tx_keys tx ! 0)"
    and room: "8 + length (enc (fx_state fx) \<lparr>initialized = True, pending_fin_plan =
        (if final_payment plan' = None then Some plan' else None)\<rparr>) \<le> length (userdata (accs ! 1))"
    and size: "length (userdata (accs ! 1)) < 2 ^ 63"
  shows "case final_payment plan' of
      None \<Rightarrow> \<exists>accs'. FinPlanState_process_transaction fx tx accs = Some (accs', Inr ()) \<and>
        contract_plan fx (accs' ! 1) = Some plan' \<and> map tokens accs' = map tokens accs \<and>
        accs' ! 0 = accs ! 0 \<and> length accs' = length accs
    | Some p \<Rightarrow>
        if pay_to p = tx_keys tx ! 2
        then \<exists>accs'. FinPlanState_process_transaction fx tx accs = Some (accs', Inr ()) \<and>
          FinPlanState_deserialize fx (userdata (accs' ! 1)) =
            Some (Some \<lparr>initialized = True, pending_fin_plan = None\<rparr>) \<and>
          map tokens accs' = (map tokens accs)
            [1 := tokens (accs ! 1) - pay_tokens p, 2 := tokens (accs ! 2) + pay_tokens p] \<and>
          accs' ! 0 = accs ! 0 \<and> length accs' = length accs
        else FinPlanState_process_transaction fx tx accs = Some (accs, Inl (DestinationMissing (pay_to p)))"
proof -
  let ?st = "\<lparr>initialized = True, pending_fin_plan = Some plan\<rparr>"
  note d = contract_planE [OF plan]
  have proc: "FinPlanState_process_transaction fx tx accs = do {
      (st, accs, res) \<leftarrow> apply_contract_witness w ?st (tx_keys tx) accs;
      (case res of Inl e \<Rightarrow> Some (accs, Inl e) | Inr _ \<Rightarrow> store_contract_state fx st accs) }"
    using lens
    by (subst process_witness_transaction [OF inst _ src])
      (auto simp: step_contract_pending [OF _ d] is_pending_def)
  note eff = apply_contract_witness_eq [of ?st plan "tx_keys tx" accs plan' w]
  show ?thesis
  proof (cases "final_payment plan'")
    case None
    obtain out where "store_contract_state fx \<lparr>initialized = True, pending_fin_plan = Some plan'\<rparr> accs =
        Some (accs[1 := (accs ! 1)\<lparr>userdata := out\<rparr>], Inr ())"
      "FinPlanState_deserialize fx out = Some (Some \<lparr>initialized = True, pending_fin_plan = Some plan'\<rparr>)"
      using store_contract_state_stores [OF _ size] room None lens by force
    then show ?thesis
      using None lens eff plan' proc
      by (auto simp: contract_plan_def map_update list_update_same_conv)
  next
    case (Some p)
    let ?paid = "accs[1 := (accs ! 1)\<lparr>tokens := tokens (accs ! 1) - pay_tokens p\<rparr>,
                      2 := (accs ! 2)\<lparr>tokens := tokens (accs ! 2) + pay_tokens p\<rparr>]"
    obtain out where "store_contract_state fx \<lparr>initialized = True, pending_fin_plan = None\<rparr> ?paid =
        Some (?paid[1 := (?paid ! 1)\<lparr>userdata := out\<rparr>], Inr ())"
      "FinPlanState_deserialize fx out = Some (Some \<lparr>initialized = True, pending_fin_plan = None\<rparr>)"
      using store_contract_state_stores [of ?paid] size room Some lens by force
    then show ?thesis
      using Some lens eff plan' proc
      by (auto simp: map_update nth_list_update list_update_swap)
  qed
qed

end

lemma closed_contract_refuses:
  assumes "dec (fx_instruction fx) (tx_userdata tx) = Some inst" and "witness_of inst \<noteq> None"
    and "2 \<le> length (tx_keys tx)" and "2 \<le> length accs" and "userdata (accs ! 0) = []"
    and "FinPlanState_deserialize fx (userdata (accs ! 1)) = Some (Some st)" "\<not> is_pending st"
  shows "FinPlanState_process_transaction fx tx accs =
    Some (accs, Inl (ContractNotPending (tx_keys tx ! 1)))"
proof -
  obtain w where "witness_of inst = Some w" using assms(2) by blast
  then show ?thesis
    using assms
    by (subst process_witness_transaction [OF assms(1) _ _ assms(5)])
      (auto simp: step_contract_def get_at_def)
qed

section \<open>What the program promises\<close>

text \<open>C18: a witness transaction moves the stored contract exactly as \<open>FinPlan::apply_witness\<close> moves its
  plan.  While the plan still waits, only the plan changes.  When it is reduced to a payment and the
  third key is the payee, the payment goes from the contract to the payee and the contract closes;
  with another third key nothing changes and the error names the payee.\<close>

theorem witness_transaction_refines_plan:
  assumes "fin_plan_codecs fx"
    and "dec (fx_instruction fx) (tx_userdata tx) = Some inst" and "witness_of inst = Some w"
    and "3 \<le> length (tx_keys tx)" and "3 \<le> length accs" and "userdata (accs ! 0) = []"
    and "contract_plan fx (accs ! 1) = Some plan"
    and "plan' = apply_witness plan w (tx_keys tx ! 0)"
    and "8 + length (enc (fx_state fx) \<lparr>initialized = True, pending_fin_plan =
        (if final_payment plan' = None then Some plan' else None)\<rparr>) \<le> length (userdata (accs ! 1))"
    and "length (userdata (accs ! 1)) < 2 ^ 63"
  shows "case final_payment plan' of
      None \<Rightarrow> \<exists>accs'. FinPlanState_process_transaction fx tx accs = Some (accs', Inr ()) \<and>
        contract_plan fx (accs' ! 1) = Some plan' \<and> map tokens accs' = map tokens accs \<and>
        accs' ! 0 = accs ! 0 \<and> length accs' = length accs
    | Some p \<Rightarrow>
        if pay_to p = tx_keys tx ! 2
        then \<exists>accs'. FinPlanState_process_transaction fx tx accs = Some (accs', Inr ()) \<and>
          FinPlanState_deserialize fx (userdata (accs' ! 1)) =
            Some (Some \<lparr>initialized = True, pending_fin_plan = None\<rparr>) \<and>
          map tokens accs' = (map tokens accs)
            [1 := tokens (accs ! 1) - pay_tokens p, 2 := tokens (accs ! 2) + pay_tokens p] \<and>
          accs' ! 0 = accs ! 0 \<and> length accs' = length accs
        else FinPlanState_process_transaction fx tx accs = Some (accs, Inl (DestinationMissing (pay_to p)))"
  by (rule fin_plan_codecs.witness_step [OF assms])

text \<open>A contract in its initial userdata, for the concrete runs.\<close>

definition sample_contract :: "fin_plan \<Rightarrow> account" where
  "sample_contract plan = \<lparr>tokens = 42,
     userdata = fst (the (FinPlanState_serialize bincode_fin_plan_ext
       \<lparr>initialized = True, pending_fin_plan = Some plan\<rparr> (replicate 256 0))),
     program_id = Pubkey 1\<rparr>"

definition sample_witness_tx :: transaction where
  "sample_witness_tx = \<lparr>tx_signature = Signature 0, tx_keys = [Pubkey 11, Pubkey 12, Pubkey 13],
     tx_program_id = Pubkey 1, tx_last_id = Hash 0, tx_fee = 0,
     tx_userdata = put instruction_wire ApplySignature\<rparr>"

abbreviation sample_plan :: fin_plan where
  "sample_plan \<equiv> new_authorized_payment (Pubkey 11) 42 (Pubkey 13)"

abbreviation sample_accounts :: "account list" where
  "sample_accounts \<equiv> [plain_account 5 (Pubkey 1), sample_contract sample_plan, plain_account 0 (Pubkey 1)]"

lemmas wire_sizes = state_wire_def iso_wire_def pair_wire_def bool_wire_def option_wire_def
  fin_plan_wire_def branch_wire_def condition_wire_def payment_wire_def pubkey_wire_def

lemma sample_contract_plan:
  "contract_plan bincode_fin_plan_ext (sample_contract sample_plan) = Some sample_plan"
  "length (userdata (sample_contract sample_plan)) = 256"
proof -
  let ?st = "\<lparr>initialized = True, pending_fin_plan = Some sample_plan\<rparr>"
  have "8 + length (enc (fx_state bincode_fin_plan_ext) ?st) \<le> length (replicate 256 (0 :: u8))"
    by (simp add: bincode_fin_plan_ext_def new_authorized_payment_def wire_sizes)
  from bincode_plan.FinPlanState_round_trip [OF this] obtain out where
    "FinPlanState_serialize bincode_fin_plan_ext ?st (replicate 256 0) = Some (out, Inr ())"
    "FinPlanState_deserialize bincode_fin_plan_ext out = Some (Some ?st)" "length out = 256"
    by auto
  then show "contract_plan bincode_fin_plan_ext (sample_contract sample_plan) = Some sample_plan"
    "length (userdata (sample_contract sample_plan)) = 256"
    by (simp_all add: contract_plan_def sample_contract_def)
qed

lemma sample_witness_instruction:
  "dec (fx_instruction bincode_fin_plan_ext) (tx_userdata sample_witness_tx) = Some ApplySignature"
  using instructionw.get_put [of ApplySignature "[]"]
  by (simp add: bincode_fin_plan_ext_def sample_witness_tx_def instruction_wire_def)

lemma closed_state_width:
  "length (enc (fx_state bincode_fin_plan_ext) \<lparr>initialized = True, pending_fin_plan = None\<rparr>) = 2"
  by (simp add: bincode_fin_plan_ext_def wire_sizes)

lemma sample_tokens [simp]: "tokens (sample_contract plan) = 42"
  by (simp add: sample_contract_def)

lemma sample_plan_step:
  "apply_witness sample_plan WitSignature (Pubkey 11) = Pay \<lparr>pay_tokens = 42, pay_to = Pubkey 13\<rparr>"
  by (simp add: new_authorized_payment_def)

theorem witness_refines_plan_witness:
  "\<exists>accs'. FinPlanState_process_transaction bincode_fin_plan_ext sample_witness_tx sample_accounts =
       Some (accs', Inr ()) \<and>
     FinPlanState_deserialize bincode_fin_plan_ext (userdata (accs' ! 1)) =
       Some (Some \<lparr>initialized = True, pending_fin_plan = None\<rparr>) \<and>
     map tokens accs' = [5, 0, 42] \<and> accs' ! 0 = sample_accounts ! 0 \<and> length accs' = 3"
  using witness_transaction_refines_plan [OF bincode_fin_plan_codecs sample_witness_instruction,
      of WitSignature sample_accounts sample_plan "Pay \<lparr>pay_tokens = 42, pay_to = Pubkey 13\<rparr>"]
  by (simp add: sample_contract_plan sample_plan_step closed_state_width
      sample_witness_tx_def numeral_3_eq_3)

text \<open>C19: a contract pays at most once.  After the transaction that pays, every further witness
  transaction on the same accounts is refused and changes nothing.\<close>

theorem contract_pays_at_most_once:
  assumes "fin_plan_codecs fx"
    and "dec (fx_instruction fx) (tx_userdata tx) = Some inst" and "witness_of inst = Some w"
    and "3 \<le> length (tx_keys tx)" and "3 \<le> length accs" and "userdata (accs ! 0) = []"
    and "contract_plan fx (accs ! 1) = Some plan"
    and paid: "final_payment (apply_witness plan w (tx_keys tx ! 0)) = Some p"
    and payee: "pay_to p = tx_keys tx ! 2"
    and "8 + length (enc (fx_state fx) \<lparr>initialized = True, pending_fin_plan = None\<rparr>)
           \<le> length (userdata (accs ! 1))"
    and "length (userdata (accs ! 1)) < 2 ^ 63"
    and inst2: "dec (fx_instruction fx) (tx_userdata tx2) = Some inst2" "witness_of inst2 \<noteq> None"
      "2 \<le> length (tx_keys tx2)"
  shows "\<exists>accs1. FinPlanState_process_transaction fx tx accs = Some (accs1, Inr ()) \<and>
    tokens (accs1 ! 2) = tokens (accs ! 2) + pay_tokens p \<and>
    FinPlanState_process_transaction fx tx2 accs1 =
      Some (accs1, Inl (ContractNotPending (tx_keys tx2 ! 1)))"
proof -
  obtain accs1 where 1: "FinPlanState_process_transaction fx tx accs = Some (accs1, Inr ())"
    "FinPlanState_deserialize fx (userdata (accs1 ! 1)) =
       Some (Some \<lparr>initialized = True, pending_fin_plan = None\<rparr>)"
    "map tokens accs1 = (map tokens accs)
       [1 := tokens (accs ! 1) - pay_tokens p, 2 := tokens (accs ! 2) + pay_tokens p]"
    "accs1 ! 0 = accs ! 0" "length accs1 = length accs"
    using fin_plan_codecs.witness_step [OF assms(1-7) refl _ assms(11)] assms(10) paid payee by auto
  have "tokens (accs1 ! 2) = map tokens accs1 ! 2" using 1(5) assms(5) by simp
  then have "tokens (accs1 ! 2) = tokens (accs ! 2) + pay_tokens p"
    using 1(3) assms(5) by (simp del: nth_map)
  moreover have "FinPlanState_process_transaction fx tx2 accs1 =
      Some (accs1, Inl (ContractNotPending (tx_keys tx2 ! 1)))"
    by (rule closed_contract_refuses [OF inst2 _ _ 1(2)])
      (use 1 assms in \<open>simp_all add: is_pending_def\<close>)
  ultimately show ?thesis using 1(1) by blast
qed

theorem contract_pays_witness:
  "\<exists>accs1. FinPlanState_process_transaction bincode_fin_plan_ext sample_witness_tx sample_accounts =
       Some (accs1, Inr ()) \<and> tokens (accs1 ! 2) = 42 \<and>
     FinPlanState_process_transaction bincode_fin_plan_ext sample_witness_tx accs1 =
       Some (accs1, Inl (ContractNotPending (Pubkey 12)))"
  using contract_pays_at_most_once [OF bincode_fin_plan_codecs sample_witness_instruction,
      of WitSignature sample_accounts sample_plan "\<lparr>pay_tokens = 42, pay_to = Pubkey 13\<rparr>",
      OF _ _ _ _ _ _ _ _ _ sample_witness_instruction]
  by (simp add: sample_contract_plan sample_plan_step closed_state_width
      sample_witness_tx_def)


definition sample_contract_tx :: transaction where
  "sample_contract_tx = \<lparr>tx_signature = Signature 0, tx_keys = [Pubkey 11, Pubkey 12],
     tx_program_id = Pubkey 1, tx_last_id = Hash 0, tx_fee = 0,
     tx_userdata = put instruction_wire (NewContract \<lparr>con_tokens = 3,
       con_fin_plan = new_payment 3 (Pubkey 12)\<rparr>)\<rparr>"

lemma sample_contract_instruction:
  "dec (fx_instruction bincode_fin_plan_ext) (tx_userdata sample_contract_tx) =
     Some (NewContract \<lparr>con_tokens = 3, con_fin_plan = new_payment 3 (Pubkey 12)\<rparr>)"
  using instructionw.get_put [of "NewContract \<lparr>con_tokens = 3,
       con_fin_plan = new_payment 3 (Pubkey 12)\<rparr>" "[]"]
  by (simp add: bincode_fin_plan_ext_def sample_contract_tx_def)
    (simp add: instruction_wire_def contract_wire_def new_payment_def wire_sizes)

lemma sample_contract_run:
  "FinPlanState_process_transaction bincode_fin_plan_ext sample_contract_tx
     [plain_account 5 (Pubkey 1), plain_account 1 (Pubkey 1)] =
   Some ([plain_account 2 (Pubkey 1), plain_account 4 (Pubkey 1)], Inr ())"
  by (simp add: FinPlanState_process_transaction_def sample_contract_instruction
      apply_debits_to_fin_plan_state_def apply_credits_to_fin_plan_state_def new_payment_def
      get_at_def modify_at_def)


text \<open>A witness transaction that names only two accounts, the sender and the contract, panics when
  it reduces the plan to a payment: the guard \<open>keys.len() < 2\<close> lets \<open>keys[2]\<close> run out of range.\<close>

theorem two_key_witness_panics:
  assumes "dec (fx_instruction fx) (tx_userdata tx) = Some inst" and "witness_of inst = Some w"
    and "length (tx_keys tx) = 2" and "2 \<le> length accs" and "userdata (accs ! 0) = []"
    and "contract_plan fx (accs ! 1) = Some plan"
    and "final_payment (apply_witness plan w (tx_keys tx ! 0)) = Some p"
  shows "FinPlanState_process_transaction fx tx accs = None"
proof -
  have "FinPlanState_process_transaction fx tx accs =
      step_contract fx tx accs (\<lambda>st. apply_contract_witness w st (tx_keys tx) accs)"
    using assms by (intro process_witness_transaction) auto
  also have "\<dots> = None"
    using assms contract_planE [OF assms(6)]
    by (subst step_contract_pending) (auto simp: is_pending_def apply_contract_witness_def get_at_def)
  finally show ?thesis .
qed

theorem two_key_witness_panics_witness:
  "FinPlanState_process_transaction bincode_fin_plan_ext
     (sample_witness_tx\<lparr>tx_keys := [Pubkey 11, Pubkey 12]\<rparr>)
     [plain_account 5 (Pubkey 1), sample_contract sample_plan] = None"
  by (rule two_key_witness_panics [where w = WitSignature and inst = ApplySignature
        and plan = sample_plan and p = "\<lparr>pay_tokens = 42, pay_to = Pubkey 13\<rparr>"])
    (use sample_witness_instruction in
      \<open>simp_all add: sample_contract_plan sample_plan_step\<close>)

text \<open>Storing a state in a userdata buffer succeeds when the eight length bytes fit as well,
  reports \<open>UserdataTooSmall\<close> when the state alone does not fit, and panics in between, because
  the size check forgets the length bytes.\<close>

theorem serialize_three_ways:
  assumes "fin_plan_codecs fx"
  shows "FinPlanState_serialize fx st output =
    (let len = length (enc (fx_state fx) st) in
     if length output < len then Some (output, Inl UserdataTooSmall)
     else if length output < 8 + len then None
     else Some (enc (fx_u64 fx) (of_nat len) @ enc (fx_state fx) st @ drop (8 + len) output, Inr ()))"
  using fin_plan_codecs.FinPlanState_serialize_fits [OF assms, of st "output"]
    fixed_codec.enc_width [OF fin_plan_codecs.u64_codec [OF assms]]
  by (auto simp: Let_def FinPlanState_serialize_def write_slice_def overwrite_def bind_eq_None_conv
      not_less)

theorem serialize_three_ways_witness:
  "FinPlanState_serialize bincode_fin_plan_ext \<lparr>initialized = True, pending_fin_plan = None\<rparr> [0, 0, 0] = None"
  using serialize_three_ways [OF bincode_fin_plan_codecs,
      of "\<lparr>initialized = True, pending_fin_plan = None\<rparr>" "[0, 0, 0]"]
  by (simp add: closed_state_width Let_def)

end
