(* ===== verification/Programs.thy ===== *)
theory Programs
  imports Fin_Plan_Program
begin

text \<open>
  The other programs that run over a transaction's accounts: the system program
  (src/builtin_pgm.rs), the storage program (src/storage_program.rs), dynamically loaded programs
  (src/dynamic_program.rs), and the token-transfer example that is built to be loaded
  (programs/token_transfer/src/lib.rs, with the no-op programs beside it).

  Finding and opening a shared library is the operating system's work: a \<open>loader\<close> maps a program
  name to a library, if there is one, and a library to its \<open>process\<close> symbol, if it has one.
  A library receives the keys and accounts by reference, so it can change the accounts but not
  their number.
\<close>

section \<open>Loaded programs\<close>

type_synonym native_entry = "(pubkey \<times> account) list \<Rightarrow> bytes \<Rightarrow> account list panics"

record 'lib loader =
  open_library :: "string \<Rightarrow> 'lib option"
  get_process :: "'lib \<Rightarrow> native_entry option"

datatype 'lib dynamic_program = Native string 'lib | Bpf bytes

definition DynamicProgram_new :: "'lib loader \<Rightarrow> string \<Rightarrow> 'lib dynamic_program panics" where
  "DynamicProgram_new ld name = do {
     library \<leftarrow> open_library ld name;
     Some (Native name library) }"

text \<open>The accounts after a call: what was handed over is updated in place, the rest is untouched.\<close>

definition write_back :: "account list \<Rightarrow> account list \<Rightarrow> account list" where
  "write_back accs accs' = take (length accs) accs' @ drop (length accs') accs"

primrec DynamicProgram_call ::
    "'lib loader \<Rightarrow> 'lib dynamic_program \<Rightarrow> (pubkey \<times> account) list \<Rightarrow> bytes \<Rightarrow> account list panics" where
  "DynamicProgram_call ld (Native name library) infos data = do {
     entrypoint \<leftarrow> get_process ld library;
     accs' \<leftarrow> entrypoint infos data;
     Some (write_back (map snd infos) accs') }"
| "DynamicProgram_call ld (Bpf udata) infos data = Some (map snd infos)"

text \<open>The example programs, as entry points.\<close>

definition token_transfer_process :: "i64 codec \<Rightarrow> native_entry" where
  "token_transfer_process c infos data = do {
     t \<leftarrow> dec c data;
     a0 \<leftarrow> get_at (map snd infos) 0;
     if sint t \<le> sint (tokens a0) then transfer_tokens 0 1 t (map snd infos)
     else Some (map snd infos) }"

definition noop_process :: native_entry where
  "noop_process infos data = Some (map snd infos)"

definition print_process :: native_entry where
  "print_process infos data = Some (map snd infos)"

section \<open>The system program\<close>

type_synonym 'lib loaded = "pubkey \<rightharpoonup> 'lib dynamic_program"

definition SystemProgram_get_balance :: "account \<Rightarrow> i64" where
  "SystemProgram_get_balance a = tokens a"

text \<open>Every early \<open>return\<close> leaves the accounts and the loaded programs as they are.\<close>

definition SystemProgram_process_transaction ::
    "system_program codec \<Rightarrow> 'lib loader \<Rightarrow> transaction \<Rightarrow> account list \<Rightarrow> 'lib loaded \<Rightarrow>
       (account list \<times> 'lib loaded) panics" where
  "SystemProgram_process_transaction c ld tx accs loaded =
     (case dec c (tx_userdata tx) of
        None \<Rightarrow> Some (accs, loaded)
      | Some (CreateAccount t space pid) \<Rightarrow> do {
          a0 \<leftarrow> get_at accs 0;
          if \<not> SystemProgram_check_id (program_id a0) then Some (accs, loaded)
          else do {
            taken \<leftarrow> (if 0 < space
              then do { a1 \<leftarrow> get_at accs 1;
                        Some (userdata a1 \<noteq> [] \<or> \<not> SystemProgram_check_id (program_id a1)) }
              else Some False);
            if taken then Some (accs, loaded)
            else do {
              accs \<leftarrow> transfer_tokens 0 1 t accs;
              accs \<leftarrow> modify_at 1 (\<lambda>a. a\<lparr>program_id := pid\<rparr>) accs;
              udata \<leftarrow> zeroed_vec space;
              accs \<leftarrow> modify_at 1 (\<lambda>a. a\<lparr>userdata := udata\<rparr>) accs;
              Some (accs, loaded) } } }
      | Some (Assign pid) \<Rightarrow> do {
          a0 \<leftarrow> get_at accs 0;
          if \<not> SystemProgram_check_id (program_id a0) then Some (accs, loaded)
          else do {
            accs \<leftarrow> modify_at 0 (\<lambda>a. a\<lparr>program_id := pid\<rparr>) accs;
            Some (accs, loaded) } }
      | Some (Move t) \<Rightarrow> do {
          accs \<leftarrow> transfer_tokens 0 1 t accs;
          Some (accs, loaded) }
      | Some (Load pid name) \<Rightarrow> do {
          program \<leftarrow> DynamicProgram_new ld name;
          Some (accs, loaded(pid \<mapsto> program)) })"

section \<open>The storage program\<close>

datatype storage_program = SubmitMiningProof bytes

datatype storage_error = InvalidUserData

definition STORAGE_PROGRAM_ID :: bytes where
  "STORAGE_PROGRAM_ID = replicate 32 1"

definition StorageProgram_check_id :: "pubkey \<Rightarrow> bool" where
  "StorageProgram_check_id p \<longleftrightarrow> pubkey_as_ref p = STORAGE_PROGRAM_ID"

definition StorageProgram_id :: pubkey where
  "StorageProgram_id = the (Pubkey_new STORAGE_PROGRAM_ID)"

definition StorageProgram_get_balance :: "account \<Rightarrow> i64" where
  "StorageProgram_get_balance a = tokens a"

definition StorageProgram_process_transaction ::
    "storage_program codec \<Rightarrow> transaction \<Rightarrow> account list \<Rightarrow> account list \<times> (storage_error + unit)" where
  "StorageProgram_process_transaction c tx accs =
     (case dec c (tx_userdata tx) of
        Some (SubmitMiningProof sha_state) \<Rightarrow> (accs, Inr ())
      | None \<Rightarrow> (accs, Inl InvalidUserData))"

section \<open>The contract of a program\<close>

text \<open>
  The processor takes the accounts back in the order it handed them out and compares them one by one
  with what they were, so it relies on a program returning as many accounts as it was given.
\<close>

locale account_program =
  fixes run :: "transaction \<Rightarrow> account list \<Rightarrow> (account list \<times> 'r) panics"
  assumes run_length: "run tx accs = Some (accs', r) \<Longrightarrow> length accs' = length accs"
begin

lemma run_zip:
  "run tx accs = Some (accs', r) \<Longrightarrow> map fst (zip accs accs') = accs \<and> map snd (zip accs accs') = accs'"
  using run_length by simp

end

lemma write_back_length [simp]: "length (write_back accs accs') = length accs"
  by (simp add: write_back_def)

lemma DynamicProgram_call_length:
  "DynamicProgram_call ld p infos data = Some accs' \<Longrightarrow> length accs' = length infos"
  by (cases p) (auto simp: bind_eq_Some_conv)

lemma SystemProgram_cases:
  assumes "SystemProgram_process_transaction c ld tx accs loaded = Some (accs', loaded')"
  obtains (same) "accs' = accs"
  | (create) t space pid mid udata where "dec c (tx_userdata tx) = Some (CreateAccount t space pid)"
      "SystemProgram_check_id (program_id (accs ! 0))" "transfer_tokens 0 1 t accs = Some mid"
      "zeroed_vec space = Some udata"
      "1 < length mid" "accs' = mid[1 := (mid ! 1)\<lparr>program_id := pid, userdata := udata\<rparr>]"
      "loaded' = loaded"
  | (assign) pid where "dec c (tx_userdata tx) = Some (Assign pid)" "accs \<noteq> []"
      "SystemProgram_check_id (program_id (accs ! 0))"
      "accs' = accs[0 := (accs ! 0)\<lparr>program_id := pid\<rparr>]" "loaded' = loaded"
  | (move) t where "dec c (tx_userdata tx) = Some (Move t)" "transfer_tokens 0 1 t accs = Some accs'"
      "loaded' = loaded"
proof (cases "dec c (tx_userdata tx)")
  case None
  then show thesis using assms same by (simp add: SystemProgram_process_transaction_def)
next
  case (Some inst)
  show thesis
  proof (cases inst)
    case (CreateAccount t space pid)
    show thesis
    proof (cases "accs' = accs")
      case False
      then show thesis
        using assms Some CreateAccount
        by (auto simp: SystemProgram_process_transaction_def bind_eq_Some_conv get_at_eq_Some
            modify_at_eq_Some split: if_splits intro: create)
    qed (rule same)
  next
    case (Assign pid)
    then show thesis
      using assms Some
      by (auto simp: SystemProgram_process_transaction_def bind_eq_Some_conv get_at_eq_Some
          modify_at_eq_Some split: if_splits intro: same assign)
  next
    case (Move t)
    then show thesis
      using assms Some
      by (auto simp: SystemProgram_process_transaction_def bind_eq_Some_conv intro: move)
  next
    case (Load pid name)
    then show thesis
      using assms Some
      by (auto simp: SystemProgram_process_transaction_def bind_eq_Some_conv intro: same)
  qed
qed

lemma SystemProgram_length:
  assumes "SystemProgram_process_transaction c ld tx accs loaded = Some (accs', loaded')"
  shows "length accs' = length accs"
  using assms by (cases rule: SystemProgram_cases) (auto dest: transfer_tokens_frame)

lemma SystemProgram_conserves:
  assumes "SystemProgram_process_transaction c ld tx accs loaded = Some (accs', loaded')"
  shows "total_tokens accs' = total_tokens accs"
  using assms
  by (cases rule: SystemProgram_cases)
    (auto dest: transfer_tokens_conserves simp: map_update list_update_same_conv
      sum_list_update_group)

interpretation fin_plan_run: account_program "FinPlanState_process_transaction fx" for fx
  by unfold_locales (rule process_transaction_length)

interpretation system_run:
  account_program "\<lambda>tx accs. SystemProgram_process_transaction c ld tx accs loaded" for c ld loaded
  by unfold_locales (rule SystemProgram_length)

interpretation storage_run:
  account_program "\<lambda>tx accs. Some (StorageProgram_process_transaction c tx accs)" for c
  by unfold_locales (auto simp: StorageProgram_process_transaction_def split: option.splits storage_program.splits)

section \<open>What the programs promise\<close>

text \<open>Creating an account does nothing when the source is not a system account or when space is asked
  for in an account that is in use; otherwise it moves the tokens, hands the account to its program
  and zeroes its userdata.  It panics exactly when the space exceeds what a vector can hold.\<close>

theorem create_account_every_branch:
  assumes "dec c (tx_userdata tx) = Some (CreateAccount t space pid)"
  shows "SystemProgram_process_transaction c ld tx (a0 # a1 # rest) loaded =
    (if program_id a0 \<noteq> SystemProgram_id \<or>
        space \<noteq> 0 \<and> (userdata a1 \<noteq> [] \<or> program_id a1 \<noteq> SystemProgram_id)
     then Some (a0 # a1 # rest, loaded)
     else if 2 ^ 63 \<le> unat space then None
     else Some (a0\<lparr>tokens := tokens a0 - t\<rparr> #
       \<lparr>tokens = tokens a1 + t, userdata = replicate (unat space) 0, program_id = pid\<rparr> # rest, loaded))"
  using assms
  by (auto simp: SystemProgram_process_transaction_def SystemProgram_check_id_iff get_at_def
      transfer_tokens_def modify_at_def zeroed_vec_def word_neq_0_conv)

lemma system_program_decodes:
  assumes "length (put system_program_wire inst) < 2 ^ 63"
  shows "dec (codec_of system_program_wire) (put system_program_wire inst) = Some inst"
  using systemw.get_put [OF assms, of "[]"] by simp

definition sample_system_tx :: "system_program \<Rightarrow> transaction" where
  "sample_system_tx inst = \<lparr>tx_signature = Signature 1, tx_keys = [Pubkey 21, Pubkey 22],
     tx_program_id = SystemProgram_id, tx_last_id = Hash 0, tx_fee = 0,
     tx_userdata = put system_program_wire inst\<rparr>"

abbreviation no_loader :: "unit loader" where
  "no_loader \<equiv> \<lparr>open_library = (\<lambda>_. None), get_process = (\<lambda>_. None)\<rparr>"

lemma two_zeros: "replicate 2 x = [x, x]"
  by (simp add: numeral_2_eq_2)

lemma sample_create_decodes:
  "dec (codec_of system_program_wire) (tx_userdata (sample_system_tx (CreateAccount 3 2 (Pubkey 1)))) =
     Some (CreateAccount 3 2 (Pubkey 1))"
  unfolding sample_system_tx_def transaction.simps
  by (rule system_program_decodes)
    (simp add: system_program_wire_def pair_wire_def pubkey_wire_def iso_wire_def)

theorem create_account_witness:
  "SystemProgram_process_transaction (codec_of system_program_wire) no_loader
      (sample_system_tx (CreateAccount 3 2 (Pubkey 1)))
      [plain_account 10 (Pubkey 0), plain_account 1 (Pubkey 0)] Map.empty =
    Some ([plain_account 7 (Pubkey 0), \<lparr>tokens = 4, userdata = [0, 0], program_id = Pubkey 1\<rparr>], Map.empty)"
  using create_account_every_branch [OF sample_create_decodes, of no_loader "plain_account 10 (Pubkey 0)"
      "plain_account 1 (Pubkey 0)" "[]" Map.empty]
  by (simp add: two_zeros)

text \<open>Whatever its instruction, the system program conserves the accounts' tokens; it changes an owner
  only when the first account is a system account.\<close>

theorem system_program_conserves:
  assumes "SystemProgram_process_transaction c ld tx accs loaded = Some (accs', loaded')"
  shows "total_tokens accs' = total_tokens accs \<and> length accs' = length accs \<and>
    (map program_id accs' \<noteq> map program_id accs \<longrightarrow> SystemProgram_check_id (program_id (accs ! 0)))"
  using assms
proof (cases rule: SystemProgram_cases)
  case (move t)
  then show ?thesis
    using SystemProgram_conserves [OF assms] SystemProgram_length [OF assms]
    by (auto dest: transfer_tokens_frame)
qed (use SystemProgram_conserves [OF assms] SystemProgram_length [OF assms] in simp_all)

theorem system_program_conserves_witness:
  "total_tokens [plain_account 7 (Pubkey 0), \<lparr>tokens = 4, userdata = [0, 0], program_id = Pubkey 1\<rparr>] =
   total_tokens [plain_account 10 (Pubkey 0), plain_account 1 (Pubkey 0)]"
proof -
  have "SystemProgram_process_transaction (codec_of system_program_wire)
      no_loader (sample_system_tx (CreateAccount 3 2 (Pubkey 1)))
      [plain_account 10 (Pubkey 0), plain_account 1 (Pubkey 0)] Map.empty =
    Some ([plain_account 7 (Pubkey 0), \<lparr>tokens = 4, userdata = [0, 0], program_id = Pubkey 1\<rparr>], Map.empty)"
    by (simp only: SystemProgram_process_transaction_def sample_create_decodes)
      (simp add: SystemProgram_check_id_iff get_at_def transfer_tokens_def modify_at_def zeroed_vec_def
        two_zeros)
  from system_program_conserves [OF this] show ?thesis by simp
qed

end
