(* ===== verification/Packets.thy ===== *)
theory Packets
  imports Bincode_Format
begin

text \<open>
  Packets and blobs (src/packet.rs): the metadata kept beside a datagram, the header of a blob
  (index, sender, flags, size, in that order, padded to 64 bytes), and the functions that serialize
  values into packets and blobs.

  The arrays \<open>[u8; N]\<close> are byte lists; \<open>blob_wf\<close> says that a blob's list has the array's length,
  and every operation below keeps it.  The pubkey encoding in the header is bincode's and is a
  parameter \<open>pk\<close>.  Sending and receiving datagrams is left out.
\<close>

section \<open>Data\<close>

datatype socket_addr =
    SockV4 u8 u8 u8 u8 u16
  | SockV6 "u16 list" u16 u32 u32

fun sock_port :: "socket_addr \<Rightarrow> u16" where
  "sock_port (SockV4 _ _ _ _ p) = p"
| "sock_port (SockV6 _ p _ _) = p"

record meta =
  meta_size :: u64
  num_retransmits :: u64
  meta_addr :: "u16 list"
  meta_port :: u16
  v6 :: bool

definition Meta_default :: meta where
  "Meta_default = \<lparr>meta_size = 0, num_retransmits = 0, meta_addr = replicate 8 0, meta_port = 0, v6 = False\<rparr>"

record packet =
  packet_data :: bytes
  packet_meta :: meta

record blob =
  blob_data :: bytes
  blob_meta :: meta

datatype blob_error = BadState

definition NUM_PACKETS :: nat where "NUM_PACKETS = 1024 * 8"
definition BLOB_SIZE :: nat where "BLOB_SIZE = 64 * 1024 - 128"
definition PACKET_DATA_SIZE :: nat where "PACKET_DATA_SIZE = 512"

definition BLOB_INDEX_END :: nat where "BLOB_INDEX_END = 8"
definition BLOB_ID_END :: nat where "BLOB_ID_END = BLOB_INDEX_END + 32"
definition BLOB_FLAGS_END :: nat where "BLOB_FLAGS_END = BLOB_ID_END + 4"
definition BLOB_SIZE_END :: nat where "BLOB_SIZE_END = BLOB_FLAGS_END + 8"
definition BLOB_FLAG_IS_CODING :: u32 where "BLOB_FLAG_IS_CODING = 1"

text \<open>The macro \<open>align!(x, a)\<close> parses as \<open>(x + (a - 1)) & !(a - 1)\<close>.\<close>

definition align :: "u64 \<Rightarrow> u64 \<Rightarrow> u64" where
  "align x a = (x + (a - 1)) AND NOT (a - 1)"

definition BLOB_HEADER_SIZE :: nat where
  "BLOB_HEADER_SIZE = unat (align (of_nat BLOB_SIZE_END) 64)"

definition BLOB_DATA_SIZE :: nat where "BLOB_DATA_SIZE = BLOB_SIZE - BLOB_HEADER_SIZE * 2"

definition NUM_BLOBS :: nat where "NUM_BLOBS = (NUM_PACKETS * PACKET_DATA_SIZE) div BLOB_SIZE"

definition Packet_default :: packet where
  "Packet_default = \<lparr>packet_data = replicate PACKET_DATA_SIZE 0, packet_meta = Meta_default\<rparr>"

definition Blob_default :: blob where
  "Blob_default = \<lparr>blob_data = replicate BLOB_SIZE 0, blob_meta = Meta_default\<rparr>"

section \<open>Metadata\<close>

definition Meta_addr :: "meta \<Rightarrow> socket_addr" where
  "Meta_addr m =
     (if \<not> v6 m
      then SockV4 (ucast (meta_addr m ! 0)) (ucast (meta_addr m ! 1))
                  (ucast (meta_addr m ! 2)) (ucast (meta_addr m ! 3)) (meta_port m)
      else SockV6 (meta_addr m) (meta_port m) 0 0)"

fun Meta_set_addr :: "socket_addr \<Rightarrow> meta \<Rightarrow> meta" where
  "Meta_set_addr (SockV4 a b c d p) m =
     m\<lparr>meta_addr := [ucast a, ucast b, ucast c, ucast d, 0, 0, 0, 0], v6 := False, meta_port := p\<rparr>"
| "Meta_set_addr (SockV6 segs p fl sc) m = m\<lparr>meta_addr := segs, v6 := True, meta_port := p\<rparr>"

section \<open>The blob header\<close>

definition get_index :: "blob \<Rightarrow> u64 panics" where
  "get_index b = map_option le_word (subslice 0 BLOB_INDEX_END (blob_data b))"

text \<open>\<open>data[a..b].clone_from_slice(wtr)\<close> panics unless \<open>wtr\<close> has the slice's length.\<close>

definition set_range :: "nat \<Rightarrow> nat \<Rightarrow> bytes \<Rightarrow> blob \<Rightarrow> blob panics" where
  "set_range a e wtr b =
     (if length wtr = e - a then do {
        d \<leftarrow> overwrite a wtr (blob_data b);
        Some (b\<lparr>blob_data := d\<rparr>) }
      else None)"

definition set_index :: "u64 \<Rightarrow> blob \<Rightarrow> blob panics" where
  "set_index ix b = set_range 0 BLOB_INDEX_END (le_bytes 8 ix) b"

definition get_id :: "pubkey codec \<Rightarrow> blob \<Rightarrow> pubkey option panics" where
  "get_id pk b = map_option (dec pk) (subslice BLOB_INDEX_END BLOB_ID_END (blob_data b))"

definition set_id :: "pubkey codec \<Rightarrow> pubkey \<Rightarrow> blob \<Rightarrow> blob panics" where
  "set_id pk k b = set_range BLOB_INDEX_END BLOB_ID_END (enc pk k) b"

definition get_flags :: "blob \<Rightarrow> u32 panics" where
  "get_flags b = map_option le_word (subslice BLOB_ID_END BLOB_FLAGS_END (blob_data b))"

definition set_flags :: "u32 \<Rightarrow> blob \<Rightarrow> blob panics" where
  "set_flags ix b = set_range BLOB_ID_END BLOB_FLAGS_END (le_bytes 4 ix) b"

definition is_coding :: "blob \<Rightarrow> bool panics" where
  "is_coding b = do { flags \<leftarrow> get_flags b; Some (flags AND BLOB_FLAG_IS_CODING \<noteq> 0) }"

definition set_coding :: "blob \<Rightarrow> blob panics" where
  "set_coding b = do { flags \<leftarrow> get_flags b; set_flags (flags OR BLOB_FLAG_IS_CODING) b }"

definition get_data_size :: "blob \<Rightarrow> u64 panics" where
  "get_data_size b = map_option le_word (subslice BLOB_FLAGS_END BLOB_SIZE_END (blob_data b))"

definition set_data_size :: "u64 \<Rightarrow> blob \<Rightarrow> blob panics" where
  "set_data_size ix b = set_range BLOB_FLAGS_END BLOB_SIZE_END (le_bytes 8 ix) b"

definition blob_payload :: "blob \<Rightarrow> bytes panics" where
  "blob_payload b = subslice BLOB_HEADER_SIZE (length (blob_data b)) (blob_data b)"

definition get_size :: "blob \<Rightarrow> (blob_error + u64) panics" where
  "get_size b = do {
     sz \<leftarrow> get_data_size b;
     if meta_size (blob_meta b) = sz then Some (Inr (sz - of_nat BLOB_HEADER_SIZE))
     else Some (Inl BadState) }"

definition set_size :: "u64 \<Rightarrow> blob \<Rightarrow> blob panics" where
  "set_size sz b =
     (let new_size = sz + of_nat BLOB_HEADER_SIZE in
      set_data_size new_size (b\<lparr>blob_meta := (blob_meta b)\<lparr>meta_size := new_size\<rparr>\<rparr>))"

section \<open>Serializing into packets and blobs\<close>

definition packet_of :: "'a codec \<Rightarrow> 'a \<Rightarrow> packet panics" where
  "packet_of c x = do {
     d \<leftarrow> overwrite 0 (enc c x) (packet_data Packet_default);
     Some \<lparr>packet_data = d, packet_meta = Meta_default\<lparr>meta_size := of_nat (length (enc c x))\<rparr>\<rparr> }"

primrec sequence_panics :: "'a panics list \<Rightarrow> 'a list panics" where
  "sequence_panics [] = Some []"
| "sequence_panics (m # ms) = do { x \<leftarrow> m; xs \<leftarrow> sequence_panics ms; Some (x # xs) }"

definition to_packets_chunked :: "'a codec \<Rightarrow> 'a list \<Rightarrow> nat \<Rightarrow> packet list list panics" where
  "to_packets_chunked c xs n =
     (if n = 0 then None
      else sequence_panics (map (\<lambda>x. sequence_panics (map (packet_of c) x)) (chunks n xs)))"

definition to_packets :: "'a codec \<Rightarrow> 'a list \<Rightarrow> packet list list panics" where
  "to_packets c xs = to_packets_chunked c xs NUM_PACKETS"

definition to_blob :: "'a codec \<Rightarrow> 'a \<Rightarrow> socket_addr \<Rightarrow> blob panics" where
  "to_blob c resp rsp_addr =
     (let v = enc c resp in
      if length v \<le> BLOB_SIZE then do {
        d \<leftarrow> overwrite 0 v (blob_data Blob_default);
        Some \<lparr>blob_data = d,
              blob_meta = Meta_set_addr rsp_addr (Meta_default\<lparr>meta_size := of_nat (length v)\<rparr>)\<rparr> }
      else None)"

definition to_blobs :: "'a codec \<Rightarrow> ('a \<times> socket_addr) list \<Rightarrow> blob list panics" where
  "to_blobs c rsps = sequence_panics (map (\<lambda>(resp, rsp_addr). to_blob c resp rsp_addr) rsps)"

section \<open>Lists of checked results\<close>

lemma sequence_panics_nth:
  "sequence_panics xs = Some ys \<Longrightarrow> length ys = length xs \<and> (\<forall>j < length xs. xs ! j = Some (ys ! j))"
proof (induction xs arbitrary: ys)
  case (Cons x xs)
  then obtain y ys' where "x = Some y" "sequence_panics xs = Some ys'" "ys = y # ys'"
    by (auto simp: bind_eq_Some_conv)
  then show ?case using Cons.IH [of ys'] by (auto simp: nth_Cons split: nat.splits)
qed simp

lemma sequence_panics_map:
  "(\<And>x. x \<in> set xs \<Longrightarrow> f x \<noteq> None) \<Longrightarrow> sequence_panics (map f xs) = Some (map (the \<circ> f) xs)"
proof (induction xs)
  case (Cons a xs)
  then obtain y where "f a = Some y" by fastforce
  then show ?case using Cons by simp
qed simp

section \<open>Sizes\<close>

definition blob_wf :: "blob \<Rightarrow> bool" where
  "blob_wf b \<longleftrightarrow> length (blob_data b) = BLOB_SIZE"

lemma BLOB_HEADER_SIZE_eq: "BLOB_HEADER_SIZE = 64"
  by (simp add: BLOB_HEADER_SIZE_def align_def BLOB_SIZE_END_def BLOB_FLAGS_END_def BLOB_ID_END_def
      BLOB_INDEX_END_def)

lemmas blob_ends = BLOB_SIZE_END_def BLOB_FLAGS_END_def BLOB_ID_END_def BLOB_INDEX_END_def
  BLOB_HEADER_SIZE_eq BLOB_SIZE_def

lemma BLOB_DATA_SIZE_eq: "BLOB_DATA_SIZE = 65280"
  by (simp add: BLOB_DATA_SIZE_def blob_ends)

lemma Blob_default_wf [simp]: "blob_wf Blob_default"
  by (simp add: blob_wf_def Blob_default_def)

section \<open>Header fields\<close>

text \<open>
  A field of the header: bytes \<open>lo\<close> to \<open>hi\<close>.  Writing it never panics on a blob, reads back,
  and leaves the metadata and every other byte alone; reading it looks at its own bytes only.
\<close>

locale header_field =
  fixes lo hi :: nat
    and get_field :: "blob \<Rightarrow> 'v panics"
    and set_field :: "'v \<Rightarrow> blob \<Rightarrow> blob panics"
  assumes set_total: "blob_wf b \<Longrightarrow> \<exists>b'. set_field v b = Some b'"
    and set_wf: "blob_wf b \<Longrightarrow> set_field v b = Some b' \<Longrightarrow> blob_wf b' \<and> blob_meta b' = blob_meta b"
    and get_set: "blob_wf b \<Longrightarrow> set_field v b = Some b' \<Longrightarrow> get_field b' = Some v"
    and set_frame: "set_field v b = Some b' \<Longrightarrow> e \<le> lo \<or> hi \<le> a \<Longrightarrow>
      subslice a e (blob_data b') = subslice a e (blob_data b)"
    and get_local: "subslice lo hi (blob_data b) = subslice lo hi (blob_data b') \<Longrightarrow>
      get_field b = get_field b'"
begin

text \<open>A field read through any write elsewhere.\<close>

lemma get_other:
  assumes "subslice lo hi (blob_data b') = subslice lo hi (blob_data b)"
  shows "get_field b' = get_field b"
  using get_local [OF assms] .

end

lemma set_range_total:
  "blob_wf b \<Longrightarrow> length wtr = e - a \<Longrightarrow> a \<le> e \<Longrightarrow> e \<le> BLOB_SIZE \<Longrightarrow> \<exists>b'. set_range a e wtr b = Some b'"
  by (simp add: set_range_def overwrite_def blob_wf_def)

lemma set_range_wf:
  "blob_wf b \<Longrightarrow> set_range a e wtr b = Some b' \<Longrightarrow> blob_wf b' \<and> blob_meta b' = blob_meta b"
  by (auto simp: set_range_def blob_wf_def bind_eq_Some_conv overwrite_length split: if_splits)

lemma set_range_same:
  "set_range a e wtr b = Some b' \<Longrightarrow> a \<le> e \<Longrightarrow> subslice a e (blob_data b') = Some wtr"
  using subslice_overwrite_same [of a wtr "blob_data b" "blob_data b'"]
  by (auto simp: set_range_def bind_eq_Some_conv split: if_splits)

lemma set_range_frame:
  "set_range lo hi wtr b = Some b' \<Longrightarrow> lo \<le> hi \<Longrightarrow> e \<le> lo \<or> hi \<le> a \<Longrightarrow>
     subslice a e (blob_data b') = subslice a e (blob_data b)"
  by (auto simp: set_range_def bind_eq_Some_conv subslice_overwrite_other split: if_splits)

text \<open>A fixed-width value stored in its own range is a header field.\<close>

lemma range_header_field:
  assumes "lo \<le> hi" "hi \<le> BLOB_SIZE"
    and "\<And>v. length (out v) = hi - lo" and "\<And>v. rd (out v) = Some v"
  shows "header_field lo hi (\<lambda>b. subslice lo hi (blob_data b) \<bind> rd) (\<lambda>v. set_range lo hi (out v))"
proof
  fix b v b' assume "blob_wf b" "set_range lo hi (out v) b = Some b'"
  then show "subslice lo hi (blob_data b') \<bind> rd = Some v"
    using set_range_same assms by fastforce
qed (use assms set_range_total set_range_wf set_range_frame in auto)

lemma map_option_bind: "map_option f m = m \<bind> (\<lambda>x. Some (f x))"
  by (cases m) simp_all

interpretation index_field: header_field 0 8 get_index set_index
  unfolding get_index_def [abs_def] set_index_def [abs_def] blob_ends map_option_bind
  by (rule range_header_field) (simp_all add: blob_ends le_round_trip)

interpretation flags_field: header_field 40 44 get_flags set_flags
  unfolding get_flags_def [abs_def] set_flags_def [abs_def] blob_ends map_option_bind
  using range_header_field [of 40 44 "le_bytes 4 :: u32 \<Rightarrow> bytes" "\<lambda>x. Some (le_word x)"]
  by (simp add: blob_ends le_round_trip)

interpretation data_size_field: header_field 44 52 get_data_size set_data_size
  unfolding get_data_size_def [abs_def] set_data_size_def [abs_def] blob_ends map_option_bind
  using range_header_field [of 44 52 "le_bytes 8 :: u64 \<Rightarrow> bytes" "\<lambda>x. Some (le_word x)"]
  by (simp add: blob_ends le_round_trip)

text \<open>The sender's key, for an encoding of 32 bytes.  The read may fail with a bincode error.\<close>

definition read_id :: "pubkey codec \<Rightarrow> blob \<Rightarrow> pubkey panics" where
  "read_id pk b = get_id pk b \<bind> (\<lambda>r. r)"

lemma id_header_field: "fixed_codec pk 32 \<Longrightarrow> header_field 8 40 (read_id pk) (set_id pk)"
  unfolding read_id_def [abs_def] get_id_def set_id_def [abs_def] blob_ends map_option_bind
    Option.bind_assoc bind.bind_lunit
  using range_header_field [of 8 40 "enc pk" "dec pk"]
  by (simp add: fixed_codec.enc_width fixed_codec.dec_enc_fixed blob_ends)

lemma pubkey_wire_fixed: "fixed_codec (codec_of pubkey_wire) 32"
proof -
  have "length (put pubkey_wire k) = 32" for k
    by (simp add: pubkey_wire_def iso_wire_def)
  then show ?thesis
    using codec_of_bincode [OF key_wire_formats(1)]
    by (simp add: fixed_codec_def fixed_codec_axioms_def)
qed

interpretation id_field: header_field 8 40 "read_id (codec_of pubkey_wire)" "set_id (codec_of pubkey_wire)"
  by (rule id_header_field) (rule pubkey_wire_fixed)

section \<open>The payload\<close>

lemma set_size_wf:
  assumes "blob_wf b"
  obtains b' where "set_size sz b = Some b'" "blob_wf b'" "get_size b' = Some (Inr sz)"
    "blob_meta b' = (blob_meta b)\<lparr>meta_size := sz + 64\<rparr>"
    "\<And>a e. e \<le> 44 \<or> 52 \<le> a \<Longrightarrow> subslice a e (blob_data b') = subslice a e (blob_data b)"
proof -
  let ?m = "b\<lparr>blob_meta := (blob_meta b)\<lparr>meta_size := sz + 64\<rparr>\<rparr>"
  have m: "blob_wf ?m" using assms by (simp add: blob_wf_def)
  then obtain b' where b': "set_data_size (sz + 64) ?m = Some b'"
    using data_size_field.set_total by blast
  show thesis
  proof (rule that)
    show "set_size sz b = Some b'"
      using b' by (simp add: set_size_def Let_def BLOB_HEADER_SIZE_eq)
    show "blob_wf b'" "blob_meta b' = (blob_meta b)\<lparr>meta_size := sz + 64\<rparr>"
      using data_size_field.set_wf [OF m b'] by simp_all
    then show "get_size b' = Some (Inr sz)"
      using data_size_field.get_set [OF m b'] by (simp add: get_size_def BLOB_HEADER_SIZE_eq)
    show "e \<le> 44 \<or> 52 \<le> a \<Longrightarrow> subslice a e (blob_data b') = subslice a e (blob_data b)" for a e
      using data_size_field.set_frame [OF b', of e a] by simp
  qed
qed

section \<open>Writing a whole header\<close>

lemma header_write_size_index_id:
  assumes pk: "fixed_codec pk 32" and b: "blob_wf b"
  obtains b1 b2 b3 where "set_size sz b = Some b1" "set_index ix b1 = Some b2" "set_id pk k b2 = Some b3"
    "get_index b3 = Some ix" "get_id pk b3 = Some (Some k)" "get_data_size b3 = Some (sz + 64)"
    "blob_meta b3 = (blob_meta b)\<lparr>meta_size := sz + 64\<rparr>" "blob_payload b3 = blob_payload b" "blob_wf b3"
proof -
  note idf = id_header_field [OF pk]
  obtain b1 where b1: "set_size sz b = Some b1" "blob_wf b1" "get_size b1 = Some (Inr sz)"
    "blob_meta b1 = (blob_meta b)\<lparr>meta_size := sz + 64\<rparr>"
    and f1: "\<And>a e. e \<le> 44 \<or> 52 \<le> a \<Longrightarrow> subslice a e (blob_data b1) = subslice a e (blob_data b)"
    using set_size_wf [OF b] by metis
  obtain b2 where b2: "set_index ix b1 = Some b2" using index_field.set_total [OF b1(2)] by blast
  note w2 = index_field.set_wf [OF b1(2) b2] and g2 = index_field.get_set [OF b1(2) b2]
  obtain b3 where b3: "set_id pk k b2 = Some b3"
    using header_field.set_total [OF idf] w2 by blast
  note w3 = header_field.set_wf [OF idf _ b3] and g3 = header_field.get_set [OF idf _ b3]
  note frames = f1 index_field.set_frame [OF b2] header_field.set_frame [OF idf b3]
  have "get_index b3 = Some ix" using index_field.get_other [of b3 b2] g2 by (simp add: frames)
  moreover have "get_id pk b3 = Some (Some k)"
    using g3 w2 by (auto simp: read_id_def bind_eq_Some_conv)
  moreover have "get_data_size b3 = get_data_size b1"
    by (rule data_size_field.get_other) (simp add: frames)
  then have "get_data_size b3 = Some (sz + 64)"
    using b1(3,4) by (auto simp: get_size_def bind_eq_Some_conv split: if_splits)
  moreover have "blob_payload b3 = blob_payload b"
    using w2 w3 b1(2) b by (simp add: blob_payload_def blob_wf_def BLOB_HEADER_SIZE_eq frames)
  ultimately show thesis using b1 w2 w3 by (intro that [OF b1(1) b2 b3]) simp_all
qed

lemma set_flags_keeps:
  assumes pk: "fixed_codec pk 32" and b: "blob_wf b"
  obtains b' where "set_flags fl b = Some b'" "get_flags b' = Some fl" "blob_wf b'"
    "get_index b' = get_index b" "get_id pk b' = get_id pk b" "get_size b' = get_size b"
    "blob_payload b' = blob_payload b" "blob_meta b' = blob_meta b"
proof -
  obtain b' where b': "set_flags fl b = Some b'" using flags_field.set_total [OF b] by blast
  note w = flags_field.set_wf [OF b b'] and frame = flags_field.set_frame [OF b']
  show thesis
  proof (rule that [OF b' flags_field.get_set [OF b b']])
    show "get_index b' = get_index b" by (rule index_field.get_other) (simp add: frame)
    show "get_id pk b' = get_id pk b" by (simp add: get_id_def frame blob_ends)
    show "get_size b' = get_size b"
      using w data_size_field.get_other [of b' b] by (simp add: get_size_def frame)
    show "blob_payload b' = blob_payload b"
      using w b by (simp add: blob_payload_def blob_wf_def BLOB_HEADER_SIZE_eq frame)
  qed (use w in simp_all)
qed

text \<open>A size below the header's 64 bytes passes the size check, wrapped around.\<close>

lemma short_blob_size_wraps:
  assumes "get_data_size b = Some sz" and "meta_size (blob_meta b) = sz" and "sz < 64"
  shows "get_size b = Some (Inr (sz - 64)) \<and> BLOB_SIZE < unat (sz - 64 :: u64)"
proof -
  have n: "unat sz < 64" using assms(3) by (simp add: word_less_nat_alt)
  have "unat (sz - 64) = 2 ^ 64 + unat sz - 64"
    using n by (simp add: unat_sub_if_size word_size word_le_nat_alt)
  then show ?thesis using assms(1,2) n by (simp add: get_size_def BLOB_HEADER_SIZE_eq BLOB_SIZE_def)
qed

lemma Blob_default_data_size: "get_data_size Blob_default = Some 0"
  by (simp add: get_data_size_def subslice_def Blob_default_def blob_ends le_word_zeros)

lemma octet_round_trip: "ucast (ucast (w :: u8) :: u16) = w"
  by (rule bit_word_eqI) (simp add: bit_ucast_iff)

section \<open>What blobs promise\<close>

text \<open>The four header fields do not overlap: after writing index, sender, size and flags, each reads
  back what was written, the payload is untouched, and no step panics.\<close>

theorem header_fields_round_trip:
  assumes "fixed_codec pk 32" and "blob_wf b"
  shows "\<exists>b1 b2 b3 b4. set_size sz b = Some b1 \<and> set_index ix b1 = Some b2 \<and>
    set_id pk k b2 = Some b3 \<and> set_flags fl b3 = Some b4 \<and>
    get_index b4 = Some ix \<and> get_id pk b4 = Some (Some k) \<and> get_flags b4 = Some fl \<and>
    get_size b4 = Some (Inr sz) \<and> blob_payload b4 = blob_payload b \<and> blob_wf b4"
proof -
  obtain b1 b2 b3 where w: "set_size sz b = Some b1" "set_index ix b1 = Some b2" "set_id pk k b2 = Some b3"
    and f: "get_index b3 = Some ix" "get_id pk b3 = Some (Some k)" "get_data_size b3 = Some (sz + 64)"
      "blob_meta b3 = (blob_meta b)\<lparr>meta_size := sz + 64\<rparr>" "blob_payload b3 = blob_payload b"
      "blob_wf b3"
    by (rule header_write_size_index_id [OF assms])
  have "get_size b3 = Some (Inr sz)" using f by (simp add: get_size_def BLOB_HEADER_SIZE_eq)
  with w f show ?thesis by (auto intro: set_flags_keeps [OF assms(1) f(6), of fl])
qed

theorem header_fields_witness:
  "\<exists>b1 b2 b3 b4. set_size 7 Blob_default = Some b1 \<and> set_index 3 b1 = Some b2 \<and>
    set_id (codec_of pubkey_wire) (Pubkey 5) b2 = Some b3 \<and> set_flags 1 b3 = Some b4 \<and>
    get_index b4 = Some 3 \<and> get_id (codec_of pubkey_wire) b4 = Some (Some (Pubkey 5)) \<and>
    get_flags b4 = Some 1 \<and> get_size b4 = Some (Inr 7) \<and>
    blob_payload b4 = blob_payload Blob_default \<and> blob_wf b4"
  by (rule header_fields_round_trip [OF pubkey_wire_fixed Blob_default_wf])

text \<open>A socket address survives being stored in the metadata, but for the flow label and scope of
  IPv6, which are not kept.\<close>

theorem meta_addr_round_trip:
  "Meta_addr (Meta_set_addr a m) =
     (case a of SockV6 segs p fl sc \<Rightarrow> SockV6 segs p 0 0 | _ \<Rightarrow> a)"
  by (cases a) (auto simp: Meta_addr_def octet_round_trip)

end
