(* ===== verification/Entries.thy ===== *)
theory Entries
  imports Transactions Packets
begin

text \<open>
  The hash chain (src/pod.rs), entries (src/entry.rs), blocks of entries and the functions that cut
  transactions into entries (the \<open>Block\<close> trait, \<open>next_entries\<close> and
  \<open>reconstruct_entries_from_blobs\<close> of src/ledger.rs), and the genesis mint (src/mint.rs).

  \<open>entry_ext\<close> collects the third-party functions: SHA-256, the transaction encodings, and
  bincode's encoding of an entry, whose length is \<open>serialized_size\<close>.

  The searches for how many transactions fit are loops over \<open>usize\<close> positions at most the number of
  transactions, far below the wrap-around, so positions are natural numbers.  They are
  \<open>partial_function\<close>s: \<open>None\<close> is a loop that never ends.
\<close>

section \<open>The hash chain\<close>

record pod =
  last_hash :: hash
  pod_num_hashes :: u64

record pod_entry =
  pe_num_hashes :: u64
  pe_id :: hash
  pe_mixin :: "hash option"

definition Pod_new :: "hash \<Rightarrow> pod" where
  "Pod_new h = \<lparr>last_hash = h, pod_num_hashes = 0\<rparr>"

definition Pod_hash :: "(bytes \<Rightarrow> hash) \<Rightarrow> pod \<Rightarrow> pod" where
  "Pod_hash sha p = \<lparr>last_hash = hash_one sha (hash_as_ref (last_hash p)),
     pod_num_hashes = pod_num_hashes p + 1\<rparr>"

definition Pod_record :: "(bytes \<Rightarrow> hash) \<Rightarrow> hash \<Rightarrow> pod \<Rightarrow> pod_entry \<times> pod" where
  "Pod_record sha mixin p =
     (let num = pod_num_hashes p + 1;
          h = hashv sha [hash_as_ref (last_hash p), hash_as_ref mixin]
      in (\<lparr>pe_num_hashes = num, pe_id = h, pe_mixin = Some mixin\<rparr>,
          \<lparr>last_hash = h, pod_num_hashes = 0\<rparr>))"

definition Pod_tick :: "(bytes \<Rightarrow> hash) \<Rightarrow> pod \<Rightarrow> pod_entry \<times> pod" where
  "Pod_tick sha p =
     (let p = Pod_hash sha p
      in (\<lparr>pe_num_hashes = pod_num_hashes p, pe_id = last_hash p, pe_mixin = None\<rparr>,
          p\<lparr>pod_num_hashes := 0\<rparr>))"

text \<open>The reference check: hash one step at a time.  A count of zero is an assertion failure.\<close>

fun pod_verify :: "(bytes \<Rightarrow> hash) \<Rightarrow> hash \<Rightarrow> pod_entry list \<Rightarrow> bool panics" where
  "pod_verify sha h [] = Some True"
| "pod_verify sha h (e # es) =
     (if pe_num_hashes e = 0 then None
      else let h = ((\<lambda>h. hash_one sha (hash_as_ref h)) ^^ (unat (pe_num_hashes e) - 1)) h;
               h' = (case pe_mixin e of
                       Some mixin \<Rightarrow> hashv sha [hash_as_ref h, hash_as_ref mixin]
                     | None \<Rightarrow> hash_one sha (hash_as_ref h))
           in if h' \<noteq> pe_id e then Some False else pod_verify sha h' es)"

section \<open>Entries\<close>

record entry =
  num_hashes :: u64
  entry_id :: hash
  transactions :: "transaction list"

record entry_ext =
  ee_sha :: "bytes \<Rightarrow> hash"
  ee_tx :: tx_ext
  ee_entry :: "entry codec"
  ee_pubkey :: "pubkey codec"

definition entry_size :: "entry_ext \<Rightarrow> entry \<Rightarrow> nat" where
  "entry_size ee e = length (enc (ee_entry ee) e)"

definition next_hash :: "entry_ext \<Rightarrow> hash \<Rightarrow> u64 \<Rightarrow> transaction list \<Rightarrow> hash" where
  "next_hash ee start_hash num txs =
     (if num = 0 \<and> txs = [] then start_hash
      else let pod = (Pod_hash (ee_sha ee) ^^ (unat num - 1)) (Pod_new start_hash)
           in if txs = [] then pe_id (fst (Pod_tick (ee_sha ee) pod))
              else pe_id (fst (Pod_record (ee_sha ee) (Transaction_hash (ee_sha ee) txs) pod)))"

definition Entry_new :: "entry_ext \<Rightarrow> hash \<Rightarrow> u64 \<Rightarrow> transaction list \<Rightarrow> entry panics" where
  "Entry_new ee start_hash num txs =
     (let e = \<lparr>num_hashes = num + (if txs = [] then 0 else 1),
               entry_id = next_hash ee start_hash 0 txs, transactions = txs\<rparr>
      in if BLOB_DATA_SIZE < entry_size ee e then None else Some e)"

definition will_fit :: "entry_ext \<Rightarrow> transaction list \<Rightarrow> bool" where
  "will_fit ee txs \<longleftrightarrow>
     entry_size ee \<lparr>num_hashes = 0, entry_id = Hash_default, transactions = txs\<rparr> \<le> BLOB_DATA_SIZE"

text \<open>The loop shared by \<open>num_will_fit\<close> and \<open>next_entries_mut\<close>.\<close>

partial_function (option) fit_search ::
    "(nat \<Rightarrow> bool) \<Rightarrow> nat \<Rightarrow> nat \<Rightarrow> nat \<Rightarrow> nat option" where
  "fit_search fits num upper lower =
     (let (nxt, upper', lower') =
            (if fits num then ((upper + num) div 2, upper, num)
             else ((lower + num) div 2, num, lower))
      in if nxt = num then Some num else fit_search fits nxt upper' lower')"

definition num_will_fit :: "entry_ext \<Rightarrow> transaction list \<Rightarrow> nat option" where
  "num_will_fit ee txs =
     (if txs = [] then Some 0
      else fit_search (\<lambda>n. will_fit ee (take n txs)) (length txs) (length txs) 1)"

definition Entry_new_mut ::
    "entry_ext \<Rightarrow> hash \<Rightarrow> u64 \<Rightarrow> transaction list \<Rightarrow> (entry \<times> hash \<times> u64) panics" where
  "Entry_new_mut ee start_hash num txs = do {
     e \<leftarrow> Entry_new ee start_hash num txs;
     if entry_size ee e \<le> BLOB_DATA_SIZE then Some (e, entry_id e, 0) else None }"

definition new_tick :: "u64 \<Rightarrow> hash \<Rightarrow> entry" where
  "new_tick num h = \<lparr>num_hashes = num, entry_id = h, transactions = []\<rparr>"

definition entry_verify :: "entry_ext \<Rightarrow> entry \<Rightarrow> hash \<Rightarrow> bool" where
  "entry_verify ee e start_hash \<longleftrightarrow>
     list_all (verify_plan (ee_tx ee)) (transactions e) \<and>
     entry_id e = next_hash ee start_hash (num_hashes e) (transactions e)"

definition next_entry :: "entry_ext \<Rightarrow> hash \<Rightarrow> u64 \<Rightarrow> transaction list \<Rightarrow> entry panics" where
  "next_entry ee start_hash num txs =
     (if 0 < num \<or> txs = []
      then Some \<lparr>num_hashes = num, entry_id = next_hash ee start_hash num txs, transactions = txs\<rparr>
      else None)"

definition entry_to_blob ::
    "entry_ext \<Rightarrow> u64 option \<Rightarrow> pubkey option \<Rightarrow> socket_addr option \<Rightarrow> entry \<Rightarrow> blob panics" where
  "entry_to_blob ee idx key addr e = do {
     let bytes = enc (ee_entry ee) e;
     d \<leftarrow> overwrite BLOB_HEADER_SIZE bytes (blob_data Blob_default);
     b \<leftarrow> set_size (of_nat (length bytes)) (Blob_default\<lparr>blob_data := d\<rparr>);
     b \<leftarrow> (case idx of Some i \<Rightarrow> set_index i b | None \<Rightarrow> Some b);
     b \<leftarrow> (case key of Some k \<Rightarrow> set_id (ee_pubkey ee) k b | None \<Rightarrow> Some b);
     let b = (case addr of Some a \<Rightarrow> b\<lparr>blob_meta := Meta_set_addr a (blob_meta b)\<rparr> | None \<Rightarrow> b);
     set_flags 0 b }"

section \<open>Blocks\<close>

definition block_verify :: "entry_ext \<Rightarrow> entry list \<Rightarrow> hash \<Rightarrow> bool" where
  "block_verify ee es start_hash \<longleftrightarrow>
     list_all (\<lambda>(x0, x1). entry_verify ee x1 (entry_id x0)) (zip (new_tick 0 start_hash # es) es)"

definition to_blobs_with_id ::
    "entry_ext \<Rightarrow> pubkey \<Rightarrow> u64 \<Rightarrow> socket_addr \<Rightarrow> entry list \<Rightarrow> blob list panics" where
  "to_blobs_with_id ee key start_idx addr es =
     sequence_panics (map (\<lambda>(i, e). entry_to_blob ee (Some (start_idx + of_nat i)) (Some key) (Some addr) e)
       (enumerate 0 es))"

definition block_to_blobs :: "entry_ext \<Rightarrow> entry list \<Rightarrow> blob list panics" where
  "block_to_blobs ee es = to_blobs_with_id ee Pubkey_default 0 (SockV4 0 0 0 0 0) es"

definition block_votes :: "entry_ext \<Rightarrow> entry list \<Rightarrow> (pubkey \<times> vote \<times> hash) list panics" where
  "block_votes ee es =
     map_option (\<lambda>vs. map the (filter (\<lambda>v. v \<noteq> None) vs))
       (sequence_panics (map (tx_vote (ee_tx ee)) (concat (map transactions es))))"

text \<open>The error is that of the size check or of deserialization.\<close>

datatype reconstruct_error = BlobErr blob_error | SerializeErr

fun reconstruct_entries_from_blobs ::
    "entry_ext \<Rightarrow> blob list \<Rightarrow> (reconstruct_error + entry list) panics" where
  "reconstruct_entries_from_blobs ee [] = Some (Inr [])"
| "reconstruct_entries_from_blobs ee (b # bs) = do {
     sz \<leftarrow> get_size b;
     (case sz of
        Inl e \<Rightarrow> Some (Inl (BlobErr e))
      | Inr msg_size \<Rightarrow> do {
          payload \<leftarrow> blob_payload b;
          msg \<leftarrow> subslice 0 (unat msg_size) payload;
          (case dec (ee_entry ee) msg of
             None \<Rightarrow> Some (Inl SerializeErr)
           | Some e \<Rightarrow> do {
               rest \<leftarrow> reconstruct_entries_from_blobs ee bs;
               Some (map_sum (\<lambda>x. x) ((#) e) rest) }) }) }"

text \<open>The outer option is termination, the inner one a panic of \<open>Entry::new_mut\<close>.\<close>

partial_function (option) next_entries_loop ::
    "entry_ext \<Rightarrow> transaction list \<Rightarrow> nat \<Rightarrow> hash \<Rightarrow> u64 \<Rightarrow> (entry list \<times> hash \<times> u64) panics option" where
  "next_entries_loop ee txs chunk_start start_hash num =
     (if chunk_start < length txs
      then Option.bind
        (fit_search (\<lambda>e. will_fit ee (take (e - chunk_start) (drop chunk_start txs)))
           (length txs) (length txs) chunk_start)
        (\<lambda>chunk_end.
           case Entry_new_mut ee start_hash num (take (chunk_end - chunk_start) (drop chunk_start txs)) of
             None \<Rightarrow> Some None
           | Some (e, h, n) \<Rightarrow>
               Option.bind (next_entries_loop ee txs chunk_end h n)
                 (\<lambda>rest. Some (map_option (\<lambda>(es, h, n). (e # es, h, n)) rest)))
      else Some (Some ([], start_hash, num)))"

definition next_entries_mut ::
    "entry_ext \<Rightarrow> hash \<Rightarrow> u64 \<Rightarrow> transaction list \<Rightarrow> (entry list \<times> hash \<times> u64) panics option" where
  "next_entries_mut ee start_hash num txs =
     (if length txs \<le> 1
      then Some (map_option (\<lambda>(e, h, n). ([e], h, n)) (Entry_new_mut ee start_hash num txs))
      else next_entries_loop ee txs 0 start_hash num)"

definition next_entries :: "entry_ext \<Rightarrow> hash \<Rightarrow> u64 \<Rightarrow> transaction list \<Rightarrow> entry list panics option" where
  "next_entries ee start_hash num txs =
     map_option (map_option fst) (next_entries_mut ee start_hash num txs)"

section \<open>The genesis mint\<close>

record mint =
  mint_pkcs8 :: bytes
  mint_pubkey :: pubkey
  mint_tokens :: i64

text \<open>\<open>from_pkcs8\<close> is ring's key parser; \<open>None\<close> is its error.\<close>

definition Mint_new_with_pkcs8 ::
    "'kp ed25519 \<Rightarrow> (bytes \<Rightarrow> 'kp option) \<Rightarrow> i64 \<Rightarrow> bytes \<Rightarrow> mint panics" where
  "Mint_new_with_pkcs8 ring from_pkcs8 t pkcs8 = do {
     kp \<leftarrow> from_pkcs8 pkcs8;
     k \<leftarrow> keypair_pubkey ring kp;
     Some \<lparr>mint_pkcs8 = pkcs8, mint_pubkey = k, mint_tokens = t\<rparr> }"

definition mint_seed :: "entry_ext \<Rightarrow> mint \<Rightarrow> hash" where
  "mint_seed ee m = hash_one (ee_sha ee) (mint_pkcs8 m)"

definition mint_create_transactions ::
    "'kp ed25519 \<Rightarrow> (bytes \<Rightarrow> 'kp option) \<Rightarrow> entry_ext \<Rightarrow> mint \<Rightarrow> transaction list panics" where
  "mint_create_transactions ring from_pkcs8 ee m = do {
     kp \<leftarrow> from_pkcs8 (mint_pkcs8 m);
     tx \<leftarrow> system_move ring (ee_tx ee) kp (mint_pubkey m) (mint_tokens m) (mint_seed ee m) 0;
     Some [tx] }"

definition mint_create_entries ::
    "'kp ed25519 \<Rightarrow> (bytes \<Rightarrow> 'kp option) \<Rightarrow> entry_ext \<Rightarrow> mint \<Rightarrow> entry list panics" where
  "mint_create_entries ring from_pkcs8 ee m = do {
     e0 \<leftarrow> Entry_new ee (mint_seed ee m) 0 [];
     txs \<leftarrow> mint_create_transactions ring from_pkcs8 ee m;
     e1 \<leftarrow> Entry_new ee (entry_id e0) 0 txs;
     Some [e0, e1] }"

definition mint_last_id ::
    "'kp ed25519 \<Rightarrow> (bytes \<Rightarrow> 'kp option) \<Rightarrow> entry_ext \<Rightarrow> mint \<Rightarrow> hash panics" where
  "mint_last_id ring from_pkcs8 ee m = do {
     es \<leftarrow> mint_create_entries ring from_pkcs8 ee m;
     e1 \<leftarrow> get_at es 1;
     Some (entry_id e1) }"

section \<open>The chain in closed form\<close>

text \<open>\<open>hash_iter n\<close> hashes \<open>n\<close> times.\<close>

definition hash_iter :: "(bytes \<Rightarrow> hash) \<Rightarrow> nat \<Rightarrow> hash \<Rightarrow> hash" where
  "hash_iter sha n = (\<lambda>h. hash_one sha (hash_as_ref h)) ^^ n"

lemma hash_iter_simps [simp]:
  "hash_iter sha 0 h = h"
  "hash_iter sha (Suc n) h = hash_one sha (hash_as_ref (hash_iter sha n h))"
  by (simp_all add: hash_iter_def)

lemma Pod_hash_iter:
  "(Pod_hash sha ^^ n) p =
     \<lparr>last_hash = hash_iter sha n (last_hash p), pod_num_hashes = pod_num_hashes p + of_nat n\<rparr>"
  by (induction n) (simp_all add: Pod_hash_def)

lemma next_hash_eq:
  "next_hash ee h n txs =
     (if txs = [] then hash_iter (ee_sha ee) (unat n) h
      else hashv (ee_sha ee) [hash_as_ref (hash_iter (ee_sha ee) (unat n - 1) h),
        hash_as_ref (Transaction_hash (ee_sha ee) txs)])"
proof -
  have tick: "hash_one sha (hash_as_ref (hash_iter sha (unat n - Suc 0) h)) = hash_iter sha (unat n) h"
    if "n \<noteq> 0" for sha :: "bytes \<Rightarrow> hash" and n :: u64
    using that by (cases "unat n") (simp_all add: unat_eq_0)
  show ?thesis
    by (auto simp: next_hash_def Pod_hash_iter Pod_new_def Pod_tick_def Pod_record_def Pod_hash_def
        Let_def tick)
qed

text \<open>With transactions, a count of zero and a count of one hash alike.\<close>

lemma next_hash_0_1: "txs \<noteq> [] \<Longrightarrow> next_hash ee h 0 txs = next_hash ee h 1 txs"
  by (simp add: next_hash_eq)

section \<open>Any use of the chain verifies\<close>

datatype pod_op = OpHash | OpRecord hash | OpTick

fun pod_run :: "(bytes \<Rightarrow> hash) \<Rightarrow> pod_op list \<Rightarrow> pod \<Rightarrow> pod_entry list" where
  "pod_run sha [] p = []"
| "pod_run sha (OpHash # ops) p = pod_run sha ops (Pod_hash sha p)"
| "pod_run sha (OpRecord mixin # ops) p =
     (let (e, p) = Pod_record sha mixin p in e # pod_run sha ops p)"
| "pod_run sha (OpTick # ops) p =
     (let (e, p) = Pod_tick sha p in e # pod_run sha ops p)"

lemma pod_run_verifies:
  assumes "unat (pod_num_hashes p) + length ops < 2 ^ 64"
    and "last_hash p = hash_iter sha (unat (pod_num_hashes p)) h"
  shows "pod_verify sha h (pod_run sha ops p) = Some True"
  using assms
proof (induction sha ops p arbitrary: h rule: pod_run.induct)
  case (2 sha ops p)
  then have "unat (pod_num_hashes p + 1) = Suc (unat (pod_num_hashes p))"
    by (simp add: unat_word_ariths)
  then show ?case using 2 by (simp add: Pod_hash_def)
next
  case (3 sha mixin ops p)
  then have "unat (pod_num_hashes p + 1) = Suc (unat (pod_num_hashes p))"
    by (simp add: unat_word_ariths)
  then have "unat (pod_num_hashes p + 1) - 1 = unat (pod_num_hashes p)" "pod_num_hashes p + 1 \<noteq> 0"
    by (simp, metis nat.discI unat_0)
  then show ?case using 3 by (simp add: Pod_record_def Let_def hash_iter_def)
next
  case (4 sha ops p)
  then have "unat (pod_num_hashes p + 1) = Suc (unat (pod_num_hashes p))"
    by (simp add: unat_word_ariths)
  then have "unat (pod_num_hashes p + 1) - 1 = unat (pod_num_hashes p)" "pod_num_hashes p + 1 \<noteq> 0"
    by (simp, metis nat.discI unat_0)
  then show ?case using 4 by (simp add: Pod_tick_def Pod_hash_def Let_def hash_iter_def)
qed simp

section \<open>Blocks, entry by entry\<close>

lemma block_verify_simps [simp]:
  "block_verify ee [] h"
  "block_verify ee (e # es) h \<longleftrightarrow> entry_verify ee e h \<and> block_verify ee es (entry_id e)"
proof -
  show "block_verify ee [] h" by (simp add: block_verify_def)
  show "block_verify ee (e # es) h \<longleftrightarrow> entry_verify ee e h \<and> block_verify ee es (entry_id e)"
    by (cases es) (simp_all add: block_verify_def new_tick_def)
qed

lemma block_verify_append:
  "block_verify ee (es @ fs) h \<longleftrightarrow>
     block_verify ee es h \<and> block_verify ee fs (if es = [] then h else entry_id (last es))"
  by (induction es arbitrary: h) auto

section \<open>How many transactions fit\<close>

text \<open>
  The search keeps \<open>lower \<le> num \<le> upper\<close>, \<open>lower\<close> fits and, once \<open>upper\<close> has been tried,
  \<open>upper\<close> does not.
\<close>

lemma fit_search_maximal:
  assumes mono: "\<And>m n. m \<le> n \<Longrightarrow> fits n \<Longrightarrow> fits m"
    and "fits lower" "lower \<le> num" "num \<le> upper" "upper \<le> N"
    and "num = upper \<Longrightarrow> upper = N" and "num < upper \<Longrightarrow> \<not> fits upper"
    and "num = lower \<Longrightarrow> upper \<le> lower + 1"
  shows "\<exists>n. fit_search fits num upper lower = Some n \<and> fits n \<and> lower \<le> n \<and> n \<le> N \<and>
    (\<forall>m \<le> N. fits m \<longrightarrow> m \<le> n)"
  using assms(2-8)
proof (induction "2 * (upper - lower) + (if num = upper then 1 else 0)"
    arbitrary: num upper lower rule: less_induct)
  case less
  let ?up = "(upper + num) div 2" and ?down = "(lower + num) div 2"
  show ?case
  proof (cases "fits num")
    case True
    show ?thesis
    proof (cases "?up = num")
      case stop: True
      then have "upper \<le> num + 1" by simp
      have "m \<le> num" if "m \<le> N" "fits m" for m
      proof (rule ccontr)
        assume "\<not> m \<le> num"
        then have "upper \<le> m" using \<open>upper \<le> num + 1\<close> by simp
        then show False
          using that mono [of upper m] less.prems(5,6) less.prems(3) \<open>\<not> m \<le> num\<close>
          by (cases "num = upper") auto
      qed
      then show ?thesis
        using True stop less.prems by (subst fit_search.simps) auto
    next
      case go: False
      then have "lower < num" "num < ?up" "?up < upper"
        using less.prems(2,3,7) by (cases "num = lower"; simp)+
      then have "\<exists>n. fit_search fits ?up upper num = Some n \<and> fits n \<and> num \<le> n \<and> n \<le> N \<and>
          (\<forall>m \<le> N. fits m \<longrightarrow> m \<le> n)"
        using less.prems True by (intro less.hyps) auto
      then show ?thesis
        using True go less.prems(2) by (subst fit_search.simps) auto
    qed
  next
    case False
    have "lower < num"
      using False less.prems(1,2) by (cases "lower = num") auto
    then have "?down \<noteq> num" "lower \<le> ?down" "?down < num" by simp_all
    moreover have "\<exists>n. fit_search fits ?down num lower = Some n \<and> fits n \<and> lower \<le> n \<and> n \<le> N \<and>
        (\<forall>m \<le> N. fits m \<longrightarrow> m \<le> n)"
      using less.prems False \<open>lower < num\<close> calculation
      by (intro less.hyps) auto
    ultimately show ?thesis
      using False by (subst fit_search.simps) auto
  qed
qed

section \<open>What entries rely on of bincode\<close>

text \<open>
  Besides the round trip: the count and the id have a fixed width, so the size of an entry depends on
  its transactions only, and more transactions do not make it smaller.
\<close>

abbreviation bare_entry :: "transaction list \<Rightarrow> entry" where
  "bare_entry txs \<equiv> \<lparr>num_hashes = 0, entry_id = Hash_default, transactions = txs\<rparr>"

locale entry_codecs =
  fixes ee :: entry_ext
  assumes entry_codec: "bincode_codec (ee_entry ee)"
    and sender_codec: "fixed_codec (ee_pubkey ee) 32"
    and size_fixed: "entry_size ee \<lparr>num_hashes = n, entry_id = h, transactions = txs\<rparr> =
      entry_size ee (bare_entry txs)"
    and size_mono: "entry_size ee (bare_entry txs) \<le> entry_size ee (bare_entry (pre @ txs @ post))"
begin

lemma entry_size_bare: "entry_size ee e = entry_size ee (bare_entry (transactions e))"
  by (cases e) (simp only: entry.simps, rule size_fixed)

lemma will_fit_part: "will_fit ee (pre @ txs @ post) \<Longrightarrow> will_fit ee txs"
  using size_mono [of txs pre post] by (simp add: will_fit_def)

lemma will_fit_append: "will_fit ee (txs @ txs') \<Longrightarrow> will_fit ee txs"
  using will_fit_part [of "[]" txs txs'] by simp

lemma will_fit_member: "will_fit ee txs \<Longrightarrow> tx \<in> set txs \<Longrightarrow> will_fit ee [tx]"
  by (metis append_Cons append_Nil split_list will_fit_part)

lemma will_fit_take: "will_fit ee (take n txs) \<Longrightarrow> m \<le> n \<Longrightarrow> will_fit ee (take m txs)"
  using will_fit_append [of "take m txs" "drop m (take n txs)"]
  by (metis append_take_drop_id min.absorb1 take_take)

lemma will_fit_iff: "will_fit ee txs \<longleftrightarrow>
    entry_size ee \<lparr>num_hashes = n, entry_id = h, transactions = txs\<rparr> \<le> BLOB_DATA_SIZE"
  by (simp add: will_fit_def size_fixed [of n h])

lemma Entry_new_fits:
  "Entry_new ee h n txs =
     (if will_fit ee txs
      then Some \<lparr>num_hashes = n + (if txs = [] then 0 else 1), entry_id = next_hash ee h 0 txs,
                 transactions = txs\<rparr>
      else None)"
  by (auto simp: Entry_new_def Let_def will_fit_iff [of txs "n + (if txs = [] then 0 else 1)"
        "next_hash ee h 0 txs"])

lemma Entry_new_mut_fits:
  "Entry_new_mut ee h n txs =
     (if will_fit ee txs
      then Some (\<lparr>num_hashes = n + (if txs = [] then 0 else 1), entry_id = next_hash ee h 0 txs,
                 transactions = txs\<rparr>, next_hash ee h 0 txs, 0)
      else None)"
  by (simp add: Entry_new_mut_def Entry_new_fits will_fit_iff [symmetric])

lemma num_will_fit_maximal:
  assumes "txs \<noteq> []" "will_fit ee [hd txs]"
  shows "\<exists>n. num_will_fit ee txs = Some n \<and> 0 < n \<and> n \<le> length txs \<and> will_fit ee (take n txs) \<and>
    (\<forall>m \<le> length txs. will_fit ee (take m txs) \<longrightarrow> m \<le> n)"
proof -
  let ?fits = "\<lambda>n. will_fit ee (take n txs)"
  have one: "?fits 1" using assms by (cases txs) simp_all
  have "\<exists>n. fit_search ?fits (length txs) (length txs) 1 = Some n \<and> ?fits n \<and> 1 \<le> n \<and>
      n \<le> length txs \<and> (\<forall>m \<le> length txs. ?fits m \<longrightarrow> m \<le> n)"
    using assms(1) one by (intro fit_search_maximal) (auto intro: will_fit_take simp: Suc_leI)
  then show ?thesis using assms(1) by (auto simp: num_will_fit_def Suc_le_eq)
qed

lemma chunk_end_maximal:
  assumes "cs < length txs" "will_fit ee []"
  shows "\<exists>n. fit_search (\<lambda>e. will_fit ee (take (e - cs) (drop cs txs))) (length txs) (length txs) cs = Some n \<and>
    cs \<le> n \<and> n \<le> length txs \<and> will_fit ee (take (n - cs) (drop cs txs)) \<and>
    (\<forall>m \<le> length txs. will_fit ee (take (m - cs) (drop cs txs)) \<longrightarrow> m \<le> n)"
proof -
  let ?fits = "\<lambda>e. will_fit ee (take (e - cs) (drop cs txs))"
  have "\<exists>n. fit_search ?fits (length txs) (length txs) cs = Some n \<and> ?fits n \<and> cs \<le> n \<and>
      n \<le> length txs \<and> (\<forall>m \<le> length txs. ?fits m \<longrightarrow> m \<le> n)"
    using assms by (intro fit_search_maximal) (auto intro: will_fit_take)
  then show ?thesis by blast
qed

text \<open>When every transaction fits on its own, the loop ends and cuts the list into entries.\<close>

lemma next_entries_loop_cuts:
  assumes "\<And>tx. tx \<in> set txs \<Longrightarrow> will_fit ee [tx]" and "cs \<le> length txs"
  shows "\<exists>es h n. next_entries_loop ee txs cs start num = Some (Some (es, h, n)) \<and>
    concat (map transactions es) = drop cs txs \<and>
    (\<forall>e \<in> set es. entry_size ee e \<le> BLOB_DATA_SIZE \<and> transactions e \<noteq> []) \<and>
    (num = 0 \<longrightarrow> list_all (verify_plan (ee_tx ee)) txs \<longrightarrow> block_verify ee es start)"
  using assms(2)
proof (induction "length txs - cs" arbitrary: cs start num rule: less_induct)
  case less
  show ?case
  proof (cases "cs < length txs")
    case False
    then show ?thesis using less.prems by (subst next_entries_loop.simps) simp
  next
    case True
    have one: "will_fit ee [txs ! cs]" using assms(1) True by simp
    then have empty: "will_fit ee []" using will_fit_append [of "[]"] by simp
    obtain n where n: "fit_search (\<lambda>e. will_fit ee (take (e - cs) (drop cs txs)))
          (length txs) (length txs) cs = Some n"
        "cs \<le> n" "n \<le> length txs" "will_fit ee (take (n - cs) (drop cs txs))"
      and max: "\<And>m. m \<le> length txs \<Longrightarrow> will_fit ee (take (m - cs) (drop cs txs)) \<Longrightarrow> m \<le> n"
      using chunk_end_maximal [OF True empty] by blast
    have "take 1 (drop cs txs) = [txs ! cs]" using True by (simp add: take_Suc_conv_app_nth)
    then have "cs < n" using max [of "Suc cs"] one True by simp
    let ?chunk = "take (n - cs) (drop cs txs)"
    let ?e = "\<lparr>num_hashes = num + 1, entry_id = next_hash ee start 0 ?chunk, transactions = ?chunk\<rparr>"
    have chunk: "?chunk \<noteq> []" using \<open>cs < n\<close> True by simp
    have mut: "Entry_new_mut ee start num ?chunk = Some (?e, next_hash ee start 0 ?chunk, 0)"
      using n(4) chunk by (simp add: Entry_new_mut_fits)
    obtain es h k where rest: "next_entries_loop ee txs n (next_hash ee start 0 ?chunk) 0 = Some (Some (es, h, k))"
      "concat (map transactions es) = drop n txs"
      "\<forall>e \<in> set es. entry_size ee e \<le> BLOB_DATA_SIZE \<and> transactions e \<noteq> []"
      "list_all (verify_plan (ee_tx ee)) txs \<longrightarrow> block_verify ee es (next_hash ee start 0 ?chunk)"
      using less.hyps [OF diff_less_mono2 [OF \<open>cs < n\<close> True] n(3), of "next_hash ee start 0 ?chunk" 0]
      by auto
    have "next_entries_loop ee txs cs start num = Some (Some (?e # es, h, k))"
      using True n(1) mut rest(1) by (subst next_entries_loop.simps) simp
    moreover have "?chunk @ drop n txs = drop cs txs"
      using n(2) by (metis append_take_drop_id drop_drop le_add_diff_inverse2)
    moreover have "entry_size ee ?e \<le> BLOB_DATA_SIZE"
      using n(4) will_fit_iff by simp
    moreover have "num = 0 \<longrightarrow> list_all (verify_plan (ee_tx ee)) txs \<longrightarrow> entry_verify ee ?e start"
      using chunk next_hash_0_1 [OF chunk]
      by (auto simp: entry_verify_def list_all_iff dest!: in_set_takeD in_set_dropD)
    ultimately show ?thesis using rest chunk by auto
  qed
qed

text \<open>A transaction that does not fit on its own: the loop cuts empty entries forever.\<close>

lemma next_entries_loop_stuck:
  assumes "cs \<le> i" "i < length txs" "\<not> will_fit ee [txs ! i]" "will_fit ee []"
  shows "next_entries_loop ee txs cs start num = None"
proof (rule ccontr)
  assume "next_entries_loop ee txs cs start num \<noteq> None"
  then obtain r where "next_entries_loop ee txs cs start num = Some r" by blast
  then have "ee = ee \<and> txs = txs \<and> cs \<le> i \<longrightarrow> False"
  proof (rule next_entries_loop.raw_induct [where
        P = "\<lambda>e t c s n y. e = ee \<and> t = txs \<and> c \<le> i \<longrightarrow> False", rotated])
    fix loop ee' txs' cs' start' num' r'
    assume IH: "\<And>e t c s n y. loop e t c s n = Some y \<Longrightarrow> e = ee \<and> t = txs \<and> c \<le> i \<longrightarrow> False"
      and body: "(if cs' < length txs'
        then fit_search (\<lambda>e. will_fit ee' (take (e - cs') (drop cs' txs'))) (length txs') (length txs') cs' \<bind>
          (\<lambda>chunk_end. case Entry_new_mut ee' start' num' (take (chunk_end - cs') (drop cs' txs')) of
              None \<Rightarrow> Some None
            | Some (e, h, n) \<Rightarrow> loop ee' txs' chunk_end h n \<bind>
                (\<lambda>rest. Some (map_option (\<lambda>(es, h, n). (e # es, h, n)) rest)))
        else Some (Some ([], start', num'))) = Some r'"
    show "ee' = ee \<and> txs' = txs \<and> cs' \<le> i \<longrightarrow> False"
    proof
      assume eqs: "ee' = ee \<and> txs' = txs \<and> cs' \<le> i"
      then have lt: "cs' < length txs" using assms(2) by simp
      obtain n where n: "fit_search (\<lambda>e. will_fit ee (take (e - cs') (drop cs' txs)))
            (length txs) (length txs) cs' = Some n"
          "cs' \<le> n" "will_fit ee (take (n - cs') (drop cs' txs))"
        using chunk_end_maximal [OF lt assms(4)] by blast
      have "n \<le> i"
      proof (rule ccontr)
        assume "\<not> n \<le> i"
        then have "txs ! i \<in> set (take (n - cs') (drop cs' txs))"
          using eqs assms(2) by (auto simp: in_set_conv_nth intro!: exI [of _ "i - cs'"])
        then show False using will_fit_member [OF n(3)] assms(3) by blast
      qed
      then show False
        using body eqs lt n IH by (auto simp: Entry_new_mut_fits bind_eq_Some_conv)
    qed
  qed
  then show False using assms(1) by blast
qed

text \<open>Entries survive the trip through blobs.\<close>

lemma entry_to_blob_whole:
  assumes "entry_size ee e \<le> BLOB_DATA_SIZE"
  obtains b where "entry_to_blob ee (Some i) (Some k) (Some a) e = Some b" "blob_wf b"
    "get_index b = Some i" "get_id (ee_pubkey ee) b = Some (Some k)" "get_flags b = Some 0"
    "get_size b = Some (Inr (of_nat (entry_size ee e)))"
    "blob_payload b = Some (enc (ee_entry ee) e @ replicate (BLOB_SIZE - 64 - entry_size ee e) 0)"
proof -
  let ?bytes = "enc (ee_entry ee) e"
  have len: "64 + length ?bytes \<le> BLOB_SIZE"
    using assms by (simp add: entry_size_def BLOB_DATA_SIZE_def BLOB_HEADER_SIZE_eq BLOB_SIZE_def)
  obtain d where d: "overwrite 64 ?bytes (blob_data Blob_default) = Some d"
    using len by (auto simp: overwrite_def Blob_default_def)
  let ?b0 = "Blob_default\<lparr>blob_data := d\<rparr>"
  have wf0: "blob_wf ?b0"
    using overwrite_length [OF d] by (simp add: blob_wf_def Blob_default_def)
  have pay0: "blob_payload ?b0 = Some (?bytes @ replicate (BLOB_SIZE - 64 - length ?bytes) 0)"
    using d len wf0 by (auto simp: blob_payload_def subslice_def overwrite_def BLOB_HEADER_SIZE_eq
        blob_wf_def Blob_default_def split: if_splits)
  obtain b1 b2 b3 where w: "set_size (of_nat (length ?bytes)) ?b0 = Some b1" "set_index i b1 = Some b2"
      "set_id (ee_pubkey ee) k b2 = Some b3"
    and f: "get_index b3 = Some i" "get_id (ee_pubkey ee) b3 = Some (Some k)"
      "get_data_size b3 = Some (of_nat (length ?bytes) + 64)"
      "blob_meta b3 = (blob_meta ?b0)\<lparr>meta_size := of_nat (length ?bytes) + 64\<rparr>"
      "blob_payload b3 = blob_payload ?b0" "blob_wf b3"
    by (rule header_write_size_index_id [OF sender_codec wf0])
  let ?b4 = "b3\<lparr>blob_meta := Meta_set_addr a (blob_meta b3)\<rparr>"
  have wf4: "blob_wf ?b4" using f(6) by (simp add: blob_wf_def)
  have same: "get_index ?b4 = get_index b3" "get_id pk ?b4 = get_id pk b3"
    "get_data_size ?b4 = get_data_size b3" "blob_payload ?b4 = blob_payload b3"
    "meta_size (blob_meta ?b4) = meta_size (blob_meta b3)" for pk
    by (cases a; simp add: get_index_def get_id_def get_data_size_def blob_payload_def)+
  obtain b5 where b5: "set_flags 0 ?b4 = Some b5" "get_flags b5 = Some 0" "blob_wf b5"
    "get_index b5 = get_index ?b4" "get_id (ee_pubkey ee) b5 = get_id (ee_pubkey ee) ?b4"
    "get_size b5 = get_size ?b4" "blob_payload b5 = blob_payload ?b4"
    by (rule set_flags_keeps [OF sender_codec wf4])
  have "get_size b5 = Some (Inr (of_nat (length ?bytes)))"
    using b5(6) same(3,5) f(3,4) by (simp add: get_size_def BLOB_HEADER_SIZE_eq)
  then show thesis
    using that [of b5] w d b5 same f pay0
    by (simp add: entry_to_blob_def BLOB_HEADER_SIZE_eq entry_size_def)
qed

lemma entry_to_blob_payload:
  assumes "entry_size ee e \<le> BLOB_DATA_SIZE"
  obtains b where "entry_to_blob ee (Some i) (Some k) (Some a) e = Some b" "blob_wf b"
    "get_index b = Some i" "get_id (ee_pubkey ee) b = Some (Some k)" "get_flags b = Some 0"
    "get_size b = Some (Inr (of_nat (entry_size ee e)))"
    "blob_payload b \<bind> subslice 0 (entry_size ee e) = Some (enc (ee_entry ee) e)"
proof -
  obtain b where b: "entry_to_blob ee (Some i) (Some k) (Some a) e = Some b" "blob_wf b"
    "get_index b = Some i" "get_id (ee_pubkey ee) b = Some (Some k)" "get_flags b = Some 0"
    "get_size b = Some (Inr (of_nat (entry_size ee e)))"
    "blob_payload b = Some (enc (ee_entry ee) e @ replicate (BLOB_SIZE - 64 - entry_size ee e) 0)"
    by (rule entry_to_blob_whole [OF assms])
  have "blob_payload b \<bind> subslice 0 (entry_size ee e) = Some (enc (ee_entry ee) e)"
    using b(7) by (simp add: subslice_def entry_size_def)
  then show thesis by (rule that [OF b(1-6)])
qed

lemma reconstruct_entry:
  assumes "get_size b = Some (Inr (of_nat (entry_size ee e)))" "entry_size ee e \<le> BLOB_DATA_SIZE"
    and "blob_payload b \<bind> subslice 0 (entry_size ee e) = Some (enc (ee_entry ee) e)"
  shows "reconstruct_entries_from_blobs ee (b # bs) =
    map_option (map_sum (\<lambda>x. x) ((#) e)) (reconstruct_entries_from_blobs ee bs)"
proof -
  have small: "entry_size ee e < 2 ^ 63" using assms(2) by (simp add: BLOB_DATA_SIZE_eq)
  then have "unat (of_nat (entry_size ee e) :: u64) = entry_size ee e"
    by (intro unat_of_nat_small) simp
  moreover have "dec (ee_entry ee) (enc (ee_entry ee) e) = Some e"
    using small by (intro bincode_codec.dec_enc [OF entry_codec]) (simp add: entry_size_def)
  ultimately show ?thesis
    using assms(1,3) by (auto simp: bind_eq_Some_conv map_option_bind)
qed

lemma blobs_round_trip:
  assumes "\<forall>e \<in> set es. entry_size ee e \<le> BLOB_DATA_SIZE"
  shows "\<exists>bs. sequence_panics (map (\<lambda>(i, e). entry_to_blob ee (Some (start + of_nat i)) (Some k) (Some a) e)
        (enumerate n es)) = Some bs \<and>
      map get_index bs = map (\<lambda>i. Some (start + of_nat i)) [n ..< n + length es] \<and>
      list_all (\<lambda>b. get_id (ee_pubkey ee) b = Some (Some k)) bs \<and>
      reconstruct_entries_from_blobs ee bs = Some (Inr es)"
  using assms
proof (induction es arbitrary: n)
  case (Cons e es)
  obtain b where b: "entry_to_blob ee (Some (start + of_nat n)) (Some k) (Some a) e = Some b"
    "get_index b = Some (start + of_nat n)" "get_id (ee_pubkey ee) b = Some (Some k)"
    "get_size b = Some (Inr (of_nat (entry_size ee e)))"
    "blob_payload b \<bind> subslice 0 (entry_size ee e) = Some (enc (ee_entry ee) e)"
    using entry_to_blob_payload Cons.prems by (metis list.set_intros(1))
  obtain bs where "sequence_panics (map (\<lambda>(i, e). entry_to_blob ee (Some (start + of_nat i)) (Some k) (Some a) e)
        (enumerate (Suc n) es)) = Some bs"
      "map get_index bs = map (\<lambda>i. Some (start + of_nat i)) [Suc n ..< Suc n + length es]"
      "list_all (\<lambda>b. get_id (ee_pubkey ee) b = Some (Some k)) bs"
      "reconstruct_entries_from_blobs ee bs = Some (Inr es)"
    using Cons.IH [of "Suc n"] Cons.prems by auto
  moreover have "[n ..< n + length (e # es)] = n # [Suc n ..< Suc n + length es]"
    by (simp add: upt_conv_Cons del: upt_Suc)
  ultimately show ?case
    using b Cons.prems reconstruct_entry [OF b(4) _ b(5)]
    by (simp del: reconstruct_entries_from_blobs.simps(2) upt_Suc)
qed simp

end

section \<open>On the wire\<close>

definition entry_wire :: "entry wire" where
  "entry_wire = iso_wire (\<lambda>(n, h, txs). \<lparr>num_hashes = n, entry_id = h, transactions = txs\<rparr>)
     (\<lambda>e. (num_hashes e, entry_id e, transactions e))
     (pair_wire u64_wire (pair_wire hash_wire (list_wire transaction_wire)))"

definition bincode_entry_ext :: "(bytes \<Rightarrow> hash) \<Rightarrow> entry_ext" where
  "bincode_entry_ext sha = \<lparr>ee_sha = sha, ee_tx = bincode_tx_ext, ee_entry = codec_of entry_wire,
     ee_pubkey = codec_of pubkey_wire\<rparr>"

lemma bincode_entry_ext_sel [simp]:
  "ee_sha (bincode_entry_ext sha) = sha" "ee_tx (bincode_entry_ext sha) = bincode_tx_ext"
  "ee_entry (bincode_entry_ext sha) = codec_of entry_wire"
  "ee_pubkey (bincode_entry_ext sha) = codec_of pubkey_wire"
  by (simp_all add: bincode_entry_ext_def)

lemma entry_wire_format: "wire_format entry_wire"
  unfolding entry_wire_def by (intro wire_rules key_wire_formats transaction_wire_format) simp

lemma entry_wire_size:
  "entry_size (bincode_entry_ext sha) \<lparr>num_hashes = n, entry_id = h, transactions = txs\<rparr> =
     48 + length (concat (map (put transaction_wire) txs))"
  by (simp add: entry_size_def entry_wire_def iso_wire_def pair_wire_def hash_wire_def list_wire_def)

lemma bincode_entry_codecs: "entry_codecs (bincode_entry_ext sha)"
proof (rule entry_codecs.intro)
  show "bincode_codec (ee_entry (bincode_entry_ext sha))"
    by (simp add: codec_of_bincode entry_wire_format)
  show "fixed_codec (ee_pubkey (bincode_entry_ext sha)) 32" by (simp add: pubkey_wire_fixed)
qed (simp_all add: entry_wire_size)

interpretation bincode_entries: entry_codecs "bincode_entry_ext sha" for sha
  by (rule bincode_entry_codecs)

section \<open>What entries and blocks promise\<close>

text \<open>C25: whatever sequence of hashes, recordings and ticks a chain goes through, the entries it hands out
  pass the step-by-step check from the chain's first hash.\<close>

theorem recorded_chain_verifies:
  assumes "length ops < 2 ^ 64"
  shows "pod_verify sha h (pod_run sha ops (Pod_new h)) = Some True"
  by (rule pod_run_verifies) (use assms in \<open>simp_all add: Pod_new_def\<close>)

theorem recorded_chain_witness:
  "pod_verify (\<lambda>bs. Hash (le_word bs + 1)) (Hash 0)
     (pod_run (\<lambda>bs. Hash (le_word bs + 1)) [OpHash, OpTick, OpRecord (Hash 7), OpTick] (Pod_new (Hash 0))) =
   Some True"
  by (rule recorded_chain_verifies) simp


lemma sample_tx_fits: "will_fit (bincode_entry_ext sha) [sample_tx]"
  by (simp add: will_fit_def entry_wire_size BLOB_DATA_SIZE_eq transaction_wire_def sample_tx_def
      iso_wire_def pair_wire_def signature_wire_def pubkey_wire_def hash_wire_def list_wire_def bytes_wire_def)


text \<open>A transaction that does not fit in a blob on its own makes the cutting of two or more
  transactions run forever: it keeps producing empty entries.\<close>

theorem oversized_transaction_diverges:
  assumes "entry_codecs ee" and "2 \<le> length txs" and "tx \<in> set txs" and "\<not> will_fit ee [tx]"
    and "will_fit ee []"
  shows "next_entries ee start num txs = None"
proof -
  obtain i where "i < length txs" "txs ! i = tx" using assms(3) by (auto simp: in_set_conv_nth)
  then have "next_entries_loop ee txs 0 start num = None"
    using assms by (intro entry_codecs.next_entries_loop_stuck [OF assms(1)]) auto
  then show ?thesis using assms(2) by (simp add: next_entries_def next_entries_mut_def)
qed

definition oversized_tx :: transaction where
  "oversized_tx = sample_tx\<lparr>tx_userdata := replicate BLOB_DATA_SIZE 0\<rparr>"

theorem oversized_transaction_witness:
  "next_entries (bincode_entry_ext (\<lambda>bs. Hash (le_word bs))) (Hash 0) 0 [sample_tx, oversized_tx] = None"
proof (rule oversized_transaction_diverges [OF bincode_entry_codecs, of _ oversized_tx])
  have "concat (map (\<lambda>x. [f x]) xs) = map f xs" for f :: "u8 \<Rightarrow> u8" and xs
    by (induction xs) auto
  then have "length (concat (map (put u8_wire) (replicate n 0))) = n" for n
    by (simp add: numeral_eq_Suc)
  then show "\<not> will_fit (bincode_entry_ext (\<lambda>bs. Hash (le_word bs))) [oversized_tx]"
    by (simp add: will_fit_def entry_wire_size BLOB_DATA_SIZE_eq transaction_wire_def oversized_tx_def
      sample_tx_def iso_wire_def pair_wire_def signature_wire_def pubkey_wire_def hash_wire_def
      list_wire_def bytes_wire_def)
qed (simp_all add: will_fit_def entry_wire_size BLOB_DATA_SIZE_eq)

text \<open>\<open>num_will_fit\<close> terminates with the largest number of leading transactions that fit in a blob,
  when the first one does.\<close>

theorem num_will_fit_is_maximal:
  assumes "entry_codecs ee" and "txs \<noteq> []" and "will_fit ee [hd txs]"
  shows "\<exists>n. num_will_fit ee txs = Some n \<and> 0 < n \<and> n \<le> length txs \<and> will_fit ee (take n txs) \<and>
    (\<forall>m \<le> length txs. will_fit ee (take m txs) \<longrightarrow> m \<le> n)"
  by (rule entry_codecs.num_will_fit_maximal [OF assms])

theorem num_will_fit_witness:
  "\<exists>n. num_will_fit (bincode_entry_ext (\<lambda>bs. Hash (le_word bs))) [sample_tx, oversized_tx] = Some n \<and> 0 < n"
  using num_will_fit_is_maximal [OF bincode_entry_codecs, of "[sample_tx, oversized_tx]"
      "\<lambda>bs. Hash (le_word bs)"]
  by (auto simp: sample_tx_fits)

text \<open>C26: entries that fit in blobs come back from their blobs: the blobs are numbered from the given
  index, carry the sender, and reconstruct to exactly the entries.\<close>

theorem entries_survive_blobs:
  assumes "entry_codecs ee" and "\<forall>e \<in> set es. entry_size ee e \<le> BLOB_DATA_SIZE"
  shows "\<exists>bs. to_blobs_with_id ee k start a es = Some bs \<and>
    map get_index bs = map (\<lambda>i. Some (start + of_nat i)) [0 ..< length es] \<and>
    list_all (\<lambda>b. get_id (ee_pubkey ee) b = Some (Some k)) bs \<and>
    reconstruct_entries_from_blobs ee bs = Some (Inr es)"
  using entry_codecs.blobs_round_trip [OF assms, of start k a 0] by (simp add: to_blobs_with_id_def)

theorem entries_survive_witness:
  "\<exists>bs. to_blobs_with_id (bincode_entry_ext (\<lambda>bs. Hash (le_word bs))) (Pubkey 1) 5 (SockV4 127 0 0 1 80)
      [new_tick 3 (Hash 4), new_tick 1 (Hash 5)] = Some bs \<and>
    map get_index bs = [Some 5, Some 6] \<and>
    list_all (\<lambda>b. get_id (codec_of pubkey_wire) b = Some (Some (Pubkey 1))) bs \<and>
    reconstruct_entries_from_blobs (bincode_entry_ext (\<lambda>bs. Hash (le_word bs))) bs =
      Some (Inr [new_tick 3 (Hash 4), new_tick 1 (Hash 5)])"
  using entries_survive_blobs [OF bincode_entry_codecs, of "[new_tick 3 (Hash 4), new_tick 1 (Hash 5)]"
      "\<lambda>bs. Hash (le_word bs)" "Pubkey 1" 5 "SockV4 127 0 0 1 80"]
  by (simp add: new_tick_def entry_wire_size BLOB_DATA_SIZE_eq)

text \<open>An entry made by \<open>Entry::new\<close> with transactions and a count of zero verifies; an entry
  without transactions and a positive count verifies only if hashing that often leads back to the
  start, because its id is computed with a count of zero.\<close>

theorem entry_new_verifies_iff:
  assumes "Entry_new ee start num txs = Some e" and "list_all (verify_plan (ee_tx ee)) txs"
  shows "(txs \<noteq> [] \<longrightarrow> num = 0 \<longrightarrow> entry_verify ee e start) \<and>
    (txs = [] \<longrightarrow> (entry_verify ee e start \<longleftrightarrow> hash_iter (ee_sha ee) (unat num) start = start))"
proof -
  have e: "e = \<lparr>num_hashes = num + (if txs = [] then 0 else 1),
      entry_id = next_hash ee start 0 txs, transactions = txs\<rparr>"
    using assms(1) by (auto simp: Entry_new_def Let_def split: if_splits)
  show ?thesis
    using assms(2) by (auto simp: e entry_verify_def next_hash_0_1) (auto simp: next_hash_eq)
qed

theorem entry_new_verifies_witness:
  "\<not> entry_verify (bincode_entry_ext (\<lambda>bs. Hash (le_word bs + 1)))
      \<lparr>num_hashes = 1, entry_id = Hash 0, transactions = []\<rparr> (Hash 0)"
proof -
  have "Entry_new (bincode_entry_ext (\<lambda>bs. Hash (le_word bs + 1))) (Hash 0) 1 [] =
      Some \<lparr>num_hashes = 1, entry_id = Hash 0, transactions = []\<rparr>"
    by (simp add: Entry_new_def entry_wire_size BLOB_DATA_SIZE_eq next_hash_eq)
  from entry_new_verifies_iff [OF this] show ?thesis
    by (simp add: hash_one_eq le_round_trip)
qed

text \<open>A datagram shorter than the blob header whose stored size agrees with its length crashes the
  reconstruction of entries: the wrapped-around size is used as a slice bound.\<close>

theorem short_blob_crashes_reconstruction:
  assumes "blob_wf b" and "get_data_size b = Some sz" and "meta_size (blob_meta b) = sz" and "sz < 64"
  shows "reconstruct_entries_from_blobs ee (b # bs) = None"
proof -
  have "get_size b = Some (Inr (sz - 64))" "BLOB_SIZE < unat (sz - 64)"
    using short_blob_size_wraps [OF assms(2-4)] by simp_all
  moreover have "\<exists>pl. blob_payload b = Some pl \<and> length pl \<le> BLOB_SIZE"
    using assms(1) by (simp add: blob_payload_def subslice_def blob_wf_def BLOB_HEADER_SIZE_eq BLOB_SIZE_def)
  ultimately show ?thesis by (auto simp: subslice_def)
qed

theorem short_blob_crash_witness:
  "reconstruct_entries_from_blobs (bincode_entry_ext (\<lambda>bs. Hash (le_word bs))) [Blob_default] = None"
  by (rule short_blob_crashes_reconstruction [OF Blob_default_wf Blob_default_data_size])
    (simp_all add: Blob_default_def Meta_default_def)

end
