(* ===== verification/Transaction_Processor.thy ===== *)
theory Transaction_Processor
  imports Programs Entries
begin

text \<open>
  The transaction processor (src/transaction_processor.rs): the accounts, the recent entry ids with the
  signatures seen under each, and the pipeline that loads, executes, checks and stores transactions.

  The fields behind \<open>RwLock\<close>s and atomics are fields of the record \<open>tp\<close>, threaded through every
  operation; an operation that returns \<open>Err\<close> still returns the state as it stands then.  Counters
  that are only reported to the metrics are left out.

  Parameters (\<open>tp_ext\<close>): bincode, SHA-256, the shared-library loader, the clock (the value of its
  n-th reading; \<open>clock_reads\<close> counts readings), and the two tic-tac-toe programs, whose sources are
  not part of the repository.  A program works on a slice of accounts, so it cannot change their
  number; \<open>write_back\<close> says so.
\<close>

section \<open>Data\<close>

datatype tp_error =
    AccountNotFound
  | InsufficientFundsForFee
  | DuplicateSignature
  | LastIdNotFound
  | SignatureNotFound
  | LedgerVerificationFailed
  | UnbalancedTransaction
  | ResultWithNegativeTokens
  | UnknownContractId
  | ModifiedContractId
  | ExternalAccountTokenSpend
  | ProgramRuntimeError

type_synonym 'a tp_result = "tp_error + 'a"
type_synonym signature_status_map = "signature \<rightharpoonup> unit tp_result"

record 'lib tp =
  tp_accounts :: "pubkey \<rightharpoonup> account"
  last_ids :: "hash list"
  last_ids_sigs :: "hash \<rightharpoonup> signature_status_map \<times> u64"
  tp_transaction_count :: u64
  is_leader :: bool
  finality_time :: u64
  loaded_contracts :: "'lib loaded"
  clock_reads :: nat

record external_program =
  xp_check_id :: "pubkey \<Rightarrow> bool"
  xp_process :: "transaction \<Rightarrow> account list \<Rightarrow> (account list \<times> bool) panics"

record 'lib tp_ext =
  px_entry :: entry_ext
  px_plan :: fin_plan_ext
  px_storage :: "storage_program codec"
  px_loader :: "'lib loader"
  px_tictactoe :: external_program
  px_dashboard :: external_program
  px_clock :: "nat \<Rightarrow> u64"
  px_accounts :: "(pubkey \<times> account) list codec"

definition MAX_ENTRY_IDS :: nat where "MAX_ENTRY_IDS = 1024 * 16"
definition VERIFY_BLOCK_SIZE :: nat where "VERIFY_BLOCK_SIZE = 16"
definition WINDOW_SIZE :: nat where "WINDOW_SIZE = 2 * 1024"

section \<open>Construction\<close>

definition tp_default :: "'lib tp" where
  "tp_default = \<lparr>tp_accounts = Map.empty, last_ids = [], last_ids_sigs = Map.empty,
     tp_transaction_count = 0, is_leader = True, finality_time = - 1,
     loaded_contracts = Map.empty, clock_reads = 0\<rparr>"

definition tp_new_default :: "bool \<Rightarrow> 'lib tp" where
  "tp_new_default leader = tp_default\<lparr>is_leader := leader\<rparr>"

definition apply_payment :: "payment \<Rightarrow> account \<Rightarrow> account" where
  "apply_payment p a = a\<lparr>tokens := tokens a + pay_tokens p\<rparr>"

definition entry_or_default :: "(pubkey \<rightharpoonup> account) \<Rightarrow> pubkey \<Rightarrow> account" where
  "entry_or_default accs k = (case accs k of Some a \<Rightarrow> a | None \<Rightarrow> Account_default)"

definition tp_new_from_deposit :: "payment \<Rightarrow> 'lib tp" where
  "tp_new_from_deposit deposit =
     tp_default\<lparr>tp_accounts := [pay_to deposit \<mapsto> apply_payment deposit Account_default]\<rparr>"

definition tp_last_id :: "'lib tp \<Rightarrow> hash panics" where
  "tp_last_id st = (if last_ids st = [] then None else Some (last (last_ids st)))"

section \<open>Signatures and entry ids\<close>

definition reserve_signature ::
    "signature_status_map \<Rightarrow> signature \<Rightarrow> signature_status_map \<times> unit tp_result" where
  "reserve_signature sigs sig =
     (if sigs sig \<noteq> None then (sigs, Inl DuplicateSignature)
      else (sigs(sig \<mapsto> Inr ()), Inr ()))"

definition clear_signatures :: "'lib tp \<Rightarrow> 'lib tp" where
  "clear_signatures st = st\<lparr>last_ids_sigs :=
     (\<lambda>h. map_option (\<lambda>(sigs, ts). (Map.empty, ts)) (last_ids_sigs st h))\<rparr>"

definition reserve_signature_with_last_id ::
    "signature \<Rightarrow> hash \<Rightarrow> 'lib tp \<Rightarrow> 'lib tp \<times> unit tp_result" where
  "reserve_signature_with_last_id sig last_id st =
     (case last_ids_sigs st last_id of
        Some (sigs, ts) \<Rightarrow>
          (let (sigs, res) = reserve_signature sigs sig
           in (st\<lparr>last_ids_sigs := (last_ids_sigs st)(last_id \<mapsto> (sigs, ts))\<rparr>, res))
      | None \<Rightarrow> (st, Inl LastIdNotFound))"

definition update_signature_status ::
    "signature_status_map \<Rightarrow> signature \<Rightarrow> unit tp_result \<Rightarrow> signature_status_map" where
  "update_signature_status sigs sig res = sigs(sig \<mapsto> res)"

definition update_signature_status_with_last_id ::
    "signature \<Rightarrow> unit tp_result \<Rightarrow> hash \<Rightarrow> 'lib tp \<Rightarrow> 'lib tp" where
  "update_signature_status_with_last_id sig res last_id st =
     (case last_ids_sigs st last_id of
        Some (sigs, ts) \<Rightarrow>
          st\<lparr>last_ids_sigs := (last_ids_sigs st)(last_id \<mapsto> (update_signature_status sigs sig res, ts))\<rparr>
      | None \<Rightarrow> st)"

definition update_transaction_statuses ::
    "transaction list \<Rightarrow> unit tp_result list \<Rightarrow> 'lib tp \<Rightarrow> 'lib tp" where
  "update_transaction_statuses txs res st =
     fold (\<lambda>(tx, r). update_signature_status_with_last_id (tx_signature tx) r (tx_last_id tx)) (zip txs res) st"

definition count_valid_ids :: "hash list \<Rightarrow> 'lib tp \<Rightarrow> (nat \<times> u64) list" where
  "count_valid_ids ids st =
     List.map_filter (\<lambda>(i, h). map_option (\<lambda>(sigs, ts). (i, ts)) (last_ids_sigs st h)) (enumerate 0 ids)"

definition register_entry_id :: "'lib tp_ext \<Rightarrow> hash \<Rightarrow> 'lib tp \<Rightarrow> 'lib tp" where
  "register_entry_id px last_id st =
     (let st = (if MAX_ENTRY_IDS \<le> length (last_ids st)
                then st\<lparr>last_ids_sigs := (last_ids_sigs st)(hd (last_ids st) := None),
                        last_ids := tl (last_ids st)\<rparr>
                else st)
      in st\<lparr>last_ids_sigs := (last_ids_sigs st)(last_id \<mapsto> (Map.empty, px_clock px (clock_reads st))),
            last_ids := last_ids st @ [last_id],
            clock_reads := Suc (clock_reads st)\<rparr>)"

definition tp_new :: "'kp ed25519 \<Rightarrow> (bytes \<Rightarrow> 'kp option) \<Rightarrow> 'lib tp_ext \<Rightarrow> mint \<Rightarrow> 'lib tp panics" where
  "tp_new ring from_pkcs8 px m = do {
     let st = tp_new_from_deposit \<lparr>pay_tokens = mint_tokens m, pay_to = mint_pubkey m\<rparr>;
     h \<leftarrow> mint_last_id ring from_pkcs8 (px_entry px) m;
     Some (register_entry_id px h st) }"

section \<open>Loading\<close>

definition load_account ::
    "transaction \<Rightarrow> (pubkey \<rightharpoonup> account) \<Rightarrow> 'lib tp \<Rightarrow> ('lib tp \<times> account list tp_result) panics" where
  "load_account tx accounts st = do {
     k0 \<leftarrow> get_at (tx_keys tx) 0;
     (case accounts k0 of
        None \<Rightarrow> Some (st, Inl AccountNotFound)
      | Some a0 \<Rightarrow>
          if sint (tokens a0) < sint (tx_fee tx) then Some (st, Inl InsufficientFundsForFee)
          else do {
            let called = map (entry_or_default accounts) (tx_keys tx);
            let (st, res) = reserve_signature_with_last_id (tx_signature tx) (tx_last_id tx) st;
            (case res of
               Inl e \<Rightarrow> Some (st, Inl e)
             | Inr _ \<Rightarrow> do {
                 called \<leftarrow> modify_at 0 (\<lambda>a. a\<lparr>tokens := tokens a - tx_fee tx\<rparr>) called;
                 Some (st, Inr called) }) }) }"

primrec load_accounts ::
    "transaction list \<Rightarrow> (pubkey \<rightharpoonup> account) \<Rightarrow> 'lib tp \<Rightarrow> ('lib tp \<times> account list tp_result list) panics" where
  "load_accounts [] accounts st = Some (st, [])"
| "load_accounts (tx # txs) accounts st = do {
     (st, r) \<leftarrow> load_account tx accounts st;
     (st, rs) \<leftarrow> load_accounts txs accounts st;
     Some (st, r # rs) }"

section \<open>Executing\<close>

definition verify_transaction :: "transaction \<Rightarrow> pubkey \<Rightarrow> i64 \<Rightarrow> account \<Rightarrow> unit tp_result" where
  "verify_transaction tx pre_program_id pre_tokens a =
     (if \<not> (pre_program_id = program_id a \<or>
            SystemProgram_check_id (tx_program_id tx) \<and> SystemProgram_check_id pre_program_id)
      then Inl ModifiedContractId
      else if tx_program_id tx \<noteq> program_id a \<and> sint (tokens a) < sint pre_tokens
      then Inl ExternalAccountTokenSpend
      else if sint (tokens a) < 0 then Inl ResultWithNegativeTokens
      else Inr ())"

definition loaded_contract ::
    "'lib tp_ext \<Rightarrow> transaction \<Rightarrow> account list \<Rightarrow> 'lib loaded \<Rightarrow> (account list \<times> bool) panics" where
  "loaded_contract px tx accs loaded =
     (case loaded (tx_program_id tx) of
        Some dc \<Rightarrow> do {
          accs' \<leftarrow> DynamicProgram_call (px_loader px) dc (zip (tx_keys tx) accs) (tx_userdata tx);
          Some (write_back accs accs', True) }
      | None \<Rightarrow> Some (accs, False))"

text \<open>Which program runs: the accounts and loaded programs after it, and whether it returned \<open>Ok\<close>.\<close>

definition run_program ::
    "'lib tp_ext \<Rightarrow> transaction \<Rightarrow> account list \<Rightarrow> 'lib loaded \<Rightarrow>
       (account list \<times> 'lib loaded \<times> unit tp_result) panics" where
  "run_program px tx accs loaded =
     (let pid = tx_program_id tx in
      if SystemProgram_check_id pid then do {
        (accs, loaded) \<leftarrow> SystemProgram_process_transaction (tc_system (ee_tx (px_entry px))) (px_loader px)
          tx accs loaded;
        Some (accs, loaded, Inr ()) }
      else if FinPlanState_check_id pid then do {
        (accs, r) \<leftarrow> FinPlanState_process_transaction (px_plan px) tx accs;
        Some (accs, loaded, case r of Inl _ \<Rightarrow> Inl ProgramRuntimeError | Inr _ \<Rightarrow> Inr ()) }
      else if StorageProgram_check_id pid then
        (case StorageProgram_process_transaction (px_storage px) tx accs of
           (accs, r) \<Rightarrow> Some (accs, loaded, case r of Inl _ \<Rightarrow> Inl ProgramRuntimeError | Inr _ \<Rightarrow> Inr ()))
      else if xp_check_id (px_tictactoe px) pid then do {
        (accs', ok) \<leftarrow> xp_process (px_tictactoe px) tx accs;
        Some (write_back accs accs', loaded, if ok then Inr () else Inl ProgramRuntimeError) }
      else if xp_check_id (px_dashboard px) pid then do {
        (accs', ok) \<leftarrow> xp_process (px_dashboard px) tx accs;
        Some (write_back accs accs', loaded, if ok then Inr () else Inl ProgramRuntimeError) }
      else do {
        (accs, called) \<leftarrow> loaded_contract px tx accs loaded;
        Some (accs, loaded, if called then Inr () else Inl UnknownContractId) })"

fun first_error :: "unit tp_result list \<Rightarrow> unit tp_result" where
  "first_error [] = Inr ()"
| "first_error (Inl e # rs) = Inl e"
| "first_error (Inr _ # rs) = first_error rs"

text \<open>The checks after the program has run, on the accounts before and after it.\<close>

definition check_accounts :: "transaction \<Rightarrow> account list \<Rightarrow> account list \<Rightarrow> unit tp_result" where
  "check_accounts tx pre post =
     (case first_error (map (\<lambda>(a, a'). verify_transaction tx (program_id a) (tokens a) a') (zip pre post)) of
        Inl e \<Rightarrow> Inl e
      | Inr _ \<Rightarrow> if total_tokens pre \<noteq> total_tokens post then Inl UnbalancedTransaction else Inr ())"

definition execute_transaction ::
    "'lib tp_ext \<Rightarrow> transaction \<Rightarrow> account list \<Rightarrow> 'lib loaded \<Rightarrow>
       (account list \<times> 'lib loaded \<times> unit tp_result) panics" where
  "execute_transaction px tx accs loaded = do {
     (accs', loaded, r) \<leftarrow> run_program px tx accs loaded;
     (case r of
        Inl e \<Rightarrow> Some (accs', loaded, Inl e)
      | Inr _ \<Rightarrow> Some (accs', loaded, check_accounts tx accs accs')) }"

text \<open>Executing the loaded transactions in order; programs loaded by one are there for the next.\<close>

fun execute_all ::
    "'lib tp_ext \<Rightarrow> (account list tp_result \<times> transaction) list \<Rightarrow> 'lib loaded \<Rightarrow>
       (account list tp_result list \<times> 'lib loaded \<times> unit tp_result list) panics" where
  "execute_all px [] loaded = Some ([], loaded, [])"
| "execute_all px ((Inl e, tx) # rest) loaded = do {
     (accs, loaded, rs) \<leftarrow> execute_all px rest loaded;
     Some (Inl e # accs, loaded, Inl e # rs) }"
| "execute_all px ((Inr accs, tx) # rest) loaded = do {
     (accs, loaded, r) \<leftarrow> execute_transaction px tx accs loaded;
     (accss, loaded, rs) \<leftarrow> execute_all px rest loaded;
     Some (Inr accs # accss, loaded, r # rs) }"

section \<open>Storing\<close>

definition store_account :: "pubkey \<times> account \<Rightarrow> (pubkey \<rightharpoonup> account) \<Rightarrow> (pubkey \<rightharpoonup> account)" where
  "store_account = (\<lambda>(k, a) accounts. if tokens a = 0 then accounts(k := None) else accounts(k \<mapsto> a))"

definition store_one ::
    "transaction \<times> unit tp_result \<times> account list tp_result \<Rightarrow> (pubkey \<rightharpoonup> account) \<Rightarrow> (pubkey \<rightharpoonup> account)" where
  "store_one = (\<lambda>(tx, r, racc) accounts.
     case (r, racc) of
       (Inr _, Inr acc) \<Rightarrow> fold store_account (zip (tx_keys tx) acc) accounts
     | _ \<Rightarrow> accounts)"

definition store_accounts ::
    "transaction list \<Rightarrow> unit tp_result list \<Rightarrow> account list tp_result list \<Rightarrow>
       (pubkey \<rightharpoonup> account) \<Rightarrow> (pubkey \<rightharpoonup> account)" where
  "store_accounts txs res loaded accounts = fold store_one (zip txs (zip res loaded)) accounts"

definition process_transactions ::
    "'lib tp_ext \<Rightarrow> transaction list \<Rightarrow> 'lib tp \<Rightarrow> ('lib tp \<times> unit tp_result list) panics" where
  "process_transactions px txs st = do {
     (st, loaded) \<leftarrow> load_accounts txs (tp_accounts st) st;
     (loaded, contracts, res) \<leftarrow> execute_all px (zip loaded txs) (loaded_contracts st);
     let st = st\<lparr>loaded_contracts := contracts,
                 tp_accounts := store_accounts txs res loaded (tp_accounts st)\<rparr>;
     let st = update_transaction_statuses txs res st;
     let tx_count = of_nat (length (filter (\<lambda>r. r = Inr ()) res));
     Some (st\<lparr>tp_transaction_count := tp_transaction_count st + tx_count\<rparr>, res) }"

definition process_transaction ::
    "'lib tp_ext \<Rightarrow> transaction \<Rightarrow> 'lib tp \<Rightarrow> ('lib tp \<times> unit tp_result) panics" where
  "process_transaction px tx st = do {
     (st, res) \<leftarrow> process_transactions px [tx] st;
     r \<leftarrow> get_at res 0;
     Some (st, r) }"

section \<open>Entries and ledgers\<close>

definition process_entry ::
    "'lib tp_ext \<Rightarrow> entry \<Rightarrow> 'lib tp \<Rightarrow> ('lib tp \<times> unit tp_result) panics" where
  "process_entry px e st = do {
     (st, res) \<leftarrow> (if transactions e \<noteq> [] then process_transactions px (transactions e) st else Some (st, []));
     (case first_error res of
        Inl err \<Rightarrow> Some (st, Inl err)
      | Inr _ \<Rightarrow> Some (register_entry_id px (entry_id e) st, Inr ())) }"

fun process_entries_tail ::
    "'lib tp_ext \<Rightarrow> entry list \<Rightarrow> entry list \<Rightarrow> nat \<Rightarrow> 'lib tp \<Rightarrow>
       ('lib tp \<times> entry list \<times> nat \<times> nat tp_result) panics" where
  "process_entries_tail px [] tail tail_idx st = Some (st, tail, tail_idx, Inr 0)"
| "process_entries_tail px (e # es) tail tail_idx st = do {
     let tail = (if tail_idx < length tail then tail[tail_idx := e] else tail @ [e]);
     let tail_idx = (tail_idx + 1) mod WINDOW_SIZE;
     (st, r) \<leftarrow> process_entry px e st;
     (case r of
        Inl err \<Rightarrow> Some (st, tail, tail_idx, Inl err)
      | Inr _ \<Rightarrow> do {
          (st, tail, tail_idx, r) \<leftarrow> process_entries_tail px es tail tail_idx st;
          Some (st, tail, tail_idx, map_sum (\<lambda>x. x) Suc r) }) }"

fun process_entries ::
    "'lib tp_ext \<Rightarrow> entry list \<Rightarrow> 'lib tp \<Rightarrow> ('lib tp \<times> unit tp_result) panics" where
  "process_entries px [] st = Some (st, Inr ())"
| "process_entries px (e # es) st = do {
     (st, r) \<leftarrow> process_entry px e st;
     (case r of Inl err \<Rightarrow> Some (st, Inl err) | Inr _ \<Rightarrow> process_entries px es st) }"

text \<open>The body of the loop over blocks of entries.\<close>

fun process_block_list ::
    "'lib tp_ext \<Rightarrow> hash \<Rightarrow> entry list list \<Rightarrow> nat \<Rightarrow> entry list \<Rightarrow> nat \<Rightarrow> 'lib tp \<Rightarrow>
       ('lib tp \<times> entry list \<times> nat \<times> nat tp_result) panics" where
  "process_block_list px h [] entry_count tail tail_idx st = Some (st, tail, tail_idx, Inr entry_count)"
| "process_block_list px h (block # blocks) entry_count tail tail_idx st =
     (if \<not> block_verify (px_entry px) block h
      then Some (st, tail, tail_idx, Inl LedgerVerificationFailed)
      else do {
        h \<leftarrow> (if block = [] then None else Some (entry_id (last block)));
        (st, tail, tail_idx, r) \<leftarrow> process_entries_tail px block tail tail_idx st;
        (case r of
           Inl err \<Rightarrow> Some (st, tail, tail_idx, Inl err)
         | Inr n \<Rightarrow> process_block_list px h blocks (entry_count + n) tail tail_idx st) })"

definition process_blocks ::
    "'lib tp_ext \<Rightarrow> hash \<Rightarrow> entry list \<Rightarrow> entry list \<Rightarrow> nat \<Rightarrow> 'lib tp \<Rightarrow>
       ('lib tp \<times> entry list \<times> nat \<times> nat tp_result) panics" where
  "process_blocks px start_hash es tail tail_idx st =
     process_block_list px start_hash (chunks VERIFY_BLOCK_SIZE es) tail_idx tail tail_idx st"

definition process_ledger ::
    "'lib tp_ext \<Rightarrow> entry list \<Rightarrow> 'lib tp \<Rightarrow> ('lib tp \<times> (nat \<times> entry list) tp_result) panics" where
  "process_ledger px es st =
     (case es of
        entry0 # entry1 # rest \<Rightarrow> do {
          tx \<leftarrow> get_at (transactions entry1) 0;
          _ \<leftarrow> (if SystemProgram_check_id (tx_program_id tx) then Some () else None);
          inst \<leftarrow> dec (tc_system (ee_tx (px_entry px))) (tx_userdata tx);
          deposit \<leftarrow> (case inst of Move t \<Rightarrow> Some t | _ \<Rightarrow> None);
          k0 \<leftarrow> get_at (tx_keys tx) 0;
          let a = entry_or_default (tp_accounts st) k0;
          let st = st\<lparr>tp_accounts := (tp_accounts st)(k0 \<mapsto> a\<lparr>tokens := tokens a + deposit\<rparr>)\<rparr>;
          let st = register_entry_id px (entry_id entry0) st;
          let st = register_entry_id px (entry_id entry1) st;
          (st, tail, tail_idx, r) \<leftarrow> process_blocks px (entry_id entry1) rest [entry0, entry1] 2 st;
          (case r of
             Inl err \<Rightarrow> Some (st, Inl err)
           | Inr entry_count \<Rightarrow>
               Some (st, Inr (entry_count,
                 if length tail = WINDOW_SIZE then rotate tail_idx tail else tail))) }
      | _ \<Rightarrow> None)"

section \<open>Transfers and queries\<close>

definition tp_transfer ::
    "'kp ed25519 \<Rightarrow> 'lib tp_ext \<Rightarrow> i64 \<Rightarrow> 'kp \<Rightarrow> pubkey \<Rightarrow> hash \<Rightarrow> 'lib tp \<Rightarrow>
       ('lib tp \<times> signature tp_result) panics" where
  "tp_transfer ring px n keypair to_key last_id st = do {
     tx \<leftarrow> system_new ring (ee_tx (px_entry px)) keypair to_key n last_id;
     (st, r) \<leftarrow> process_transaction px tx st;
     Some (st, map_sum (\<lambda>x. x) (\<lambda>_. tx_signature tx) r) }"

definition read_balance :: "'lib tp_ext \<Rightarrow> account \<Rightarrow> i64" where
  "read_balance px a =
     (if SystemProgram_check_id (program_id a) then SystemProgram_get_balance a
      else if FinPlanState_check_id (program_id a) then FinPlanState_get_balance (px_plan px) a
      else tokens a)"

definition get_account :: "pubkey \<Rightarrow> 'lib tp \<Rightarrow> account option" where
  "get_account k st = tp_accounts st k"

definition get_balance :: "'lib tp_ext \<Rightarrow> pubkey \<Rightarrow> 'lib tp \<Rightarrow> i64" where
  "get_balance px k st = (case get_account k st of Some a \<Rightarrow> read_balance px a | None \<Rightarrow> 0)"

text \<open>\<open>order\<close> is the order in which the hash map of entry ids is iterated.\<close>

fun find_signature :: "hash list \<Rightarrow> signature \<Rightarrow> 'lib tp \<Rightarrow> unit tp_result option" where
  "find_signature [] sig st = None"
| "find_signature (h # order) sig st =
     (case last_ids_sigs st h of
        Some (sigs, ts) \<Rightarrow> (case sigs sig of Some r \<Rightarrow> Some r | None \<Rightarrow> find_signature order sig st)
      | None \<Rightarrow> find_signature order sig st)"

definition get_signature_status :: "hash list \<Rightarrow> signature \<Rightarrow> 'lib tp \<Rightarrow> unit tp_result" where
  "get_signature_status order sig st =
     (case find_signature order sig st of Some r \<Rightarrow> r | None \<Rightarrow> Inl SignatureNotFound)"

definition has_signature :: "hash list \<Rightarrow> signature \<Rightarrow> 'lib tp \<Rightarrow> bool" where
  "has_signature order sig st \<longleftrightarrow> get_signature_status order sig st \<noteq> Inl SignatureNotFound"

text \<open>The accounts in key order, as the \<open>BTreeMap\<close> serializes them.\<close>

definition hash_internal_state :: "'lib tp_ext \<Rightarrow> 'lib tp \<Rightarrow> hash" where
  "hash_internal_state px st =
     hash_one (ee_sha (px_entry px)) (enc (px_accounts px)
       (map (\<lambda>k. (k, the (tp_accounts st k))) (sorted_list_of_set (dom (tp_accounts st)))))"

definition set_finality :: "u64 \<Rightarrow> 'lib tp \<Rightarrow> 'lib tp" where
  "set_finality f st = st\<lparr>finality_time := f\<rparr>"

end
