(* ===== verification/Processor_Safety.thy ===== *)
theory Processor_Safety
  imports Transaction_Processor
begin

text \<open>
  What the transaction processor guarantees about tokens: the checks behind a transaction that returns
  \<open>Ok\<close>, the supply across a batch, and non-negative balances.  The last section states what the
  guarantees do not cover, as theorems about the runs that get past them.
\<close>

section \<open>Executing\<close>

lemma first_error_Ok: "first_error rs = Inr () \<longleftrightarrow> (\<forall>r \<in> set rs. r = Inr ())"
  by (induction rs rule: first_error.induct) auto

lemma loaded_contract_length:
  "loaded_contract px tx accs loaded = Some (accs', b) \<Longrightarrow> length accs' = length accs"
  by (auto simp: loaded_contract_def bind_eq_Some_conv split: option.splits)

lemma run_program_length:
  assumes "run_program px tx accs loaded = Some (accs', loaded', r)"
  shows "length accs' = length accs"
  using assms
  by (auto simp: run_program_def Let_def bind_eq_Some_conv StorageProgram_process_transaction_def
      dest: system_run.run_length fin_plan_run.run_length loaded_contract_length
      split: if_splits option.splits storage_program.splits)

lemma execute_transaction_cases:
  assumes "execute_transaction px tx accs loaded = Some (accs', loaded', r)"
  obtains (failed) e where "run_program px tx accs loaded = Some (accs', loaded', Inl e)" "r = Inl e"
  | (ran) "run_program px tx accs loaded = Some (accs', loaded', Inr ())"
      "r = check_accounts tx accs accs'"
proof -
  obtain m l r0 where run: "run_program px tx accs loaded = Some (m, l, r0)"
    using assms by (auto simp: execute_transaction_def bind_eq_Some_conv)
  show thesis
  proof (cases r0)
    case (Inl e)
    then have "m = accs' \<and> l = loaded' \<and> r = Inl e"
      using assms run by (auto simp: execute_transaction_def)
    then show thesis using run Inl failed by metis
  next
    case (Inr u)
    then have "m = accs' \<and> l = loaded' \<and> r = check_accounts tx accs m"
      using assms run by (auto simp: execute_transaction_def)
    then show thesis using run Inr ran by (metis old.unit.exhaust)
  qed
qed

lemma execute_transaction_length:
  assumes "execute_transaction px tx accs loaded = Some (accs', loaded', r)"
  shows "length accs' = length accs"
  using assms by (cases rule: execute_transaction_cases) (metis run_program_length)+

lemma check_accounts_ok:
  assumes "check_accounts tx pre post = Inr ()"
  shows "total_tokens post = total_tokens pre"
    and "(a, a') \<in> set (zip pre post) \<Longrightarrow> verify_transaction tx (program_id a) (tokens a) a' = Inr ()"
proof -
  let ?errs = "first_error (map (\<lambda>(a, a'). verify_transaction tx (program_id a) (tokens a) a') (zip pre post))"
  have ok: "?errs = Inr ()" using assms unit_result_cases [of ?errs] by (auto simp: check_accounts_def)
  then show "total_tokens post = total_tokens pre"
    using assms by (simp add: check_accounts_def split: if_splits)
  show "verify_transaction tx (program_id a) (tokens a) a' = Inr ()" if "(a, a') \<in> set (zip pre post)"
    using ok that unfolding first_error_Ok by force
qed

lemma execute_transaction_ok:
  assumes "execute_transaction px tx accs loaded = Some (accs', loaded', Inr ())"
  shows "total_tokens accs' = total_tokens accs"
    and "\<And>i. i < length accs \<Longrightarrow>
      verify_transaction tx (program_id (accs ! i)) (tokens (accs ! i)) (accs' ! i) = Inr ()"
proof -
  have len: "length accs' = length accs" by (rule execute_transaction_length) fact
  have ok: "check_accounts tx accs accs' = Inr ()"
    using assms by (cases rule: execute_transaction_cases) simp_all
  show "total_tokens accs' = total_tokens accs" by (rule check_accounts_ok) fact
  show "verify_transaction tx (program_id (accs ! i)) (tokens (accs ! i)) (accs' ! i) = Inr ()"
    if "i < length accs" for i
    using that len by (intro check_accounts_ok(2) [OF ok]) (auto simp: in_set_zip)
qed

lemma verify_transaction_ok:
  "verify_transaction tx pid t a = Inr () \<longleftrightarrow>
     (pid = program_id a \<or> tx_program_id tx = SystemProgram_id \<and> pid = SystemProgram_id) \<and>
     (tx_program_id tx = program_id a \<or> sint t \<le> sint (tokens a)) \<and> 0 \<le> sint (tokens a)"
  by (auto simp: verify_transaction_def SystemProgram_check_id_iff)

section \<open>The supply\<close>

text \<open>The tokens of an account, zero when there is none, and the sum over all accounts.\<close>

definition tok :: "(pubkey \<rightharpoonup> account) \<Rightarrow> pubkey \<Rightarrow> i64" where
  "tok m k = tokens (entry_or_default m k)"

definition token_supply :: "(pubkey \<rightharpoonup> account) \<Rightarrow> i64" where
  "token_supply m = (\<Sum>k \<in> dom m. tok m k)"

lemma tok_None: "m k = None \<Longrightarrow> tok m k = 0"
  by (simp add: tok_def entry_or_default_def Account_default_def)

lemma entry_or_default_Some: "m k = Some a \<Longrightarrow> entry_or_default m k = a"
  by (simp add: entry_or_default_def)

lemma tok_Some: "m k = Some a \<Longrightarrow> tok m k = tokens a"
  by (simp add: tok_def entry_or_default_def)

lemma token_supply_superset:
  assumes "finite S" "dom m \<subseteq> S"
  shows "token_supply m = (\<Sum>k \<in> S. tok m k)"
  unfolding token_supply_def
  by (rule sum.mono_neutral_left) (use assms in \<open>auto intro: tok_None\<close>)

lemma tok_store_account [simp]: "tok (store_account (k, a) m) = (tok m)(k := tokens a)"
  by (rule ext) (simp add: tok_def store_account_def entry_or_default_def Account_default_def)

lemma finite_dom_store [simp]:
  "finite (dom m) \<Longrightarrow> finite (dom (store_account ka m))"
  by (cases ka) (auto simp: store_account_def)

lemma finite_dom_fold_store: "finite (dom m) \<Longrightarrow> finite (dom (fold store_account kas m))"
  by (induction kas arbitrary: m) auto

lemma tok_fold_store:
  assumes "distinct ks" "length ks = length accs"
  shows "tok (fold store_account (zip ks accs) m) k =
    (case map_of (zip ks accs) k of Some a \<Rightarrow> tokens a | None \<Rightarrow> tok m k)"
  using assms(2,1)
proof (induction ks accs arbitrary: m rule: list_induct2)
  case (Cons k' ks a accs)
  then show ?case by (auto split: option.splits dest: map_of_SomeD set_zip_leftD)
qed simp

text \<open>Storing a transaction's accounts changes the supply by what they gained.\<close>

lemma supply_fold_store:
  assumes "finite (dom m)" "distinct ks" "length ks = length accs"
  shows "token_supply (fold store_account (zip ks accs) m) =
    token_supply m + (total_tokens accs - sum_list (map (tok m) ks))"
  using assms(3,2,1)
proof (induction ks accs arbitrary: m rule: list_induct2)
  case (Cons k ks a accs)
  let ?m = "store_account (k, a) m" and ?S = "insert k (dom m)"
  have dom: "dom ?m \<subseteq> ?S" by (auto simp: store_account_def split: if_splits)
  have "token_supply ?m = (\<Sum>k' \<in> ?S. tok ?m k')" by (rule token_supply_superset) (use Cons.prems dom in auto)
  also have "\<dots> = tokens a + (\<Sum>k' \<in> ?S - {k}. tok m k')"
    using Cons.prems by (simp add: sum.insert_remove)
  also have "(\<Sum>k' \<in> ?S - {k}. tok m k') = token_supply m - tok m k"
    using token_supply_superset [of ?S m] Cons.prems by (simp add: sum.insert_remove algebra_simps subset_insertI)
  finally have head: "token_supply ?m = token_supply m + (tokens a - tok m k)" by simp
  have same: "map (tok ?m) ks = map (tok m) ks" using Cons.prems by auto
  have "token_supply (fold store_account (zip ks accs) ?m) =
      token_supply ?m + (total_tokens accs - sum_list (map (tok ?m) ks))"
    using Cons by auto
  then show ?case unfolding head same by simp
qed simp

section \<open>Loading\<close>

lemma reserve_frame:
  "reserve_signature_with_last_id sig h st = (st', r) \<Longrightarrow> \<exists>sigs. st' = st\<lparr>last_ids_sigs := sigs\<rparr>"
  by (auto simp: reserve_signature_with_last_id_def split: option.splits prod.splits
      intro: exI [of _ "last_ids_sigs st"])

lemma load_account_frame:
  assumes "load_account tx m st = Some (st', r)"
  shows "\<exists>sigs. st' = st\<lparr>last_ids_sigs := sigs\<rparr>"
proof -
  obtain st1 r1 where res: "reserve_signature_with_last_id (tx_signature tx) (tx_last_id tx) st = (st1, r1)"
    by (cases "reserve_signature_with_last_id (tx_signature tx) (tx_last_id tx) st")
  have "st' = st \<or> st' = st1"
    using assms res
    by (auto simp: load_account_def bind_eq_Some_conv Let_def split: option.splits if_splits sum.splits)
  then show ?thesis using reserve_frame [OF res] by (auto intro: exI [of _ "last_ids_sigs st"])
qed

lemma load_account_ok:
  assumes "load_account tx m st = Some (st', Inr accs)"
  shows "length accs = length (tx_keys tx)"
    and "total_tokens accs = sum_list (map (tok m) (tx_keys tx)) - tx_fee tx"
proof -
  let ?called = "map (entry_or_default m) (tx_keys tx)"
  obtain st1 r1 where res: "reserve_signature_with_last_id (tx_signature tx) (tx_last_id tx) st = (st1, r1)"
    by (cases "reserve_signature_with_last_id (tx_signature tx) (tx_last_id tx) st")
  have m: "modify_at 0 (\<lambda>a. a\<lparr>tokens := tokens a - tx_fee tx\<rparr>) ?called = Some accs"
    using assms res
    by (auto simp: load_account_def bind_eq_Some_conv Let_def split: option.splits if_splits sum.splits)
  show "length accs = length (tx_keys tx)" using modify_at_length [OF m] by simp
  show "total_tokens accs = sum_list (map (tok m) (tx_keys tx)) - tx_fee tx"
    using modify_at_sum [OF m, of tokens] by (simp add: tok_def [abs_def] comp_def)
qed

lemma load_accounts_ok:
  assumes "load_accounts txs m st = Some (st', loaded)"
  shows "length loaded = length txs \<and> (\<exists>sigs. st' = st\<lparr>last_ids_sigs := sigs\<rparr>) \<and>
    (\<forall>(tx, r) \<in> set (zip txs loaded). \<forall>accs. r = Inr accs \<longrightarrow> length accs = length (tx_keys tx) \<and>
      total_tokens accs = sum_list (map (tok m) (tx_keys tx)) - tx_fee tx)"
  using assms
proof (induction txs arbitrary: st st' loaded)
  case Nil
  then show ?case by (auto intro: exI [of _ "last_ids_sigs st'"])
next
  case (Cons tx txs)
  obtain st1 r rs where 1: "load_account tx m st = Some (st1, r)"
    and 2: "load_accounts txs m st1 = Some (st', rs)" and l: "loaded = r # rs"
    using Cons.prems by (auto simp: bind_eq_Some_conv)
  obtain s1 where "st1 = st\<lparr>last_ids_sigs := s1\<rparr>" using load_account_frame [OF 1] by blast
  moreover have "length rs = length txs" "\<exists>sigs. st' = st1\<lparr>last_ids_sigs := sigs\<rparr>"
    "\<forall>(tx, r) \<in> set (zip txs rs). \<forall>accs. r = Inr accs \<longrightarrow> length accs = length (tx_keys tx) \<and>
      total_tokens accs = sum_list (map (tok m) (tx_keys tx)) - tx_fee tx"
    using Cons.IH [OF 2] by blast+
  moreover have "r = Inr accs \<Longrightarrow> length accs = length (tx_keys tx) \<and>
      total_tokens accs = sum_list (map (tok m) (tx_keys tx)) - tx_fee tx" for accs
    using load_account_ok 1 by blast
  ultimately show ?case by (auto simp: l)
qed

section \<open>Executing a batch\<close>

lemma execute_all_ok:
  assumes "execute_all px (zip loaded txs) c = Some (loaded', c', res)" and "length loaded = length txs"
  shows "length loaded' = length txs \<and> length res = length txs \<and>
    (\<forall>i < length txs. res ! i = Inr () \<longrightarrow>
      (\<exists>accs accs' c1 c2. loaded ! i = Inr accs \<and> loaded' ! i = Inr accs' \<and>
         execute_transaction px (txs ! i) accs c1 = Some (accs', c2, Inr ())))"
  using assms(2,1)
proof (induction loaded txs arbitrary: c loaded' res rule: list_induct2)
  case (Cons r loaded tx txs)
  show ?case
  proof (cases r)
    case (Inl e)
    then obtain ls rs where "execute_all px (zip loaded txs) c = Some (ls, c', rs)"
      "loaded' = Inl e # ls" "res = Inl e # rs"
      using Cons.prems by (auto simp: bind_eq_Some_conv)
    then show ?thesis using Cons.IH Inl by (auto simp: nth_Cons split: nat.splits)
  next
    case (Inr accs)
    then obtain accs' c1 r1 ls rs where "execute_transaction px tx accs c = Some (accs', c1, r1)"
      "execute_all px (zip loaded txs) c1 = Some (ls, c', rs)" "loaded' = Inr accs' # ls" "res = r1 # rs"
      using Cons.prems by (auto simp: bind_eq_Some_conv)
    then show ?thesis using Cons.IH [of c1 ls rs] Inr by (auto simp: nth_Cons split: nat.splits)
  qed
qed simp

section \<open>Storing a batch\<close>

text \<open>The fees that successful transactions paid.\<close>

definition paid_fees :: "transaction list \<Rightarrow> unit tp_result list \<Rightarrow> i64" where
  "paid_fees txs res = sum_list (map (\<lambda>(tx, r). if r = Inr () then tx_fee tx else 0) (zip txs res))"

lemma store_one_cases:
  "r = Inr () \<Longrightarrow> store_one (tx, r, Inr accs) m = fold store_account (zip (tx_keys tx) accs) m"
  "r \<noteq> Inr () \<Longrightarrow> store_one (tx, r, racc) m = m"
  using unit_result_cases [of r] by (auto simp: store_one_def)

lemma supply_store_accounts:
  assumes "length res = length txs" "length loaded = length txs"
    and "distinct (concat (map tx_keys txs))" "finite (dom m)"
    and "\<And>i. i < length txs \<Longrightarrow> res ! i = Inr () \<Longrightarrow>
      \<exists>accs. loaded ! i = Inr accs \<and> length accs = length (tx_keys (txs ! i)) \<and>
        total_tokens accs = sum_list (map (tok m) (tx_keys (txs ! i))) - tx_fee (txs ! i)"
  shows "token_supply (store_accounts txs res loaded m) = token_supply m - paid_fees txs res"
  using assms
proof (induction txs arbitrary: res loaded m)
  case Nil
  then show ?case by (simp add: store_accounts_def paid_fees_def)
next
  case (Cons tx txs)
  obtain r rs where r: "res = r # rs" using Cons.prems(1) by (cases res) auto
  obtain l ls where l: "loaded = l # ls" using Cons.prems(2) by (cases loaded) auto
  let ?m = "store_one (tx, r, l) m"
  have fin: "finite (dom ?m)"
    using Cons.prems(4) by (auto simp: store_one_def finite_dom_fold_store split: sum.splits)
  have keys: "distinct (tx_keys tx)" using Cons.prems(3) by simp
  have same: "tok ?m k = tok m k" if "k \<notin> set (tx_keys tx)" for k
  proof (cases "r = Inr ()")
    case True
    then obtain accs where "l = Inr accs" "length accs = length (tx_keys tx)"
      using Cons.prems(5) [of 0] by (auto simp: r l)
    then show ?thesis
      using that keys True
      by (auto simp: store_one_cases tok_fold_store split: option.splits
          dest!: map_of_SomeD dest: set_zip_leftD)
  qed (simp add: store_one_cases)
  have head: "token_supply ?m = token_supply m - (if r = Inr () then tx_fee tx else 0)"
  proof (cases "r = Inr ()")
    case True
    then obtain accs where "l = Inr accs" "length accs = length (tx_keys tx)"
      "total_tokens accs = sum_list (map (tok m) (tx_keys tx)) - tx_fee tx"
      using Cons.prems(5) [of 0] by (auto simp: r l)
    then show ?thesis
      using keys True Cons.prems(4) by (simp add: store_one_cases supply_fold_store)
  qed (simp add: store_one_cases)
  have "token_supply (store_accounts txs rs ls ?m) = token_supply ?m - paid_fees txs rs"
  proof (rule Cons.IH)
    fix i assume i: "i < length txs" "rs ! i = Inr ()"
    have "k \<notin> set (tx_keys tx)" if "k \<in> set (tx_keys (txs ! i))" for k
      using that Cons.prems(3) nth_mem [OF i(1)] by auto
    then have toks: "map (tok ?m) (tx_keys (txs ! i)) = map (tok m) (tx_keys (txs ! i))"
      using same by simp
    show "\<exists>accs. ls ! i = Inr accs \<and> length accs = length (tx_keys (txs ! i)) \<and>
        total_tokens accs = sum_list (map (tok ?m) (tx_keys (txs ! i))) - tx_fee (txs ! i)"
      using Cons.prems(5) [of "Suc i"] i unfolding toks by (simp add: r l)
  qed (use Cons.prems fin in \<open>simp_all add: r l\<close>)
  then show ?case by (simp add: head store_accounts_def paid_fees_def r l)
qed

text \<open>Everything a batch does, in one place.\<close>

lemma update_statuses_frame:
  "\<exists>sigs. update_transaction_statuses txs res st = st\<lparr>last_ids_sigs := sigs\<rparr>"
proof -
  have one: "\<exists>sigs. update_signature_status_with_last_id sig r h st = st\<lparr>last_ids_sigs := sigs\<rparr>"
    for sig r h and st :: "'a tp"
    by (auto simp: update_signature_status_with_last_id_def split: option.splits
        intro: exI [of _ "last_ids_sigs st"])
  have "\<exists>sigs. fold (\<lambda>(tx, r). update_signature_status_with_last_id (tx_signature tx) r (tx_last_id tx)) trs st =
      st\<lparr>last_ids_sigs := sigs\<rparr>" for trs
  proof (induction trs arbitrary: st)
    case Nil
    then show ?case by (auto intro: exI [of _ "last_ids_sigs st"])
  next
    case (Cons tr trs)
    obtain tx r where "tr = (tx, r)" by (cases tr)
    then obtain s1 where s1: "fold (\<lambda>(tx, r). update_signature_status_with_last_id (tx_signature tx) r
        (tx_last_id tx)) (tr # trs) st =
      fold (\<lambda>(tx, r). update_signature_status_with_last_id (tx_signature tx) r (tx_last_id tx)) trs
        (st\<lparr>last_ids_sigs := s1\<rparr>)"
      using one [of "tx_signature tx" r "tx_last_id tx" st] by auto
    obtain s2 where "fold (\<lambda>(tx, r). update_signature_status_with_last_id (tx_signature tx) r
        (tx_last_id tx)) trs (st\<lparr>last_ids_sigs := s1\<rparr>) = st\<lparr>last_ids_sigs := s1, last_ids_sigs := s2\<rparr>"
      using Cons.IH by blast
    then show ?case unfolding s1 by (intro exI [of _ s2]) simp
  qed
  then show ?thesis by (simp add: update_transaction_statuses_def)
qed

lemma process_transactions_cases:
  assumes "process_transactions px txs st = Some (st', res)"
  obtains st1 loaded loaded' c' where
    "load_accounts txs (tp_accounts st) st = Some (st1, loaded)"
    "execute_all px (zip loaded txs) (loaded_contracts st) = Some (loaded', c', res)"
    "length loaded = length txs" "length loaded' = length txs" "length res = length txs"
    "tp_accounts st' = store_accounts txs res loaded' (tp_accounts st)"
    "last_ids st' = last_ids st" "clock_reads st' = clock_reads st"
    "last_ids_sigs st' = last_ids_sigs (update_transaction_statuses txs res
       (st1\<lparr>loaded_contracts := c', tp_accounts := store_accounts txs res loaded' (tp_accounts st)\<rparr>))"
proof -
  obtain st1 loaded loaded' c' where load: "load_accounts txs (tp_accounts st) st = Some (st1, loaded)"
    and exe: "execute_all px (zip loaded txs) (loaded_contracts st1) = Some (loaded', c', res)"
    and st': "st' = (let st2 = update_transaction_statuses txs res (st1\<lparr>loaded_contracts := c',
        tp_accounts := store_accounts txs res loaded' (tp_accounts st1)\<rparr>)
      in st2\<lparr>tp_transaction_count := tp_transaction_count st2 +
        of_nat (length (filter (\<lambda>r. r = Inr ()) res))\<rparr>)"
    using assms by (auto simp: process_transactions_def bind_eq_Some_conv Let_def)
  obtain sigs where st1: "st1 = st\<lparr>last_ids_sigs := sigs\<rparr>" and len: "length loaded = length txs"
    using load_accounts_ok [OF load] by blast
  obtain sigs2 where st2: "update_transaction_statuses txs res (st1\<lparr>loaded_contracts := c',
        tp_accounts := store_accounts txs res loaded' (tp_accounts st1)\<rparr>) =
      st1\<lparr>loaded_contracts := c', tp_accounts := store_accounts txs res loaded' (tp_accounts st1),
        last_ids_sigs := sigs2\<rparr>"
    using update_statuses_frame [of txs res "st1\<lparr>loaded_contracts := c',
        tp_accounts := store_accounts txs res loaded' (tp_accounts st1)\<rparr>"] by auto
  have "loaded_contracts st1 = loaded_contracts st" "tp_accounts st1 = tp_accounts st" by (simp_all add: st1)
  then show thesis
    using load exe len execute_all_ok [OF exe len] st' st2
    by (intro that [of st1 loaded loaded' c']) (simp_all add: Let_def st1)
qed

lemma process_transactions_executed:
  assumes "process_transactions px txs st = Some (st', res)" and "i < length txs" "res ! i = Inr ()"
  obtains accs accs' c1 c2 loaded' where
    "tp_accounts st' = store_accounts txs res loaded' (tp_accounts st)"
    "loaded' ! i = Inr accs'" "length accs = length (tx_keys (txs ! i))"
    "total_tokens accs = sum_list (map (tok (tp_accounts st)) (tx_keys (txs ! i))) - tx_fee (txs ! i)"
    "execute_transaction px (txs ! i) accs c1 = Some (accs', c2, Inr ())"
proof -
  obtain st1 loaded loaded' c' where load: "load_accounts txs (tp_accounts st) st = Some (st1, loaded)"
    and exe: "execute_all px (zip loaded txs) (loaded_contracts st) = Some (loaded', c', res)"
    and lens: "length loaded = length txs"
    and st': "tp_accounts st' = store_accounts txs res loaded' (tp_accounts st)"
    by (rule process_transactions_cases [OF assms(1)])
  obtain accs accs' c1 c2 where a: "loaded ! i = Inr accs" "loaded' ! i = Inr accs'"
    "execute_transaction px (txs ! i) accs c1 = Some (accs', c2, Inr ())"
    using execute_all_ok [OF exe lens] assms(2,3) by blast
  have "(txs ! i, loaded ! i) \<in> set (zip txs loaded)"
    using assms(2) lens by (auto simp: in_set_zip)
  then have "length accs = length (tx_keys (txs ! i)) \<and>
      total_tokens accs = sum_list (map (tok (tp_accounts st)) (tx_keys (txs ! i))) - tx_fee (txs ! i)"
    using load_accounts_ok [OF load] a(1) by blast
  then show thesis using st' a by (intro that) auto
qed

section \<open>Non-negative balances\<close>

definition solvent :: "(pubkey \<rightharpoonup> account) \<Rightarrow> bool" where
  "solvent m \<longleftrightarrow> (\<forall>k a. m k = Some a \<longrightarrow> 0 \<le> sint (tokens a))"

lemma solvent_store_account:
  "solvent m \<Longrightarrow> 0 \<le> sint (tokens a) \<Longrightarrow> solvent (store_account (k, a) m)"
  by (auto simp: solvent_def store_account_def)

lemma solvent_fold_store:
  "solvent m \<Longrightarrow> (\<forall>(k, a) \<in> set kas. 0 \<le> sint (tokens a)) \<Longrightarrow> solvent (fold store_account kas m)"
  by (induction kas arbitrary: m) (auto simp: solvent_store_account)

lemma solvent_store_accounts:
  assumes "length res = length txs" "length loaded = length txs" "solvent m"
    and "\<And>i accs a. i < length txs \<Longrightarrow> res ! i = Inr () \<Longrightarrow> loaded ! i = Inr accs \<Longrightarrow> a \<in> set accs \<Longrightarrow>
      0 \<le> sint (tokens a)"
  shows "solvent (store_accounts txs res loaded m)"
  using assms
proof (induction txs arbitrary: res loaded m)
  case Nil
  then show ?case by (simp add: store_accounts_def)
next
  case (Cons tx txs)
  obtain r rs where r: "res = r # rs" using Cons.prems(1) by (cases res) auto
  obtain l ls where l: "loaded = l # ls" using Cons.prems(2) by (cases loaded) auto
  have "solvent (store_one (tx, r, l) m)"
  proof (cases "r = Inr ()")
    case True
    then show ?thesis
      using Cons.prems(3) Cons.prems(4) [of 0]
      by (cases l) (auto simp: r l store_one_def intro!: solvent_fold_store dest: set_zip_rightD)
  qed (use Cons.prems(3) in \<open>simp add: store_one_cases\<close>)
  then have "solvent (store_accounts txs rs ls (store_one (tx, r, l) m))"
    using Cons.prems(1,2) Cons.prems(4) [of "Suc _"]
    by (intro Cons.IH) (auto simp: r l)
  then show ?case by (simp add: store_accounts_def r l)
qed

section \<open>Moving tokens between two accounts\<close>

definition fresh_signature :: "transaction \<Rightarrow> 'lib tp \<Rightarrow> bool" where
  "fresh_signature tx st \<longleftrightarrow>
     (\<exists>sigs ts. last_ids_sigs st (tx_last_id tx) = Some (sigs, ts) \<and> sigs (tx_signature tx) = None)"

lemma load_account_fresh:
  assumes "tx_keys tx = k # ks" "m k = Some a" "sint (tx_fee tx) \<le> sint (tokens a)" "fresh_signature tx st"
  shows "\<exists>st'. load_account tx m st =
      Some (st', Inr (a\<lparr>tokens := tokens a - tx_fee tx\<rparr> # map (entry_or_default m) ks)) \<and>
    (\<forall>tx'. fresh_signature tx' st \<longrightarrow> tx_signature tx' \<noteq> tx_signature tx \<longrightarrow> fresh_signature tx' st') \<and>
    (\<exists>sigs. st' = st\<lparr>last_ids_sigs := sigs\<rparr>)"
proof -
  obtain sigs ts where s: "last_ids_sigs st (tx_last_id tx) = Some (sigs, ts)" "sigs (tx_signature tx) = None"
    using assms(4) by (auto simp: fresh_signature_def)
  let ?st = "st\<lparr>last_ids_sigs := (last_ids_sigs st)(tx_last_id tx \<mapsto> (sigs(tx_signature tx \<mapsto> Inr ()), ts))\<rparr>"
  have "load_account tx m st = Some (?st, Inr (a\<lparr>tokens := tokens a - tx_fee tx\<rparr> # map (entry_or_default m) ks))"
    using assms(1-3) s
    by (simp add: load_account_def get_at_def reserve_signature_with_last_id_def reserve_signature_def
        modify_at_def entry_or_default_def)
  moreover have "fresh_signature tx' ?st" if "fresh_signature tx' st" "tx_signature tx' \<noteq> tx_signature tx" for tx'
    using that s by (auto simp: fresh_signature_def)
  ultimately show ?thesis by auto
qed

definition is_move :: "'lib tp_ext \<Rightarrow> transaction \<Rightarrow> i64 \<Rightarrow> bool" where
  "is_move px tx t \<longleftrightarrow> tx_program_id tx = SystemProgram_id \<and>
     dec (tc_system (ee_tx (px_entry px))) (tx_userdata tx) = Some (Move t)"

lemma execute_move:
  assumes "is_move px tx t" "program_id a = SystemProgram_id" "program_id b = SystemProgram_id"
    and "0 \<le> sint (tokens a - t)" "0 \<le> sint (tokens b + t)"
  shows "execute_transaction px tx [a, b] c =
    Some ([a\<lparr>tokens := tokens a - t\<rparr>, b\<lparr>tokens := tokens b + t\<rparr>], c, Inr ())"
  using assms
  by (simp add: is_move_def execute_transaction_def run_program_def SystemProgram_check_id_iff
      SystemProgram_process_transaction_def transfer_tokens_def modify_at_def check_accounts_def
      verify_transaction_def)

lemma system_account_default [simp]: "program_id Account_default = SystemProgram_id" "tokens Account_default = 0"
  by (simp_all add: Account_default_def Pubkey_default_def)

text \<open>What a two-account transaction leaves in the account map.\<close>

lemma process_single_move:
  assumes "is_move px tx t" "tx_keys tx = [k, k']" "tp_accounts st k = Some a" "fresh_signature tx st"
    and "sint (tx_fee tx) \<le> sint (tokens a)"
    and "program_id a = SystemProgram_id" "program_id (entry_or_default (tp_accounts st) k') = SystemProgram_id"
    and "0 \<le> sint (tokens a - tx_fee tx - t)" "0 \<le> sint (tok (tp_accounts st) k' + t)"
  shows "\<exists>st'. process_transaction px tx st = Some (st', Inr ()) \<and>
    tok (tp_accounts st') = (tok (tp_accounts st))
      (k := tokens a - tx_fee tx - t, k' := tok (tp_accounts st) k' + t)"
proof -
  let ?m = "tp_accounts st"
  obtain st1 sigs where load: "load_account tx ?m st =
      Some (st1, Inr [a\<lparr>tokens := tokens a - tx_fee tx\<rparr>, entry_or_default ?m k'])"
    and st1: "st1 = st\<lparr>last_ids_sigs := sigs\<rparr>"
    using load_account_fresh [of tx k "[k']" ?m a st] assms by auto
  let ?a = "a\<lparr>tokens := tokens a - tx_fee tx - t\<rparr>"
  let ?b = "(entry_or_default ?m k')\<lparr>tokens := tok ?m k' + t\<rparr>"
  have exe: "execute_transaction px tx [a\<lparr>tokens := tokens a - tx_fee tx\<rparr>, entry_or_default ?m k'] c =
      Some ([?a, ?b], c, Inr ())" for c
    using execute_move [of px tx t "a\<lparr>tokens := tokens a - tx_fee tx\<rparr>" "entry_or_default ?m k'" c] assms
    by (simp add: tok_def)
  let ?accs = "store_account (k', ?b) (store_account (k, ?a) ?m)"
  let ?st2 = "st1\<lparr>loaded_contracts := loaded_contracts st1, tp_accounts := ?accs\<rparr>"
  obtain sigs2 where upd: "update_transaction_statuses [tx] [Inr ()] ?st2 = ?st2\<lparr>last_ids_sigs := sigs2\<rparr>"
    using update_statuses_frame by blast
  have "process_transaction px tx st = Some (?st2\<lparr>last_ids_sigs := sigs2,
      tp_transaction_count := tp_transaction_count ?st2 + 1\<rparr>, Inr ())"
    using load exe assms(2) upd
    by (simp add: process_transaction_def process_transactions_def store_accounts_def store_one_cases
        get_at_def st1)
  then show ?thesis by auto
qed

section \<open>Concrete runs\<close>

definition sample_px :: "unit tp_ext" where
  "sample_px = \<lparr>px_entry = bincode_entry_ext (\<lambda>bs. Hash (le_word bs)), px_plan = bincode_fin_plan_ext,
     px_storage = \<lparr>enc = (\<lambda>_. []), dec = (\<lambda>_. None)\<rparr>, px_loader = no_loader,
     px_tictactoe = \<lparr>xp_check_id = (\<lambda>_. False), xp_process = (\<lambda>_ _. None)\<rparr>,
     px_dashboard = \<lparr>xp_check_id = (\<lambda>_. False), xp_process = (\<lambda>_ _. None)\<rparr>,
     px_clock = of_nat, px_accounts = \<lparr>enc = (\<lambda>_. []), dec = (\<lambda>_. None)\<rparr>\<rparr>"

text \<open>Three accounts of the system program, and one registered entry id.\<close>

definition sample_tp :: "unit tp" where
  "sample_tp = tp_default\<lparr>
     tp_accounts := [Pubkey 21 \<mapsto> plain_account 10 (Pubkey 0), Pubkey 22 \<mapsto> plain_account 5 (Pubkey 0),
       Pubkey 23 \<mapsto> plain_account 1 (Pubkey 0)],
     last_ids := [Hash 0], last_ids_sigs := [Hash 0 \<mapsto> (Map.empty, 0)]\<rparr>"

lemma sample_move: "is_move sample_px (sample_system_tx (Move t)\<lparr>tx_signature := s, tx_keys := ks\<rparr>) t"
  unfolding is_move_def
proof
  have "dec (codec_of system_program_wire) (put system_program_wire (Move t)) = Some (Move t)"
    by (rule system_program_decodes) (simp add: system_program_wire_def)
  then show "dec (tc_system (ee_tx (px_entry sample_px)))
      (tx_userdata (sample_system_tx (Move t)\<lparr>tx_signature := s, tx_keys := ks\<rparr>)) = Some (Move t)"
    by (simp add: sample_px_def bincode_tx_ext_def sample_system_tx_def del: codec_of_sel)
qed (simp add: sample_system_tx_def)

lemma sample_fresh: "fresh_signature (sample_system_tx inst\<lparr>tx_signature := s, tx_keys := ks\<rparr>) sample_tp"
  by (simp add: fresh_signature_def sample_tp_def sample_system_tx_def)

lemmas sample_run_simps = sample_system_tx_def sample_tp_def tp_default_def tok_def entry_or_default_def

lemma process_transaction_batch:
  assumes "process_transaction px tx st = Some (st', r)"
  shows "process_transactions px [tx] st = Some (st', [r])"
proof -
  obtain res where res: "process_transactions px [tx] st = Some (st', res)" "get_at res 0 = Some r"
    using assms by (auto simp: process_transaction_def bind_eq_Some_conv)
  have "length res = 1"
    by (rule process_transactions_cases [OF res(1)]) simp
  then show ?thesis using res by (cases res) (auto simp: get_at_def)
qed

lemma sample_move_run:
  "\<exists>st'. process_transaction sample_px
      (sample_system_tx (Move 4)\<lparr>tx_signature := Signature 1, tx_keys := [Pubkey 21, Pubkey 22]\<rparr>) sample_tp =
      Some (st', Inr ()) \<and>
    tok (tp_accounts st') = (tok (tp_accounts sample_tp))(Pubkey 21 := 6, Pubkey 22 := 9)"
  using process_single_move [OF sample_move [where t = 4 and s = "Signature 1" and
      ks = "[Pubkey 21, Pubkey 22]"] _ _ sample_fresh, where a = "plain_account 10 (Pubkey 0)"]
  by (simp add: sample_run_simps)

lemma fold_store_account_frame:
  "k \<notin> fst ` set kas \<Longrightarrow> fold store_account kas m k = m k"
  by (induction kas arbitrary: m) (auto simp: store_account_def)

lemma store_accounts_frame:
  assumes "length res = length txs" "length loaded = length txs"
    and "\<And>i. i < length txs \<Longrightarrow> res ! i = Inr () \<Longrightarrow> k \<notin> set (tx_keys (txs ! i))"
  shows "store_accounts txs res loaded m k = m k"
  using assms
proof (induction txs arbitrary: res loaded m)
  case Nil
  then show ?case by (simp add: store_accounts_def)
next
  case (Cons tx txs)
  obtain r rs where r: "res = r # rs" using Cons.prems(1) by (cases res) auto
  obtain l ls where l: "loaded = l # ls" using Cons.prems(2) by (cases loaded) auto
  have "store_one (tx, r, l) m k = m k"
    using Cons.prems(3) [of 0] unit_result_cases [of r]
    by (auto simp: r store_one_def intro!: fold_store_account_frame dest: set_zip_leftD split: sum.splits)
  moreover have "store_accounts txs rs ls (store_one (tx, r, l) m) k = store_one (tx, r, l) m k"
    using Cons.prems(1,2) Cons.prems(3) [of "Suc _"] by (intro Cons.IH) (auto simp: r l)
  ultimately show ?case by (simp add: store_accounts_def r l)
qed

section \<open>What the processor promises about tokens\<close>



text \<open>C21: a batch of transactions that name pairwise different accounts conserves the supply: it shrinks by
  exactly the fees of the transactions that returned \<open>Ok\<close>.\<close>

theorem batch_conserves_supply:
  assumes "process_transactions px txs st = Some (st', res)"
    and "finite (dom (tp_accounts st))" and "distinct (concat (map tx_keys txs))"
  shows "token_supply (tp_accounts st') = token_supply (tp_accounts st) - paid_fees txs res"
proof -
  obtain st1 loaded loaded' c' where load: "load_accounts txs (tp_accounts st) st = Some (st1, loaded)"
    and exe: "execute_all px (zip loaded txs) (loaded_contracts st) = Some (loaded', c', res)"
    and lens: "length loaded = length txs" "length loaded' = length txs" "length res = length txs"
    and st': "tp_accounts st' = store_accounts txs res loaded' (tp_accounts st)"
    by (rule process_transactions_cases [OF assms(1)])
  show ?thesis unfolding st'
  proof (rule supply_store_accounts)
    fix i assume i: "i < length txs" "res ! i = Inr ()"
    obtain accs accs' c1 c2 where a: "loaded ! i = Inr accs" "loaded' ! i = Inr accs'"
      "execute_transaction px (txs ! i) accs c1 = Some (accs', c2, Inr ())"
      using execute_all_ok [OF exe lens(1)] i by blast
    have "(txs ! i, loaded ! i) \<in> set (zip txs loaded)" using i(1) lens by (auto simp: in_set_zip)
    then have "length accs = length (tx_keys (txs ! i)) \<and>
        total_tokens accs = sum_list (map (tok (tp_accounts st)) (tx_keys (txs ! i))) - tx_fee (txs ! i)"
      using load_accounts_ok [OF load] a(1) by blast
    then show "\<exists>accs. loaded' ! i = Inr accs \<and> length accs = length (tx_keys (txs ! i)) \<and>
        total_tokens accs = sum_list (map (tok (tp_accounts st)) (tx_keys (txs ! i))) - tx_fee (txs ! i)"
      using a execute_transaction_length [OF a(3)] execute_transaction_ok(1) [OF a(3)] by auto
  qed (use assms lens in auto)
qed

theorem batch_conserves_witness:
  "\<exists>st'. process_transactions sample_px
      [sample_system_tx (Move 4)\<lparr>tx_signature := Signature 1, tx_keys := [Pubkey 21, Pubkey 22]\<rparr>] sample_tp =
      Some (st', [Inr ()]) \<and> token_supply (tp_accounts st') = token_supply (tp_accounts sample_tp)"
proof -
  obtain st' where "process_transactions sample_px
      [sample_system_tx (Move 4)\<lparr>tx_signature := Signature 1, tx_keys := [Pubkey 21, Pubkey 22]\<rparr>] sample_tp =
      Some (st', [Inr ()])"
    using sample_move_run process_transaction_batch by blast
  moreover from batch_conserves_supply [OF this]
  have "token_supply (tp_accounts st') = token_supply (tp_accounts sample_tp)"
    by (simp add: paid_fees_def sample_tp_def sample_system_tx_def)
  ultimately show ?thesis by blast
qed

lemma process_transactions_solvent:
  assumes "process_transactions px txs st = Some (st', res)" and "solvent (tp_accounts st)"
  shows "solvent (tp_accounts st')"
proof -
  obtain st1 loaded loaded' c' where load: "load_accounts txs (tp_accounts st) st = Some (st1, loaded)"
    and exe: "execute_all px (zip loaded txs) (loaded_contracts st) = Some (loaded', c', res)"
    and lens: "length loaded = length txs" "length loaded' = length txs" "length res = length txs"
    and st': "tp_accounts st' = store_accounts txs res loaded' (tp_accounts st)"
    by (rule process_transactions_cases [OF assms(1)])
  show ?thesis unfolding st'
  proof (rule solvent_store_accounts)
    fix i accs' a assume i: "i < length txs" "res ! i = Inr ()" "loaded' ! i = Inr accs'" "a \<in> set accs'"
    then obtain accs c1 c2 where exec: "execute_transaction px (txs ! i) accs c1 = Some (accs', c2, Inr ())"
      using execute_all_ok [OF exe lens(1)] by fastforce
    obtain j where "j < length accs'" "a = accs' ! j" using i(4) by (auto simp: in_set_conv_nth)
    then show "0 \<le> sint (tokens a)"
      using execute_transaction_ok(2) [OF exec, unfolded verify_transaction_ok]
        execute_transaction_length [OF exec] by simp
  qed (use assms lens in auto)
qed

text \<open>C23: no batch, whatever its transactions, leaves an account with a negative balance.\<close>

theorem balances_stay_nonnegative:
  assumes "process_transactions px txs st = Some (st', res)" and "solvent (tp_accounts st)"
  shows "solvent (tp_accounts st')"
  by (rule process_transactions_solvent [OF assms])

theorem balances_nonnegative_witness:
  "\<exists>st'. process_transactions sample_px
      [sample_system_tx (Move 4)\<lparr>tx_signature := Signature 1, tx_keys := [Pubkey 21, Pubkey 22]\<rparr>] sample_tp =
      Some (st', [Inr ()]) \<and> solvent (tp_accounts st')"
proof -
  obtain st' where run: "process_transactions sample_px
      [sample_system_tx (Move 4)\<lparr>tx_signature := Signature 1, tx_keys := [Pubkey 21, Pubkey 22]\<rparr>] sample_tp =
      Some (st', [Inr ()])"
    using sample_move_run process_transaction_batch by blast
  moreover have "solvent (tp_accounts sample_tp)"
    by (simp add: solvent_def sample_tp_def)
  from balances_stay_nonnegative [OF run this] have "solvent (tp_accounts st')" .
  ultimately show ?thesis by blast
qed

text \<open>An account changes only through a transaction that names it and returned \<open>Ok\<close>; a transaction
  that fails changes no account.\<close>

theorem only_successful_transactions_write:
  assumes "process_transactions px txs st = Some (st', res)"
    and "\<forall>i < length txs. res ! i = Inr () \<longrightarrow> k \<notin> set (tx_keys (txs ! i))"
  shows "tp_accounts st' k = tp_accounts st k"
proof -
  obtain loaded' where "length loaded' = length txs" "length res = length txs"
    "tp_accounts st' = store_accounts txs res loaded' (tp_accounts st)"
    by (rule process_transactions_cases [OF assms(1)])
  then show ?thesis using assms(2) by (simp add: store_accounts_frame)
qed

theorem only_successful_witness:
  "\<exists>st'. process_transactions sample_px
      [sample_system_tx (Move 4)\<lparr>tx_signature := Signature 1, tx_keys := [Pubkey 21, Pubkey 22]\<rparr>] sample_tp =
      Some (st', [Inr ()]) \<and> tp_accounts st' (Pubkey 23) = tp_accounts sample_tp (Pubkey 23)"
proof -
  obtain st' where run: "process_transactions sample_px
      [sample_system_tx (Move 4)\<lparr>tx_signature := Signature 1, tx_keys := [Pubkey 21, Pubkey 22]\<rparr>] sample_tp =
      Some (st', [Inr ()])"
    using sample_move_run process_transaction_batch by blast
  moreover from only_successful_transactions_write [OF run, of "Pubkey 23"]
  have "tp_accounts st' (Pubkey 23) = tp_accounts sample_tp (Pubkey 23)" by simp
  ultimately show ?thesis by blast
qed

section \<open>What the checks do not cover\<close>

text \<open>C28: a transaction may name the same account twice.  Moving tokens from an account to itself returns
  \<open>Ok\<close> and leaves the account with the amount added: the later copy of the account is stored last.\<close>

theorem self_transfer_mints:
  assumes "is_move px tx t" "tx_keys tx = [k, k]" "tx_fee tx = 0" "fresh_signature tx st"
    and "tp_accounts st k = Some a" "program_id a = SystemProgram_id"
    and "0 \<le> sint (tokens a)" "0 \<le> sint (tokens a - t)" "0 \<le> sint (tokens a + t)"
  shows "\<exists>st'. process_transaction px tx st = Some (st', Inr ()) \<and>
    tok (tp_accounts st') k = tok (tp_accounts st) k + t"
  using process_single_move [of px tx t k k st a] assms by (auto simp: tok_Some entry_or_default_Some)

theorem self_transfer_witness:
  "\<exists>st'. process_transaction sample_px
      (sample_system_tx (Move 10)\<lparr>tx_signature := Signature 1, tx_keys := [Pubkey 21, Pubkey 21]\<rparr>) sample_tp =
      Some (st', Inr ()) \<and> tok (tp_accounts st') (Pubkey 21) = tok (tp_accounts sample_tp) (Pubkey 21) + 10"
  by (rule self_transfer_mints [OF sample_move _ _ sample_fresh, where a = "plain_account 10 (Pubkey 0)"])
    (simp_all add: sample_run_simps)

text \<open>The amount of a \<open>Move\<close> may be negative.  The sender then receives tokens from the other account,
  whose key signed nothing, and the transaction returns \<open>Ok\<close>.\<close>

theorem negative_move_takes_tokens:
  assumes "is_move px tx (- t)" "tx_keys tx = [k, victim]" "k \<noteq> victim" "tx_fee tx = 0" "fresh_signature tx st"
    and "tp_accounts st k = Some a" "program_id a = SystemProgram_id" "0 \<le> sint (tokens a)"
    and "tp_accounts st victim = Some b" "program_id b = SystemProgram_id"
    and "0 \<le> sint (tokens b - t)" "0 \<le> sint (tokens a + t)"
  shows "\<exists>st'. process_transaction px tx st = Some (st', Inr ()) \<and>
    tok (tp_accounts st') victim = tokens b - t \<and> tok (tp_accounts st') k = tokens a + t"
  using process_single_move [of px tx "- t" k victim st a] assms
  by (auto simp: tok_Some entry_or_default_Some)

theorem negative_move_witness:
  "\<exists>st'. process_transaction sample_px
      (sample_system_tx (Move (- 5))\<lparr>tx_signature := Signature 1, tx_keys := [Pubkey 21, Pubkey 22]\<rparr>) sample_tp =
      Some (st', Inr ()) \<and> tok (tp_accounts st') (Pubkey 22) = 5 - 5 \<and> tok (tp_accounts st') (Pubkey 21) = 10 + 5"
  using negative_move_takes_tokens [OF sample_move [where s = "Signature 1" and ks = "[Pubkey 21, Pubkey 22]" and t = "- 5"] _ _ _ sample_fresh,
      where a = "plain_account 10 (Pubkey 0)" and b = "plain_account 5 (Pubkey 0)"]
  by (simp add: sample_run_simps)

text \<open>Two transactions of one batch that spend the same account both return \<open>Ok\<close>, each against the
  balance before the batch: both recipients are paid, the sender pays once.\<close>

theorem batch_double_spend:
  assumes "is_move px tx1 t" "is_move px tx2 t" "tx_keys tx1 = [k, k1]" "tx_keys tx2 = [k, k2]"
    and "distinct [k, k1, k2]" "tx_fee tx1 = 0" "tx_fee tx2 = 0"
    and "fresh_signature tx1 st" "fresh_signature tx2 st" "tx_signature tx1 \<noteq> tx_signature tx2"
    and "tp_accounts st k = Some a" "program_id a = SystemProgram_id"
    and "program_id (entry_or_default (tp_accounts st) k1) = SystemProgram_id"
    and "program_id (entry_or_default (tp_accounts st) k2) = SystemProgram_id"
    and "0 \<le> sint (tokens a)" "0 \<le> sint (tokens a - t)"
    and "0 \<le> sint (tok (tp_accounts st) k1 + t)" "0 \<le> sint (tok (tp_accounts st) k2 + t)"
  shows "\<exists>st'. process_transactions px [tx1, tx2] st = Some (st', [Inr (), Inr ()]) \<and>
    tok (tp_accounts st') k = tokens a - t \<and>
    tok (tp_accounts st') k1 = tok (tp_accounts st) k1 + t \<and>
    tok (tp_accounts st') k2 = tok (tp_accounts st) k2 + t"
proof -
  let ?m = "tp_accounts st"
  obtain st1 s1 where l1: "load_account tx1 ?m st = Some (st1, Inr [a, entry_or_default ?m k1])"
    and f1: "fresh_signature tx2 st1" and st1: "st1 = st\<lparr>last_ids_sigs := s1\<rparr>"
    using load_account_fresh [of tx1 k "[k1]" ?m a st] assms by auto
  obtain st2 s2 where l2: "load_account tx2 ?m st1 = Some (st2, Inr [a, entry_or_default ?m k2])"
    and st2: "st2 = st1\<lparr>last_ids_sigs := s2\<rparr>"
    using load_account_fresh [of tx2 k "[k2]" ?m a st1] assms f1 by auto
  let ?a = "a\<lparr>tokens := tokens a - t\<rparr>"
  let ?b = "\<lambda>k'. (entry_or_default ?m k')\<lparr>tokens := tok ?m k' + t\<rparr>"
  have e: "execute_transaction px tx1 [a, entry_or_default ?m k1] c = Some ([?a, ?b k1], c, Inr ())"
    "execute_transaction px tx2 [a, entry_or_default ?m k2] c = Some ([?a, ?b k2], c, Inr ())" for c
    using execute_move [of px tx1 t a "entry_or_default ?m k1"] execute_move [of px tx2 t a "entry_or_default ?m k2"]
      assms by (simp_all add: tok_def)
  let ?accs = "store_account (k2, ?b k2) (store_account (k, ?a) (store_account (k1, ?b k1) (store_account (k, ?a) ?m)))"
  let ?st3 = "st2\<lparr>loaded_contracts := loaded_contracts st2, tp_accounts := ?accs\<rparr>"
  obtain s3 where upd: "update_transaction_statuses [tx1, tx2] [Inr (), Inr ()] ?st3 = ?st3\<lparr>last_ids_sigs := s3\<rparr>"
    using update_statuses_frame by blast
  have "process_transactions px [tx1, tx2] st = Some (?st3\<lparr>last_ids_sigs := s3,
      tp_transaction_count := tp_transaction_count ?st3 + 2\<rparr>, [Inr (), Inr ()])"
    using l1 l2 e assms(3,4) upd
    by (simp add: process_transactions_def store_accounts_def store_one_cases st1 st2)
  then show ?thesis using assms(5) by auto
qed

theorem batch_double_spend_witness:
  "\<exists>st'. process_transactions sample_px
      [sample_system_tx (Move 10)\<lparr>tx_signature := Signature 1, tx_keys := [Pubkey 21, Pubkey 22]\<rparr>,
       sample_system_tx (Move 10)\<lparr>tx_signature := Signature 2, tx_keys := [Pubkey 21, Pubkey 23]\<rparr>] sample_tp =
      Some (st', [Inr (), Inr ()]) \<and> tok (tp_accounts st') (Pubkey 21) = 10 - 10 \<and>
    tok (tp_accounts st') (Pubkey 22) = tok (tp_accounts sample_tp) (Pubkey 22) + 10 \<and>
    tok (tp_accounts st') (Pubkey 23) = tok (tp_accounts sample_tp) (Pubkey 23) + 10"
  using batch_double_spend [OF sample_move [where s = "Signature 1" and ks = "[Pubkey 21, Pubkey 22]" and t = 10]
      sample_move [where s = "Signature 2" and ks = "[Pubkey 21, Pubkey 23]" and t = 10]
      _ _ _ _ _ sample_fresh sample_fresh, where a = "plain_account 10 (Pubkey 0)"]
  by (simp add: sample_run_simps)

text \<open>The fee of a transaction may be negative.  It then adds to the sender's balance tokens that no
  account gave, and the transaction returns \<open>Ok\<close>.\<close>

theorem negative_fee_mints:
  assumes "is_move px tx 0" "tx_keys tx = [k, k']" "k \<noteq> k'" "tx_fee tx = - f" "fresh_signature tx st"
    and "tp_accounts st k = Some a" "program_id a = SystemProgram_id" "sint (- f) \<le> sint (tokens a)"
    and "tp_accounts st k' = Some b" "program_id b = SystemProgram_id" "0 \<le> sint (tokens b)"
    and "0 \<le> sint (tokens a + f)"
  shows "\<exists>st'. process_transaction px tx st = Some (st', Inr ()) \<and>
    tok (tp_accounts st') = (tok (tp_accounts st))(k := tokens a + f)"
  using process_single_move [of px tx 0 k k' st a] assms
  by (auto simp: tok_Some entry_or_default_Some fun_eq_iff)

theorem negative_fee_witness:
  "\<exists>st'. process_transaction sample_px
      ((sample_system_tx (Move 0)\<lparr>tx_signature := Signature 1, tx_keys := [Pubkey 21, Pubkey 22]\<rparr>)\<lparr>tx_fee := - 7\<rparr>)
      sample_tp = Some (st', Inr ()) \<and>
    tok (tp_accounts st') = (tok (tp_accounts sample_tp))(Pubkey 21 := 10 + 7)"
  using negative_fee_mints [of sample_px "(sample_system_tx (Move 0)\<lparr>tx_signature := Signature 1,
      tx_keys := [Pubkey 21, Pubkey 22]\<rparr>)\<lparr>tx_fee := - 7\<rparr>" "Pubkey 21" "Pubkey 22" 7 sample_tp
      "plain_account 10 (Pubkey 0)" "plain_account 5 (Pubkey 0)"]
    sample_move [where s = "Signature 1" and ks = "[Pubkey 21, Pubkey 22]" and t = 0]
    sample_fresh [where s = "Signature 1" and ks = "[Pubkey 21, Pubkey 22]" and inst = "Move 0"]
  by (simp add: is_move_def fresh_signature_def sample_tp_def)

end
