(* ===== verification/Processor_History.thy ===== *)
theory Processor_History
  imports Processor_Safety
begin

text \<open>
  What the transaction processor remembers: the signatures it has seen, the window of recent entry
  ids, and the replay of a ledger.
\<close>

section \<open>Signatures\<close>

text \<open>A signature recorded under an entry id.\<close>

definition recorded :: "signature \<Rightarrow> hash \<Rightarrow> 'lib tp \<Rightarrow> bool" where
  "recorded sig h st \<longleftrightarrow> (\<exists>sigs ts. last_ids_sigs st h = Some (sigs, ts) \<and> sigs sig \<noteq> None)"

definition registered :: "hash \<Rightarrow> 'lib tp \<Rightarrow> bool" where
  "registered h st \<longleftrightarrow> last_ids_sigs st h \<noteq> None"

lemma reserve_ok:
  assumes "reserve_signature_with_last_id sig h st = (st', Inr ())"
  shows "registered h st" "\<not> recorded sig h st" "recorded sig h st'"
  using assms
  by (auto simp: reserve_signature_with_last_id_def reserve_signature_def registered_def recorded_def
      split: option.splits if_splits)

lemma reserve_mono:
  assumes "reserve_signature_with_last_id sig h st = (st', r)"
  shows "recorded s h' st \<Longrightarrow> recorded s h' st'" "registered h' st' \<longleftrightarrow> registered h' st"
  using assms
  by (auto simp: reserve_signature_with_last_id_def reserve_signature_def registered_def recorded_def
      split: option.splits if_splits)

lemma load_account_cases:
  assumes "load_account tx m st = Some (st', r)"
  obtains (early) e where "st' = st" "r = Inl e"
  | (reserved) r1 where "reserve_signature_with_last_id (tx_signature tx) (tx_last_id tx) st = (st', r1)"
      "\<And>accs. r = Inr accs \<Longrightarrow> r1 = Inr ()"
proof -
  obtain st1 r1 where res: "reserve_signature_with_last_id (tx_signature tx) (tx_last_id tx) st = (st1, r1)"
    by (cases "reserve_signature_with_last_id (tx_signature tx) (tx_last_id tx) st")
  obtain k where k: "get_at (tx_keys tx) 0 = Some k"
    using assms by (auto simp: load_account_def bind_eq_Some_conv)
  show thesis
  proof (cases "\<exists>a. m k = Some a \<and> sint (tx_fee tx) \<le> sint (tokens a)")
    case True
    have "st' = st1 \<and> (\<forall>accs. r = Inr accs \<longrightarrow> r1 = Inr ())"
      using assms res k True unit_result_cases [of r1]
      by (auto simp: load_account_def bind_eq_Some_conv)
    then show thesis using res by (intro reserved [of r1]) auto
  next
    case False
    then have "st' = st \<and> (\<exists>e. r = Inl e)"
      using assms k by (cases "m k") (auto simp: load_account_def)
    then show thesis using early by blast
  qed
qed

lemma load_account_mono:
  assumes "load_account tx m st = Some (st', r)"
  shows "recorded s h st \<Longrightarrow> recorded s h st'" "registered h st' \<longleftrightarrow> registered h st"
  using assms by (cases rule: load_account_cases; auto dest: reserve_mono)+

lemma load_account_records:
  assumes "load_account tx m st = Some (st', Inr accs)"
  shows "registered (tx_last_id tx) st" "\<not> recorded (tx_signature tx) (tx_last_id tx) st"
    "recorded (tx_signature tx) (tx_last_id tx) st'"
  using assms by (cases rule: load_account_cases; auto dest: reserve_ok)+

lemma load_accounts_mono:
  assumes "load_accounts txs m st = Some (st', loaded)"
  shows "recorded s h st \<Longrightarrow> recorded s h st'" "registered h st' \<longleftrightarrow> registered h st"
  using assms
  by (induction txs arbitrary: st loaded) (auto simp: bind_eq_Some_conv dest: load_account_mono)

text \<open>A recorded signature is never loaded again, and a loaded one is recorded.\<close>

lemma load_accounts_recorded:
  assumes "load_accounts txs m st = Some (st', loaded)" "recorded s h st"
    and "j < length txs" "tx_signature (txs ! j) = s" "tx_last_id (txs ! j) = h"
  shows "loaded ! j \<noteq> Inr accs"
  using assms
proof (induction txs arbitrary: st loaded j)
  case (Cons tx txs)
  obtain st1 r rs where 1: "load_account tx m st = Some (st1, r)" "load_accounts txs m st1 = Some (st', rs)"
    "loaded = r # rs"
    using Cons.prems(1) by (auto simp: bind_eq_Some_conv)
  show ?case
  proof (cases j)
    case 0
    then show ?thesis using 1(1,3) Cons.prems load_account_records(2) by fastforce
  next
    case (Suc j')
    then show ?thesis
      using Cons.IH [OF 1(2) load_account_mono(1) [OF 1(1) Cons.prems(2)], of j'] Cons.prems 1(3) by simp
  qed
qed simp

lemma load_accounts_records:
  assumes "load_accounts txs m st = Some (st', loaded)" "i < length txs" "loaded ! i = Inr accs"
  shows "registered (tx_last_id (txs ! i)) st \<and> \<not> recorded (tx_signature (txs ! i)) (tx_last_id (txs ! i)) st \<and>
    recorded (tx_signature (txs ! i)) (tx_last_id (txs ! i)) st' \<and>
    (\<forall>j < length txs. i < j \<longrightarrow> tx_signature (txs ! j) = tx_signature (txs ! i) \<longrightarrow>
       tx_last_id (txs ! j) = tx_last_id (txs ! i) \<longrightarrow> (\<forall>accs. loaded ! j \<noteq> Inr accs))"
  using assms
proof (induction txs arbitrary: st loaded i)
  case (Cons tx txs)
  obtain st1 r rs where 1: "load_account tx m st = Some (st1, r)" "load_accounts txs m st1 = Some (st', rs)"
    "loaded = r # rs"
    using Cons.prems(1) by (auto simp: bind_eq_Some_conv)
  show ?case
  proof (cases i)
    case 0
    then have "load_account tx m st = Some (st1, Inr accs)" using 1 Cons.prems(3) by simp
    note rec = load_account_records [OF this]
    have "loaded ! j \<noteq> Inr accs'" if "j < length (tx # txs)" "0 < j"
      "tx_signature ((tx # txs) ! j) = tx_signature tx" "tx_last_id ((tx # txs) ! j) = tx_last_id tx" for j accs'
      using that load_accounts_recorded [OF 1(2) rec(3), of "j - 1"] 1(3) by (cases j) auto
    then show ?thesis using 0 rec load_accounts_mono(1) [OF 1(2) rec(3)] by auto
  next
    case (Suc i')
    then have IH: "registered (tx_last_id (txs ! i')) st1 \<and>
        \<not> recorded (tx_signature (txs ! i')) (tx_last_id (txs ! i')) st1 \<and>
        recorded (tx_signature (txs ! i')) (tx_last_id (txs ! i')) st' \<and>
        (\<forall>j < length txs. i' < j \<longrightarrow> tx_signature (txs ! j) = tx_signature (txs ! i') \<longrightarrow>
           tx_last_id (txs ! j) = tx_last_id (txs ! i') \<longrightarrow> (\<forall>accs. rs ! j \<noteq> Inr accs))"
      using Cons.IH [OF 1(2), of i'] Cons.prems 1(3) by simp
    then show ?thesis
      using Suc load_account_mono [OF 1(1)] 1(3) by (auto simp: nth_Cons split: nat.splits)
  qed
qed simp

lemma update_status_sigs:
  "last_ids_sigs (update_signature_status_with_last_id sig r h st) =
    (case last_ids_sigs st h of None \<Rightarrow> last_ids_sigs st
     | Some (sigs, ts) \<Rightarrow> (last_ids_sigs st)(h \<mapsto> (sigs(sig \<mapsto> r), ts)))"
  by (simp add: update_signature_status_with_last_id_def update_signature_status_def split: option.split)

lemma update_status_recorded:
  "recorded s h st \<Longrightarrow> recorded s h (update_signature_status_with_last_id sig r h' st)"
  by (cases "last_ids_sigs st h'") (auto simp: recorded_def update_status_sigs)

lemma update_status_registered:
  "registered h (update_signature_status_with_last_id sig r h' st) \<longleftrightarrow> registered h st"
  by (cases "last_ids_sigs st h'") (auto simp: registered_def update_status_sigs split: if_splits)

lemma update_statuses_mono:
  "recorded s h st \<Longrightarrow> recorded s h (update_transaction_statuses txs res st)"
  "registered h (update_transaction_statuses txs res st) \<longleftrightarrow> registered h st"
proof -
  have step: "(recorded s h st \<longrightarrow> recorded s h (fold (\<lambda>(tx, r). update_signature_status_with_last_id
        (tx_signature tx) r (tx_last_id tx)) trs st)) \<and>
      (registered h (fold (\<lambda>(tx, r). update_signature_status_with_last_id
        (tx_signature tx) r (tx_last_id tx)) trs st) \<longleftrightarrow> registered h st)" for trs
  proof (induction trs arbitrary: st)
    case (Cons p trs)
    obtain tx r where p: "p = (tx, r)" by (cases p)
    show ?case
      using Cons.IH [of "update_signature_status_with_last_id (tx_signature tx) r (tx_last_id tx) st"]
        update_status_recorded [of s h st] by (simp add: p update_status_registered)
  qed simp
  show "recorded s h st \<Longrightarrow> recorded s h (update_transaction_statuses txs res st)"
    unfolding update_transaction_statuses_def using step by blast
  show "registered h (update_transaction_statuses txs res st) \<longleftrightarrow> registered h st"
    unfolding update_transaction_statuses_def using step by blast
qed

lemma recorded_sigs: "last_ids_sigs st = last_ids_sigs st' \<Longrightarrow> recorded s h st \<longleftrightarrow> recorded s h st'"
  and registered_sigs: "last_ids_sigs st = last_ids_sigs st' \<Longrightarrow> registered h st \<longleftrightarrow> registered h st'"
  by (simp_all add: recorded_def registered_def)

lemma process_transactions_history:
  assumes "process_transactions px txs st = Some (st', res)"
  obtains st1 loaded where "load_accounts txs (tp_accounts st) st = Some (st1, loaded)"
    "length loaded = length txs"
    "\<forall>i < length txs. res ! i = Inr () \<longrightarrow> (\<exists>accs. loaded ! i = Inr accs)"
    "\<forall>s h. recorded s h st1 \<longrightarrow> recorded s h st'" "\<forall>h. registered h st' \<longleftrightarrow> registered h st"
proof -
  obtain st1 loaded loaded' c' where load: "load_accounts txs (tp_accounts st) st = Some (st1, loaded)"
    and exe: "execute_all px (zip loaded txs) (loaded_contracts st) = Some (loaded', c', res)"
    and len: "length loaded = length txs"
    and sigs: "last_ids_sigs st' = last_ids_sigs (update_transaction_statuses txs res
       (st1\<lparr>loaded_contracts := c', tp_accounts := store_accounts txs res loaded' (tp_accounts st)\<rparr>))"
    by (rule process_transactions_cases [OF assms(1)])
  let ?st2 = "st1\<lparr>loaded_contracts := c', tp_accounts := store_accounts txs res loaded' (tp_accounts st)\<rparr>"
  have same: "recorded s h ?st2 \<longleftrightarrow> recorded s h st1" "registered h ?st2 \<longleftrightarrow> registered h st1" for s h
    by (simp_all add: recorded_def registered_def)
  show thesis
  proof (rule that [OF load len])
    show "\<forall>i < length txs. res ! i = Inr () \<longrightarrow> (\<exists>accs. loaded ! i = Inr accs)"
      using execute_all_ok [OF exe len] by blast
    show "\<forall>s h. recorded s h st1 \<longrightarrow> recorded s h st'"
      using update_statuses_mono(1) [of _ _ ?st2 txs res] same by (simp add: recorded_sigs [OF sigs])
    show "\<forall>h. registered h st' \<longleftrightarrow> registered h st"
      using update_statuses_mono(2) [of _ txs res ?st2] same load_accounts_mono(2) [OF load]
      by (simp add: registered_sigs [OF sigs])
  qed
qed

lemma recorded_transaction_fails:
  assumes "process_transactions px txs st = Some (st', res)" "j < length txs"
    and "recorded (tx_signature (txs ! j)) (tx_last_id (txs ! j)) st"
  shows "res ! j \<noteq> Inr ()"
proof -
  obtain st1 loaded where "load_accounts txs (tp_accounts st) st = Some (st1, loaded)"
    "\<forall>i < length txs. res ! i = Inr () \<longrightarrow> (\<exists>accs. loaded ! i = Inr accs)"
    using process_transactions_history [OF assms(1)] by metis
  then show ?thesis using load_accounts_recorded [OF _ assms(3,2)] assms(2) by metis
qed

section \<open>What the processor promises about replays\<close>



end
