(* ===== verification/Replay.thy ===== *)
theory Replay
  imports Processor_History
begin

text \<open>
  Two transaction processors that agree (src/transaction_processor.rs): a leader that runs batches in
  which some transactions fail, and a replica that is only given the successful ones.  A failed
  transaction leaves its signature in the leader's memory and nothing else, so the two agree on
  accounts, entry ids, loaded programs and transaction counts, and the replica remembers no signature
  that the leader does not.
\<close>

section \<open>Picking the successful transactions\<close>

definition succeeded :: "unit tp_result list \<Rightarrow> 'a list \<Rightarrow> 'a list" where
  "succeeded res xs = map fst (filter (\<lambda>(x, r). r = Inr ()) (zip xs res))"

lemma succeeded_Nil [simp]: "succeeded res [] = []" "succeeded [] xs = []"
  by (simp_all add: succeeded_def)

lemma succeeded_Cons [simp]:
  "succeeded (r # res) (x # xs) = (if r = Inr () then x # succeeded res xs else succeeded res xs)"
  by (simp add: succeeded_def)

lemma set_succeeded: "set (succeeded res xs) \<subseteq> set xs"
  by (auto simp: succeeded_def dest: set_zip_leftD)

definition all_ok :: "unit tp_result list \<Rightarrow> unit tp_result list" where
  "all_ok res = filter (\<lambda>r. r = Inr ()) res"

lemma all_ok_simps [simp]: "all_ok [] = []" "all_ok (r # res) = (if r = Inr () then Inr () # all_ok res else all_ok res)"
  by (simp_all add: all_ok_def)

lemma all_ok_first_error [simp]: "first_error (all_ok res) = Inr ()"
  by (simp add: first_error_Ok all_ok_def)

section \<open>The memory of signatures\<close>

definition sigs_agree :: "'lib tp \<Rightarrow> 'lib tp \<Rightarrow> bool" where
  "sigs_agree L V \<longleftrightarrow>
     (\<forall>h. registered h L \<longleftrightarrow> registered h V) \<and> (\<forall>s h. recorded s h V \<longrightarrow> recorded s h L)"

lemma reserve_recorded:
  assumes "reserve_signature_with_last_id sig h st = (st', r)"
  shows "recorded s h' st' \<longleftrightarrow> recorded s h' st \<or> registered h st \<and> s = sig \<and> h' = h"
  using assms
  by (auto simp: reserve_signature_with_last_id_def reserve_signature_def registered_def recorded_def
      split: option.splits if_splits)

lemma reserve_ok_iff:
  "snd (reserve_signature_with_last_id sig h st) = Inr () \<longleftrightarrow> registered h st \<and> \<not> recorded sig h st"
  by (auto simp: reserve_signature_with_last_id_def reserve_signature_def registered_def recorded_def
      split: option.splits if_splits)

lemma load_account_ok_cases:
  assumes "load_account tx m L = Some (L', Inr accs)"
  shows "reserve_signature_with_last_id (tx_signature tx) (tx_last_id tx) L = (L', Inr ())"
    and "reserve_signature_with_last_id (tx_signature tx) (tx_last_id tx) V = (V', Inr ()) \<Longrightarrow>
      load_account tx m V = Some (V', Inr accs)"
proof -
  obtain k where k: "get_at (tx_keys tx) 0 = Some k"
    using assms by (auto simp: load_account_def bind_eq_Some_conv)
  obtain a where a: "m k = Some a" "\<not> sint (tokens a) < sint (tx_fee tx)"
    using assms k by (auto simp: load_account_def bind_eq_Some_conv split: option.splits if_splits)
  obtain L1 r where res: "reserve_signature_with_last_id (tx_signature tx) (tx_last_id tx) L = (L1, r)"
    by (cases "reserve_signature_with_last_id (tx_signature tx) (tx_last_id tx) L")
  have run: "load_account tx m L = (case r of Inl e \<Rightarrow> Some (L1, Inl e) | Inr _ \<Rightarrow>
      map_option (\<lambda>c. (L1, Inr c)) (modify_at 0 (\<lambda>a. a\<lparr>tokens := tokens a - tx_fee tx\<rparr>)
        (map (entry_or_default m) (tx_keys tx))))"
    using k a res by (auto simp: load_account_def map_option_case split: sum.split option.split)
  have L': "r = Inr ()" "L1 = L'" "modify_at 0 (\<lambda>a. a\<lparr>tokens := tokens a - tx_fee tx\<rparr>)
        (map (entry_or_default m) (tx_keys tx)) = Some accs"
    using assms [unfolded run] by (auto split: sum.splits)
  show "reserve_signature_with_last_id (tx_signature tx) (tx_last_id tx) L = (L', Inr ())"
    using res L' by simp
  show "load_account tx m V = Some (V', Inr accs)"
    if "reserve_signature_with_last_id (tx_signature tx) (tx_last_id tx) V = (V', Inr ())"
    using that k a L'(3) by (simp add: load_account_def)
qed

lemma load_account_agree:
  assumes "load_account tx m L = Some (L', r)" "sigs_agree L V"
  shows "sigs_agree L' V"
    and "r = Inr accs \<Longrightarrow> \<exists>V'. load_account tx m V = Some (V', Inr accs) \<and> sigs_agree L' V'"
proof -
  show "sigs_agree L' V" using assms load_account_mono [OF assms(1)] by (simp add: sigs_agree_def)
next
  assume "r = Inr accs"
  then have L: "load_account tx m L = Some (L', Inr accs)" using assms(1) by simp
  let ?h = "tx_last_id tx" and ?s = "tx_signature tx"
  have resL: "reserve_signature_with_last_id ?s ?h L = (L', Inr ())" by (rule load_account_ok_cases(1) [OF L])
  then have "registered ?h V" "\<not> recorded ?s ?h V"
    using reserve_ok_iff [of ?s ?h L] assms(2) by (auto simp: sigs_agree_def)
  then obtain V' where resV: "reserve_signature_with_last_id ?s ?h V = (V', Inr ())"
    using reserve_ok_iff [of ?s ?h V] by (metis prod.collapse)
  have "sigs_agree L' V'"
    using assms(2) reserve_mono(2) [OF resL] reserve_mono(2) [OF resV]
      reserve_recorded [OF resL] reserve_recorded [OF resV] by (simp add: sigs_agree_def)
  then show "\<exists>V'. load_account tx m V = Some (V', Inr accs) \<and> sigs_agree L' V'"
    using load_account_ok_cases(2) [OF L resV] by blast
qed

lemma load_accounts_agree:
  assumes "load_accounts txs m L = Some (L', loaded)" "sigs_agree L V" "length res = length txs"
    and "\<forall>i < length txs. res ! i = Inr () \<longrightarrow> (\<exists>accs. loaded ! i = Inr accs)"
  shows "\<exists>V'. load_accounts (succeeded res txs) m V = Some (V', succeeded res loaded) \<and> sigs_agree L' V'"
  using assms
proof (induction txs arbitrary: L V loaded res)
  case (Cons tx txs)
  obtain L1 l ls where 1: "load_account tx m L = Some (L1, l)" "load_accounts txs m L1 = Some (L', ls)"
    "loaded = l # ls"
    using Cons.prems(1) by (auto simp: bind_eq_Some_conv)
  obtain r rs where res: "res = r # rs" "length rs = length txs" using Cons.prems(3) by (cases res) auto
  have rest: "\<forall>i < length txs. rs ! i = Inr () \<longrightarrow> (\<exists>accs. ls ! i = Inr accs)"
    using Cons.prems(4) unfolding res 1(3) by (metis Suc_less_eq length_Cons nth_Cons_Suc)
  show ?case
  proof (cases "r = Inr ()")
    case True
    then obtain accs where "l = Inr accs" using Cons.prems(4) res 1(3) by fastforce
    then obtain V1 where V1: "load_account tx m V = Some (V1, l)" "sigs_agree L1 V1"
      using load_account_agree(2) [OF 1(1) Cons.prems(2)] by blast
    then obtain V' where "load_accounts (succeeded rs txs) m V1 = Some (V', succeeded rs ls)" "sigs_agree L' V'"
      using Cons.IH [OF 1(2) V1(2) res(2) rest] by blast
    then show ?thesis using True V1(1) by (simp add: res 1(3))
  next
    case False
    then show ?thesis
      using Cons.IH [OF 1(2) load_account_agree(1) [OF 1(1) Cons.prems(2)] res(2) rest] by (simp add: res 1(3))
  qed
qed simp

lemma update_status_recorded_iff:
  "recorded s h (update_signature_status_with_last_id sig r h' st) \<longleftrightarrow>
     recorded s h st \<or> registered h st \<and> s = sig \<and> h = h'"
  by (cases "last_ids_sigs st h'"; cases "h = h'"; cases "s = sig")
    (auto simp: recorded_def registered_def update_status_sigs)

lemma update_statuses_recorded:
  assumes "length res = length txs"
  shows "recorded s h (update_transaction_statuses txs res st) \<longleftrightarrow>
    recorded s h st \<or> registered h st \<and> (\<exists>tx \<in> set txs. s = tx_signature tx \<and> h = tx_last_id tx)"
  using assms
proof (induction txs arbitrary: res st)
  case (Cons tx txs)
  then obtain r rs where "res = r # rs" "length rs = length txs" by (cases res) auto
  then show ?case
    using Cons.IH [of rs "update_signature_status_with_last_id (tx_signature tx) r (tx_last_id tx) st"]
    by (auto simp: update_transaction_statuses_def update_status_recorded_iff update_status_registered)
qed (simp add: update_transaction_statuses_def)

lemma update_statuses_agree:
  assumes "sigs_agree L V" "length res = length txs" "set txs' \<subseteq> set txs" "length res' = length txs'"
  shows "sigs_agree (update_transaction_statuses txs res L) (update_transaction_statuses txs' res' V)"
  using assms update_statuses_mono(2) [of _ txs res L] update_statuses_mono(2) [of _ txs' res' V]
  by (auto simp: sigs_agree_def update_statuses_recorded)

section \<open>Failed transactions\<close>

definition loads_program :: "'lib tp_ext \<Rightarrow> transaction \<Rightarrow> bool" where
  "loads_program px tx \<longleftrightarrow> SystemProgram_check_id (tx_program_id tx) \<and>
     (case dec (tc_system (ee_tx (px_entry px))) (tx_userdata tx) of Some (Load _ _) \<Rightarrow> True | _ \<Rightarrow> False)"

lemma system_keeps_programs:
  assumes "SystemProgram_process_transaction c ld tx accs loaded = Some (accs', loaded')"
  shows "loaded' = loaded \<or> accs' = accs \<and> (\<exists>pid name. dec c (tx_userdata tx) = Some (Load pid name))"
  using assms
  by (auto simp: SystemProgram_process_transaction_def bind_eq_Some_conv
      split: option.splits system_program.splits if_splits)

lemma run_keeps_programs:
  assumes "run_program px tx accs c = Some (accs', c', r)"
  shows "c' = c \<or> loads_program px tx \<and> r = Inr () \<and> accs' = accs"
proof (cases "SystemProgram_check_id (tx_program_id tx)")
  case True
  then have "SystemProgram_process_transaction (tc_system (ee_tx (px_entry px))) (px_loader px) tx accs c =
      Some (accs', c')" "r = Inr ()"
    using assms by (auto simp: run_program_def bind_eq_Some_conv)
  then show ?thesis using system_keeps_programs True by (fastforce simp: loads_program_def)
next
  case False
  then show ?thesis
    using assms by (auto simp: run_program_def Let_def bind_eq_Some_conv split: if_splits prod.splits)
qed

lemma check_accounts_same:
  assumes "\<forall>a \<in> set accs. 0 \<le> sint (tokens a)"
  shows "check_accounts tx accs accs = Inr ()"
proof -
  have "first_error (map (\<lambda>(a, a'). verify_transaction tx (program_id a) (tokens a) a') (zip accs accs)) = Inr ()"
    using assms by (auto simp: first_error_Ok verify_transaction_def zip_same_conv_map)
  then show ?thesis by (simp add: check_accounts_def)
qed

lemma failed_keeps_programs:
  assumes "execute_transaction px tx accs c = Some (accs', c', r)" "r \<noteq> Inr ()"
    and "loads_program px tx \<Longrightarrow> \<forall>a \<in> set accs. 0 \<le> sint (tokens a)"
  shows "c' = c"
  using assms(1)
proof (cases rule: execute_transaction_cases)
  case (failed e)
  then show ?thesis using run_keeps_programs by fastforce
next
  case ran
  then show ?thesis using run_keeps_programs [OF ran(1)] assms(2,3) check_accounts_same by metis
qed

lemma load_account_nonneg:
  assumes "load_account tx m L = Some (L', Inr accs)" "solvent m" "0 \<le> sint (tx_fee tx)" "a \<in> set accs"
  shows "0 \<le> sint (tokens a)"
proof -
  obtain k where k: "get_at (tx_keys tx) 0 = Some k"
    using assms by (auto simp: load_account_def bind_eq_Some_conv)
  obtain a0 where a0: "m k = Some a0" "sint (tx_fee tx) \<le> sint (tokens a0)"
    using assms k by (auto simp: load_account_def bind_eq_Some_conv split: option.splits if_splits)
  have accs: "modify_at 0 (\<lambda>a. a\<lparr>tokens := tokens a - tx_fee tx\<rparr>) (map (entry_or_default m) (tx_keys tx)) = Some accs"
    using assms(1) k a0
    by (auto simp: load_account_def bind_eq_Some_conv Let_def split: sum.splits prod.splits)
  have rest: "0 \<le> sint (tokens (entry_or_default m k'))" for k'
    using assms(2) by (auto simp: solvent_def entry_or_default_def split: option.split)
  have "tx_keys tx \<noteq> []" "tx_keys tx ! 0 = k"
    using k by (auto simp: get_at_def split: if_splits)
  then have "accs = (map (entry_or_default m) (tx_keys tx))[0 := a0\<lparr>tokens := tokens a0 - tx_fee tx\<rparr>]"
    using accs a0(1) by (auto simp: modify_at_eq_Some entry_or_default_def nth_map)
  then have "a = a0\<lparr>tokens := tokens a0 - tx_fee tx\<rparr> \<or> a \<in> entry_or_default m ` set (tx_keys tx)"
    using assms(4) set_update_subset_insert by fastforce
  then show ?thesis using rest sint_diff_nonneg [OF assms(3) a0(2)] a0(2) by auto
qed

lemma load_accounts_nonneg:
  assumes "load_accounts txs m L = Some (L', loaded)" "solvent m" "i < length txs" "loaded ! i = Inr accs"
    and "0 \<le> sint (tx_fee (txs ! i))"
  shows "\<forall>a \<in> set accs. 0 \<le> sint (tokens a)"
  using assms
proof (induction txs arbitrary: L loaded i)
  case (Cons tx txs)
  then show ?case
    using load_account_nonneg [OF _ assms(2)] by (cases i) (auto simp: bind_eq_Some_conv)
qed simp

section \<open>A batch and its successful part\<close>

lemma execute_succeeded:
  assumes "execute_all px (zip loaded txs) c = Some (loaded', c', res)" "length loaded = length txs"
    and "\<forall>i < length txs. \<forall>accs. loaded ! i = Inr accs \<longrightarrow> loads_program px (txs ! i) \<longrightarrow>
      (\<forall>a \<in> set accs. 0 \<le> sint (tokens a))"
  shows "execute_all px (zip (succeeded res loaded) (succeeded res txs)) c =
    Some (succeeded res loaded', c', all_ok res)"
  using assms(2,1,3)
proof (induction loaded txs arbitrary: c loaded' res rule: list_induct2)
  case (Cons l loaded tx txs)
  have rest: "\<forall>i < length txs. \<forall>accs. loaded ! i = Inr accs \<longrightarrow> loads_program px (txs ! i) \<longrightarrow>
      (\<forall>a \<in> set accs. 0 \<le> sint (tokens a))"
    using Cons.prems(2) by (metis Suc_less_eq length_Cons nth_Cons_Suc)
  show ?case
  proof (cases l)
    case (Inl e)
    then obtain ls rs where "execute_all px (zip loaded txs) c = Some (ls, c', rs)"
      "loaded' = Inl e # ls" "res = Inl e # rs"
      using Cons.prems by (auto simp: bind_eq_Some_conv)
    then show ?thesis using Cons.IH rest by simp
  next
    case (Inr accs)
    then obtain accs' c1 r1 ls rs where run: "execute_transaction px tx accs c = Some (accs', c1, r1)"
      "execute_all px (zip loaded txs) c1 = Some (ls, c', rs)" "loaded' = Inr accs' # ls" "res = r1 # rs"
      using Cons.prems by (auto simp: bind_eq_Some_conv)
    have nonneg: "loads_program px tx \<Longrightarrow> \<forall>a \<in> set accs. 0 \<le> sint (tokens a)"
      using Cons.prems(2) Inr by (metis length_greater_0_conv list.discI nth_Cons_0)
    show ?thesis
    proof (cases "r1 = Inr ()")
      case True
      then show ?thesis using Cons.IH [OF run(2) rest] run Inr by simp
    next
      case False
      then have "c1 = c" using failed_keeps_programs [OF run(1)] nonneg by blast
      then show ?thesis using Cons.IH [OF run(2) rest] run False by simp
    qed
  qed
qed simp

lemma store_succeeded:
  "length res = length txs \<Longrightarrow> length loaded = length txs \<Longrightarrow>
    store_accounts (succeeded res txs) (all_ok res) (succeeded res loaded) m = store_accounts txs res loaded m"
proof (induction txs arbitrary: res loaded m)
  case (Cons tx txs)
  then obtain r rs l ls where "res = r # rs" "loaded = l # ls" "length rs = length txs" "length ls = length txs"
    by (metis length_Suc_conv)
  then show ?case using Cons.IH [of rs ls] by (simp add: store_accounts_def store_one_cases(2))
qed (simp add: store_accounts_def)

lemma all_ok_length: "length res = length xs \<Longrightarrow> length (all_ok res) = length (succeeded res xs)"
proof (induction xs arbitrary: res)
  case (Cons x xs)
  then show ?case by (cases res) auto
qed simp

lemma process_transactions_run:
  assumes "load_accounts txs (tp_accounts st) st = Some (st1, loaded)"
    and "execute_all px (zip loaded txs) (loaded_contracts st) = Some (loaded', c', res)"
  shows "\<exists>st'. process_transactions px txs st = Some (st', res) \<and>
    tp_accounts st' = store_accounts txs res loaded' (tp_accounts st) \<and> loaded_contracts st' = c' \<and>
    last_ids st' = last_ids st \<and> tp_transaction_count st' = tp_transaction_count st + of_nat (length (all_ok res)) \<and>
    last_ids_sigs st' = last_ids_sigs (update_transaction_statuses txs res
      (st1\<lparr>loaded_contracts := c', tp_accounts := store_accounts txs res loaded' (tp_accounts st)\<rparr>))"
proof -
  obtain sigs where st1: "st1 = st\<lparr>last_ids_sigs := sigs\<rparr>" using load_accounts_ok [OF assms(1)] by blast
  let ?st2 = "st1\<lparr>loaded_contracts := c', tp_accounts := store_accounts txs res loaded' (tp_accounts st)\<rparr>"
  obtain sigs2 where st2: "update_transaction_statuses txs res ?st2 = ?st2\<lparr>last_ids_sigs := sigs2\<rparr>"
    using update_statuses_frame by blast
  show ?thesis
    using assms st2 by (simp add: process_transactions_def st1 all_ok_def)
qed

section \<open>Agreement\<close>

definition replica :: "'lib tp \<Rightarrow> 'lib tp \<Rightarrow> bool" where
  "replica L V \<longleftrightarrow> tp_accounts V = tp_accounts L \<and> loaded_contracts V = loaded_contracts L \<and>
     last_ids V = last_ids L \<and> tp_transaction_count V = tp_transaction_count L \<and> sigs_agree L V"

lemma replica_refl [simp]: "replica L L"
  by (simp add: replica_def sigs_agree_def)

lemma sigs_agree_cong:
  "last_ids_sigs L = last_ids_sigs L' \<Longrightarrow> last_ids_sigs V = last_ids_sigs V' \<Longrightarrow> sigs_agree L V \<longleftrightarrow> sigs_agree L' V'"
  by (simp add: sigs_agree_def recorded_def registered_def)

text \<open>A program load that is refused must not happen: the leader would keep the program.  With a fee
  that is not negative it cannot be refused.\<close>

definition fee_ok :: "'lib tp_ext \<Rightarrow> transaction \<Rightarrow> bool" where
  "fee_ok px tx \<longleftrightarrow> (loads_program px tx \<longrightarrow> 0 \<le> sint (tx_fee tx))"

lemma process_succeeded:
  assumes "process_transactions px txs L = Some (L', res)" "replica L V"
    and "solvent (tp_accounts L)" "list_all (fee_ok px) txs"
  shows "\<exists>V'. process_transactions px (succeeded res txs) V = Some (V', all_ok res) \<and> replica L' V'"
proof -
  obtain L1 loaded loaded' c' where load: "load_accounts txs (tp_accounts L) L = Some (L1, loaded)"
    and exe: "execute_all px (zip loaded txs) (loaded_contracts L) = Some (loaded', c', res)"
    and lens: "length loaded = length txs" "length loaded' = length txs" "length res = length txs"
    by (rule process_transactions_cases [OF assms(1)])
  obtain L2 where "process_transactions px txs L = Some (L2, res)" and
    L': "tp_accounts L2 = store_accounts txs res loaded' (tp_accounts L)" "loaded_contracts L2 = c'"
    "last_ids L2 = last_ids L" "tp_transaction_count L2 = tp_transaction_count L + of_nat (length (all_ok res))"
    "last_ids_sigs L2 = last_ids_sigs (update_transaction_statuses txs res
      (L1\<lparr>loaded_contracts := c', tp_accounts := store_accounts txs res loaded' (tp_accounts L)\<rparr>))"
    using process_transactions_run [OF load exe] by blast
  then have L2: "L2 = L'" using assms(1) by simp
  have V: "tp_accounts V = tp_accounts L" "loaded_contracts V = loaded_contracts L" "last_ids V = last_ids L"
    "tp_transaction_count V = tp_transaction_count L" "sigs_agree L V"
    using assms(2) by (simp_all add: replica_def)
  have "\<forall>i < length txs. res ! i = Inr () \<longrightarrow> (\<exists>accs. loaded ! i = Inr accs)"
    using execute_all_ok [OF exe lens(1)] by blast
  then obtain V1 where loadV: "load_accounts (succeeded res txs) (tp_accounts V) V = Some (V1, succeeded res loaded)"
    and V1: "sigs_agree L1 V1"
    using load_accounts_agree [OF load V(5) lens(3)] V(1) by auto
  have "\<forall>i < length txs. \<forall>accs. loaded ! i = Inr accs \<longrightarrow> loads_program px (txs ! i) \<longrightarrow>
      (\<forall>a \<in> set accs. 0 \<le> sint (tokens a))"
    using load_accounts_nonneg [OF load assms(3)] assms(4) by (metis fee_ok_def list_all_length)
  then have exeV: "execute_all px (zip (succeeded res loaded) (succeeded res txs)) (loaded_contracts V) =
      Some (succeeded res loaded', c', all_ok res)"
    using execute_succeeded [OF exe lens(1)] V(2) by simp
  obtain V2 where runV: "process_transactions px (succeeded res txs) V = Some (V2, all_ok res)"
    and V': "tp_accounts V2 = store_accounts (succeeded res txs) (all_ok res) (succeeded res loaded') (tp_accounts V)"
    "loaded_contracts V2 = c'" "last_ids V2 = last_ids V"
    "tp_transaction_count V2 = tp_transaction_count V + of_nat (length (all_ok (all_ok res)))"
    "last_ids_sigs V2 = last_ids_sigs (update_transaction_statuses (succeeded res txs) (all_ok res)
      (V1\<lparr>loaded_contracts := c', tp_accounts := store_accounts (succeeded res txs) (all_ok res)
        (succeeded res loaded') (tp_accounts V)\<rparr>))"
    using process_transactions_run [OF loadV exeV] by blast
  have "sigs_agree L2 V2"
    unfolding sigs_agree_cong [OF L'(5) V'(5)]
    using V1 lens(3) set_succeeded all_ok_length [OF lens(3)]
    by (intro update_statuses_agree) (simp_all add: sigs_agree_def recorded_def registered_def)
  then have "replica L' V2"
    using L' V' V(1,3,4) store_succeeded [OF lens(3,2)]
    by (simp add: replica_def L2 [symmetric] all_ok_def)
  then show ?thesis using runV by blast
qed

lemma register_sigs:
  "registered h' (register_entry_id px h st) \<longleftrightarrow>
     h' = h \<or> registered h' st \<and> \<not> (MAX_ENTRY_IDS \<le> length (last_ids st) \<and> h' = hd (last_ids st))"
  "recorded s h' (register_entry_id px h st) \<longleftrightarrow>
     h' \<noteq> h \<and> recorded s h' st \<and> \<not> (MAX_ENTRY_IDS \<le> length (last_ids st) \<and> h' = hd (last_ids st))"
  by (auto simp: register_entry_id_def registered_def recorded_def Let_def)

lemma register_replica:
  assumes "replica L V"
  shows "replica (register_entry_id px h L) (register_entry_id px h V)"
  using assms
  by (auto simp: replica_def sigs_agree_def register_sigs) (simp_all add: register_entry_id_def Let_def)

end
