(* ===== verification/Channels.thy ===== *)
theory Channels
  imports Prelude
begin

text \<open>
  The channels between the threads of a node, and the errors their workers meet (src/result.rs).

  What a blocking receive brings is an argument of the worker that waits for it.  The messages that
  lie ready behind it, which \<open>try_recv\<close> takes without waiting, are a list.
\<close>

datatype 'm received = Message 'm | TimedOut | Disconnected

datatype stage_error = RecvTimeout | RecvDisconnected | SendError | IOError

definition recv_timeout :: "'m received \<Rightarrow> stage_error + 'm" where
  "recv_timeout m = (case m of Message x \<Rightarrow> Inr x | TimedOut \<Rightarrow> Inl RecvTimeout | Disconnected \<Rightarrow> Inl RecvDisconnected)"

text \<open>A worker's loop ends only when its channel has lost its last sender; every other error is logged.\<close>

definition worker_continues :: "stage_error + 'a \<Rightarrow> bool" where
  "worker_continues r \<longleftrightarrow> (case r of Inl RecvDisconnected \<Rightarrow> False | _ \<Rightarrow> True)"

end
