(* ===== verification/Recording.thy ===== *)
theory Recording
  imports Replay Channels
begin

text \<open>
  The leader's recording of transactions: the recorder that keeps the hash chain and the transaction
  processor in step (src/pod_recorder.rs), and the stage that runs verified packets through the
  processor and records what succeeds (src/transaction_processoring_stage.rs).

  A recorder's record holds what its fields refer to: the chain, the processor, and the channel of
  entries with the messages sent so far and whether the receiver is still there.  Each of its methods
  holds the lock of the chain throughout, and the stage has one worker thread (\<open>NUM_THREADS\<close>) beside
  the tick producer; a batch and its record are taken as one step here.
\<close>

section \<open>The recorder\<close>

record 'lib recorder =
  rec_pod :: pod
  rec_tp :: "'lib tp"
  rec_sent :: "entry list list"
  rec_open :: bool

definition PodRecorder_new :: "'lib tp \<Rightarrow> 'lib recorder panics" where
  "PodRecorder_new st = do {
     h \<leftarrow> tp_last_id st;
     Some \<lparr>rec_pod = Pod_new h, rec_tp = st, rec_sent = [], rec_open = True\<rparr> }"

definition send_entries :: "entry list \<Rightarrow> 'lib recorder \<Rightarrow> 'lib recorder \<times> (stage_error + unit)" where
  "send_entries es r =
     (if rec_open r then (r\<lparr>rec_sent := rec_sent r @ [es]\<rparr>, Inr ()) else (r, Inl SendError))"

definition PodRecorder_hash :: "'lib tp_ext \<Rightarrow> 'lib recorder \<Rightarrow> 'lib recorder" where
  "PodRecorder_hash px r = r\<lparr>rec_pod := Pod_hash (ee_sha (px_entry px)) (rec_pod r)\<rparr>"

definition PodRecorder_tick :: "'lib tp_ext \<Rightarrow> 'lib recorder \<Rightarrow> 'lib recorder \<times> (stage_error + unit)" where
  "PodRecorder_tick px r =
     (let (tick, pod) = Pod_tick (ee_sha (px_entry px)) (rec_pod r);
          st = register_entry_id px (pe_id tick) (rec_tp r);
          e = \<lparr>num_hashes = pe_num_hashes tick, entry_id = pe_id tick, transactions = []\<rparr>
      in send_entries [e] (r\<lparr>rec_pod := pod, rec_tp := st\<rparr>))"

definition PodRecorder_record ::
    "'lib tp_ext \<Rightarrow> hash \<Rightarrow> transaction list \<Rightarrow> 'lib recorder \<Rightarrow> 'lib recorder \<times> (stage_error + unit)" where
  "PodRecorder_record px mixin txs r =
     (let (tick, pod) = Pod_record (ee_sha (px_entry px)) mixin (rec_pod r);
          st = register_entry_id px (pe_id tick) (rec_tp r);
          e = \<lparr>num_hashes = pe_num_hashes tick, entry_id = pe_id tick, transactions = txs\<rparr>
      in send_entries [e] (r\<lparr>rec_pod := pod, rec_tp := st\<rparr>))"

section \<open>The transaction processing stage\<close>

definition NUM_THREADS :: nat where "NUM_THREADS = 1"

datatype stage_config = ConfigTick nat | ConfigSleep nat

definition Config_default :: stage_config where "Config_default = ConfigSleep 500"

text \<open>One round of the tick producer, and the producer itself: \<open>exits\<close> are the values of the exit flag
  as it reads them; \<open>None\<close> is a producer that has not been told to exit yet.\<close>

definition tick_round ::
    "'lib tp_ext \<Rightarrow> stage_config \<Rightarrow> 'lib recorder \<Rightarrow> 'lib recorder \<times> (stage_error + unit)" where
  "tick_round px config r =
     PodRecorder_tick px (case config of ConfigTick num \<Rightarrow> (PodRecorder_hash px ^^ num) r | ConfigSleep _ \<Rightarrow> r)"

fun tick_producer ::
    "'lib tp_ext \<Rightarrow> stage_config \<Rightarrow> bool list \<Rightarrow> 'lib recorder \<Rightarrow> ('lib recorder \<times> (stage_error + unit)) option" where
  "tick_producer px config [] r = None"
| "tick_producer px config (pod_exit # exits) r =
     (case tick_round px config r of
        (r, Inl e) \<Rightarrow> Some (r, Inl e)
      | (r, Inr _) \<Rightarrow> if pod_exit then Some (r, Inr ()) else tick_producer px config exits r)"

definition deserialize_transactions ::
    "transaction codec \<Rightarrow> packet list \<Rightarrow> (transaction \<times> socket_addr) option list panics" where
  "deserialize_transactions txc ps =
     sequence_panics (map (\<lambda>x. do {
       bytes \<leftarrow> subslice 0 (unat (meta_size (packet_meta x))) (packet_data x);
       Some (map_option (\<lambda>req. (req, Meta_addr (packet_meta x))) (dec txc bytes)) }) ps)"

text \<open>One turn of the loop: the transactions that fit one entry are run, and those that succeed are
  recorded.\<close>

definition process_chunk ::
    "'lib tp_ext \<Rightarrow> transaction list \<Rightarrow> 'lib recorder \<Rightarrow> ('lib recorder \<times> (stage_error + unit)) panics" where
  "process_chunk px txs r = do {
     (st, results) \<leftarrow> process_transactions px txs (rec_tp r);
     let processed = map fst (filter (\<lambda>(x, res). res = Inr ()) (zip txs results));
     let r = r\<lparr>rec_tp := st\<rparr>;
     Some (if processed \<noteq> []
           then PodRecorder_record px (Transaction_hash (ee_sha (px_entry px)) processed) processed r
           else (r, Inr ())) }"

partial_function (option) stage_process_transactions ::
    "'lib tp_ext \<Rightarrow> transaction list \<Rightarrow> 'lib recorder \<Rightarrow> ('lib recorder \<times> (stage_error + unit)) panics option" where
  "stage_process_transactions px txs r =
     (if txs = [] then Some (Some (r, Inr ()))
      else Option.bind (num_will_fit (px_entry px) txs) (\<lambda>n.
        case process_chunk px (take n txs) r of
          None \<Rightarrow> Some None
        | Some (r, Inl e) \<Rightarrow> Some (Some (r, Inl e))
        | Some (r, Inr _) \<Rightarrow> stage_process_transactions px (drop n txs) r))"

text \<open>The transactions of a batch of packets that decode, whose plan verifies and whose signature was
  found good.\<close>

definition verified_transactions ::
    "'lib tp_ext \<Rightarrow> (transaction \<times> socket_addr) option list \<Rightarrow> u8 list \<Rightarrow> transaction list" where
  "verified_transactions px reqs vers =
     List.map_filter (\<lambda>(tx, ver). case tx of
         None \<Rightarrow> None
       | Some (tx, _) \<Rightarrow> if verify_plan (ee_tx (px_entry px)) tx \<and> ver \<noteq> 0 then Some tx else None) (zip reqs vers)"

fun process_batches ::
    "'lib tp_ext \<Rightarrow> transaction codec \<Rightarrow> (packet list \<times> u8 list) list \<Rightarrow> 'lib recorder \<Rightarrow>
       ('lib recorder \<times> (stage_error + unit)) panics option" where
  "process_batches px txc [] r = Some (Some (r, Inr ()))"
| "process_batches px txc ((msgs, vers) # mms) r =
     (case deserialize_transactions txc msgs of
        None \<Rightarrow> Some None
      | Some reqs \<Rightarrow>
          Option.bind (stage_process_transactions px (verified_transactions px reqs vers) r) (\<lambda>out.
            case out of
              None \<Rightarrow> Some None
            | Some (r, Inl e) \<Rightarrow> Some (Some (r, Inl e))
            | Some (r, Inr _) \<Rightarrow> process_batches px txc mms r))"

text \<open>What the channel of verified packets gives within the timeout.\<close>

definition process_packets ::
    "'lib tp_ext \<Rightarrow> transaction codec \<Rightarrow> (packet list \<times> u8 list) list received \<Rightarrow> 'lib recorder \<Rightarrow>
       ('lib recorder \<times> (stage_error + unit)) panics option" where
  "process_packets px txc verified r =
     (case verified of
        TimedOut \<Rightarrow> Some (Some (r, Inl RecvTimeout))
      | Disconnected \<Rightarrow> Some (Some (r, Inl RecvDisconnected))
      | Message mms \<Rightarrow> process_batches px txc mms r)"

text \<open>The worker thread: it goes on after a timeout and stops when either channel is gone or the exit
  flag is set.\<close>

fun stage_worker ::
    "'lib tp_ext \<Rightarrow> transaction codec \<Rightarrow> ((packet list \<times> u8 list) list received \<times> bool) list \<Rightarrow> 'lib recorder \<Rightarrow>
       'lib recorder panics option" where
  "stage_worker px txc [] r = Some (Some r)"
| "stage_worker px txc ((verified, pod_exit) # turns) r =
     Option.bind (process_packets px txc verified r) (\<lambda>out.
       case out of
         None \<Rightarrow> Some None
       | Some (r, res) \<Rightarrow>
           if res = Inl RecvDisconnected \<or> res = Inl SendError \<or> pod_exit then Some (Some r)
           else stage_worker px txc turns r)"

section \<open>The stage as a machine\<close>

text \<open>One step of the stage: a hash or a tick of the tick producer, or a message to the worker.  \<open>ok\<close>
  restricts the transactions that a message brings.\<close>

definition brings_only ::
    "'lib tp_ext \<Rightarrow> transaction codec \<Rightarrow> (transaction \<Rightarrow> bool) \<Rightarrow> (packet list \<times> u8 list) list received \<Rightarrow> bool" where
  "brings_only px txc ok verified \<longleftrightarrow>
     (case verified of
        Message mms \<Rightarrow> list_all (\<lambda>(msgs, vers). case deserialize_transactions txc msgs of
            None \<Rightarrow> True | Some reqs \<Rightarrow> list_all ok (verified_transactions px reqs vers)) mms
      | _ \<Rightarrow> True)"

inductive leader_step ::
    "'lib tp_ext \<Rightarrow> transaction codec \<Rightarrow> (transaction \<Rightarrow> bool) \<Rightarrow> 'lib recorder \<Rightarrow> 'lib recorder \<Rightarrow> bool"
  for px txc ok where
  hash_step: "leader_step px txc ok r (PodRecorder_hash px r)"
| tick_step: "PodRecorder_tick px r = (r', res) \<Longrightarrow> leader_step px txc ok r r'"
| packets_step: "process_packets px txc verified r = Some (Some (r', res)) \<Longrightarrow>
    brings_only px txc ok verified \<Longrightarrow> leader_step px txc ok r r'"

lemma verified_transactions_plan:
  "list_all (verify_plan (ee_tx (px_entry px))) (verified_transactions px reqs vers)"
  by (auto simp: verified_transactions_def list_all_iff map_filter_def split: option.splits if_splits)

text \<open>What every invariant of the recorder needs: that a hash, a tick and a batch keep it.  \<open>I n\<close> may
  depend on the number of steps so far, up to a bound.\<close>

locale recorder_invariant =
  fixes px :: "'lib tp_ext" and ok :: "transaction \<Rightarrow> bool" and N :: nat
    and I :: "nat \<Rightarrow> 'lib recorder \<Rightarrow> bool"
  assumes later: "I n r \<Longrightarrow> I (Suc n) r"
    and hash: "n < N \<Longrightarrow> I n r \<Longrightarrow> I (Suc n) (PodRecorder_hash px r)"
    and tick: "n < N \<Longrightarrow> I n r \<Longrightarrow> PodRecorder_tick px r = (r', res) \<Longrightarrow> I n r'"
    and chunk: "n < N \<Longrightarrow> I n r \<Longrightarrow> list_all ok txs \<Longrightarrow>
      list_all (verify_plan (ee_tx (px_entry px))) txs \<Longrightarrow> process_chunk px txs r = Some (r', res) \<Longrightarrow> I n r'"
begin

lemma transactions_keep:
  assumes "stage_process_transactions px txs r = Some (Some (r', res))" "n < N" "I n r"
    and "list_all ok txs" "list_all (verify_plan (ee_tx (px_entry px))) txs"
  shows "I n r'"
proof -
  let ?good = "\<lambda>txs. list_all ok txs \<and> list_all (verify_plan (ee_tx (px_entry px))) txs"
  have part: "?good (take k txs) \<and> ?good (drop k txs)" if "?good txs" for k txs
    using that by (metis append_take_drop_id list_all_append)
  have "\<forall>r' res. out = Some (r', res) \<longrightarrow> px' = px \<longrightarrow> I n r \<longrightarrow> ?good txs \<longrightarrow> I n r'"
    if "stage_process_transactions px' txs r = Some out" for px' txs r out
  proof (rule stage_process_transactions.raw_induct [OF _ that])
    fix f :: "'lib tp_ext \<Rightarrow> transaction list \<Rightarrow> 'lib recorder \<Rightarrow> ('lib recorder \<times> (stage_error + unit)) panics option"
    fix px' :: "'lib tp_ext" and txs r out
    assume IH: "\<And>px' txs r out. f px' txs r = Some out \<Longrightarrow>
        \<forall>r' res. out = Some (r', res) \<longrightarrow> px' = px \<longrightarrow> I n r \<longrightarrow> ?good txs \<longrightarrow> I n r'"
      and body: "(if txs = [] then Some (Some (r, Inr ()))
        else Option.bind (num_will_fit (px_entry px') txs) (\<lambda>n.
          case process_chunk px' (take n txs) r of
            None \<Rightarrow> Some None
          | Some (r, Inl e) \<Rightarrow> Some (Some (r, Inl e))
          | Some (r, Inr _) \<Rightarrow> f px' (drop n txs) r)) = Some out"
    show "\<forall>r' res. out = Some (r', res) \<longrightarrow> px' = px \<longrightarrow> I n r \<longrightarrow> ?good txs \<longrightarrow> I n r'"
    proof (intro allI impI)
      fix r' res assume a: "out = Some (r', res)" "px' = px" "I n r" "?good txs"
      show "I n r'"
      proof (cases "txs = []")
        case True
        then show ?thesis using body a by simp
      next
        case False
        then obtain k r1 res1 where k: "process_chunk px (take k txs) r = Some (r1, res1)"
          "(case res1 of Inl e \<Rightarrow> Some (Some (r1, Inl e)) | Inr _ \<Rightarrow> f px (drop k txs) r1) = Some (Some (r', res))"
          using body a(1,2) by (auto simp: bind_eq_Some_conv split: option.splits)
        have "I n r1" using chunk [OF assms(2) a(3) _ _ k(1)] part [OF a(4)] by blast
        then show ?thesis using k(2) IH [of px "drop k txs" r1 "Some (r', res)"] part [OF a(4)]
          by (cases res1) auto
      qed
    qed
  qed
  then show ?thesis using assms by blast
qed

lemma packets_keep:
  assumes "process_packets px txc verified r = Some (Some (r', res))" "brings_only px txc ok verified"
    and "n < N" "I n r"
  shows "I n r'"
proof (cases verified)
  case (Message mms)
  have "I n r'" if "process_batches px txc mms r = Some (Some (r', res))" "brings_only px txc ok (Message mms)"
      "I n r" for mms r
    using that
  proof (induction mms arbitrary: r)
    case (Cons mm mms)
    obtain msgs vers where mm: "mm = (msgs, vers)" by (cases mm)
    obtain reqs r1 res1 where run: "deserialize_transactions txc msgs = Some reqs"
      "stage_process_transactions px (verified_transactions px reqs vers) r = Some (Some (r1, res1))"
      "(case res1 of Inl e \<Rightarrow> Some (Some (r1, Inl e)) | Inr _ \<Rightarrow> process_batches px txc mms r1) = Some (Some (r', res))"
      using Cons.prems(1) by (auto simp: mm bind_eq_Some_conv split: option.splits)
    have "I n r1"
      using Cons.prems(2,3) run(1) verified_transactions_plan
      by (intro transactions_keep [OF run(2) assms(3)]) (auto simp: brings_only_def mm)
    then show ?case using run(3) Cons.IH Cons.prems(2) by (cases res1) (auto simp: brings_only_def)
  qed simp
  then show ?thesis using assms Message by (simp add: process_packets_def)
qed (use assms in \<open>auto simp: process_packets_def\<close>)

lemma step_keeps:
  assumes "leader_step px txc ok r r'" "n < N" "I n r"
  shows "I (Suc n) r'"
  using assms(1)
proof cases
  case hash_step
  then show ?thesis using hash assms(2,3) by blast
next
  case (tick_step res)
  then show ?thesis using tick later assms(2,3) by blast
next
  case (packets_step verified res)
  then show ?thesis using packets_keep later assms(2,3) by blast
qed

lemma run_keeps:
  "(leader_step px txc ok ^^ n) r r' \<Longrightarrow> n \<le> N \<Longrightarrow> I 0 r \<Longrightarrow> I n r'"
  by (induction n arbitrary: r') (auto intro: step_keeps)

end

section \<open>The entries chain\<close>

definition last_entry_id :: "hash \<Rightarrow> entry list \<Rightarrow> hash" where
  "last_entry_id h es = (if es = [] then h else entry_id (last es))"

lemma last_entry_id_snoc [simp]: "last_entry_id h (es @ [e]) = entry_id e"
  by (simp add: last_entry_id_def)

definition chained :: "'lib tp_ext \<Rightarrow> hash \<Rightarrow> nat \<Rightarrow> 'lib recorder \<Rightarrow> bool" where
  "chained px h n r \<longleftrightarrow> rec_open r \<and> block_verify (px_entry px) (concat (rec_sent r)) h \<and>
     last_hash (rec_pod r) = hash_iter (ee_sha (px_entry px)) (unat (pod_num_hashes (rec_pod r)))
       (last_entry_id h (concat (rec_sent r))) \<and>
     unat (pod_num_hashes (rec_pod r)) \<le> n \<and>
     tp_last_id (rec_tp r) = Some (last_entry_id h (concat (rec_sent r)))"

lemma tp_last_id_register [simp]: "tp_last_id (register_entry_id px h st) = Some h"
  by (simp add: tp_last_id_def register_entry_id_def Let_def)

lemma sent_chained:
  assumes "chained px h n r" "entry_verify (px_entry px) e (last_entry_id h (concat (rec_sent r)))"
    and "send_entries [e] (r\<lparr>rec_pod := \<lparr>last_hash = entry_id e, pod_num_hashes = 0\<rparr>,
      rec_tp := register_entry_id px (entry_id e) st\<rparr>) = (r', res)"
  shows "chained px h n r'"
  using assms by (auto simp: chained_def send_entries_def block_verify_append last_entry_id_def)

lemma unat_Suc_small: "unat (w :: u64) < 2 ^ 64 - 1 \<Longrightarrow> unat (w + 1) = Suc (unat w)"
  by (simp add: unat_word_ariths)

lemma chained_tick:
  assumes "n < 2 ^ 64 - 1" "chained px h n r" "PodRecorder_tick px r = (r', res)"
  shows "chained px h n r'"
proof -
  let ?p = "rec_pod r" and ?sha = "ee_sha (px_entry px)" and ?l = "last_entry_id h (concat (rec_sent r))"
  define e where "e = \<lparr>num_hashes = pod_num_hashes ?p + 1,
      entry_id = hash_one ?sha (hash_as_ref (last_hash ?p)), transactions = []\<rparr>"
  have "unat (pod_num_hashes ?p + 1) = Suc (unat (pod_num_hashes ?p))"
    using assms(1,2) by (intro unat_Suc_small) (simp add: chained_def)
  then have "entry_verify (px_entry px) e ?l"
    using assms(2) by (simp add: e_def entry_verify_def next_hash_eq chained_def)
  then show ?thesis
    using assms(3) by (intro sent_chained [OF assms(2), of e "rec_tp r" r' res])
      (auto simp: PodRecorder_tick_def Pod_tick_def Pod_hash_def Let_def e_def)
qed

lemma chained_record:
  assumes "n < 2 ^ 64 - 1" "chained px h n r" "txs \<noteq> []" "list_all (verify_plan (ee_tx (px_entry px))) txs"
    and "PodRecorder_record px (Transaction_hash (ee_sha (px_entry px)) txs) txs (r\<lparr>rec_tp := st\<rparr>) = (r', res)"
  shows "chained px h n r'"
proof -
  let ?p = "rec_pod r" and ?sha = "ee_sha (px_entry px)" and ?l = "last_entry_id h (concat (rec_sent r))"
  define e where "e = \<lparr>num_hashes = pod_num_hashes ?p + 1,
      entry_id = hashv ?sha [hash_as_ref (last_hash ?p), hash_as_ref (Transaction_hash ?sha txs)], transactions = txs\<rparr>"
  have "unat (pod_num_hashes ?p + 1) = Suc (unat (pod_num_hashes ?p))"
    using assms(1,2) by (intro unat_Suc_small) (simp add: chained_def)
  then have "entry_verify (px_entry px) e ?l"
    using assms(2-4) by (simp add: e_def entry_verify_def next_hash_eq chained_def)
  then show ?thesis
    using assms(5) by (intro sent_chained [OF assms(2), of e st r' res])
      (auto simp: PodRecorder_record_def Pod_record_def Let_def e_def)
qed

lemma process_chunk_cases:
  assumes "process_chunk px txs r = Some (r', res)"
  obtains st results where "process_transactions px txs (rec_tp r) = Some (st, results)"
    "succeeded results txs = []" "r' = r\<lparr>rec_tp := st\<rparr>" "res = Inr ()"
  | st results where "process_transactions px txs (rec_tp r) = Some (st, results)"
    "succeeded results txs \<noteq> []"
    "PodRecorder_record px (Transaction_hash (ee_sha (px_entry px)) (succeeded results txs))
       (succeeded results txs) (r\<lparr>rec_tp := st\<rparr>) = (r', res)"
  using assms unfolding process_chunk_def succeeded_def [symmetric] Let_def
  by (auto simp: bind_eq_Some_conv split: if_splits)

lemma tp_last_id_process:
  assumes "process_transactions px txs st = Some (st', res)"
  shows "tp_last_id st' = tp_last_id st"
  by (rule process_transactions_cases [OF assms]) (simp add: tp_last_id_def)

interpretation chain: recorder_invariant px "\<lambda>_. True" "2 ^ 64 - 1" "chained px h" for px h
proof
  fix n r assume "chained px h n r"
  then show "chained px h (Suc n) r" by (simp add: chained_def)
next
  fix n r assume n: "n < 2 ^ 64 - 1" and r: "chained px h n r"
  then have "unat (pod_num_hashes (rec_pod r) + 1) = Suc (unat (pod_num_hashes (rec_pod r)))"
    by (intro unat_Suc_small) (simp add: chained_def)
  then show "chained px h (Suc n) (PodRecorder_hash px r)"
    using r by (simp add: chained_def PodRecorder_hash_def Pod_hash_def)
next
  fix n r r' res assume "n < 2 ^ 64 - 1" "chained px h n r" "PodRecorder_tick px r = (r', res)"
  then show "chained px h n r'" by (rule chained_tick)
next
  fix n r txs r' res
  assume n: "n < 2 ^ 64 - 1" "chained px h n r" "list_all (verify_plan (ee_tx (px_entry px))) txs"
    and run: "process_chunk px txs r = Some (r', res)"
  show "chained px h n r'"
    using run
  proof (cases rule: process_chunk_cases)
    case (1 st results)
    then show ?thesis using n(2) tp_last_id_process by (fastforce simp: chained_def)
  next
    case (2 st results)
    then show ?thesis
      using n set_succeeded [of results txs] by (intro chained_record [OF n(1,2) 2(2) _ 2(3)]) (auto simp: list_all_iff)
  qed
qed

section \<open>The entries replay\<close>

text \<open>The state of a validator that has processed what was sent.\<close>

definition replayed :: "'lib tp_ext \<Rightarrow> 'lib tp \<Rightarrow> nat \<Rightarrow> 'lib recorder \<Rightarrow> bool" where
  "replayed px V0 n r \<longleftrightarrow> rec_open r \<and> solvent (tp_accounts (rec_tp r)) \<and>
     (\<exists>V. process_entries px (concat (rec_sent r)) V0 = Some (V, Inr ()) \<and> replica (rec_tp r) V)"

lemma process_entries_append:
  assumes "process_entries px es st = Some (st1, Inr ())"
  shows "process_entries px (es @ fs) st = process_entries px fs st1"
  using assms
proof (induction es arbitrary: st)
  case (Cons e es)
  then obtain st2 where "process_entry px e st = Some (st2, Inr ())" "process_entries px es st2 = Some (st1, Inr ())"
    by (auto simp: bind_eq_Some_conv split: sum.splits) (metis (full_types) old.unit.exhaust sumE)
  then show ?case using Cons.IH by simp
qed simp

lemma process_no_transactions: "process_transactions px [] st = Some (st, [])"
  by (simp add: process_transactions_def store_accounts_def update_transaction_statuses_def)

lemma sent_replayed:
  assumes "process_entries px (concat (rec_sent r)) V0 = Some (V, Inr ())"
    and "process_entry px e V = Some (V', Inr ())" "replica st V'" "rec_open r" "solvent (tp_accounts st)"
    and "send_entries [e] (r\<lparr>rec_pod := p, rec_tp := st\<rparr>) = (r', res)"
  shows "replayed px V0 n r'"
  using assms process_entries_append [OF assms(1), of "[e]"]
  by (auto simp: replayed_def send_entries_def)

lemma solvent_register [simp]: "tp_accounts (register_entry_id px h st) = tp_accounts st"
  by (simp add: register_entry_id_def Let_def)

lemma replayed_tick:
  assumes "replayed px V0 n r" "PodRecorder_tick px r = (r', res)"
  shows "replayed px V0 n r'"
proof -
  obtain V where V: "process_entries px (concat (rec_sent r)) V0 = Some (V, Inr ())" "replica (rec_tp r) V"
    "rec_open r" "solvent (tp_accounts (rec_tp r))"
    using assms(1) by (auto simp: replayed_def)
  obtain tick pod where tp: "Pod_tick (ee_sha (px_entry px)) (rec_pod r) = (tick, pod)" by fastforce
  have "process_entry px \<lparr>num_hashes = pe_num_hashes tick, entry_id = pe_id tick, transactions = []\<rparr> V =
      Some (register_entry_id px (pe_id tick) V, Inr ())"
    by (simp add: process_entry_def)
  then show ?thesis
    using assms(2) V tp register_replica [OF V(2)]
    by (intro sent_replayed [OF V(1)]) (simp_all add: PodRecorder_tick_def)
qed

lemma replayed_chunk:
  assumes "replayed px V0 n r" "list_all (fee_ok px) txs" "process_chunk px txs r = Some (r', res)"
  shows "replayed px V0 n r'"
proof -
  obtain V where V: "process_entries px (concat (rec_sent r)) V0 = Some (V, Inr ())" "replica (rec_tp r) V"
    "rec_open r" "solvent (tp_accounts (rec_tp r))"
    using assms(1) by (auto simp: replayed_def)
  obtain st results where run: "process_transactions px txs (rec_tp r) = Some (st, results)"
    using assms(3) by (cases rule: process_chunk_cases) auto
  have solv: "solvent (tp_accounts st)" by (rule process_transactions_solvent [OF run V(4)])
  obtain V' where V': "process_transactions px (succeeded results txs) V = Some (V', all_ok results)" "replica st V'"
    using process_succeeded [OF run V(2,4) assms(2)] by blast
  show ?thesis
    using assms(3)
  proof (cases rule: process_chunk_cases)
    case (1 st' results')
    then have eq: "st' = st" "results' = results" using run by simp_all
    then have "V' = V" using V'(1) 1(2) by (simp add: process_no_transactions)
    then have "replica st V" using V'(2) by simp
    then show ?thesis using 1 eq V solv by (auto simp: replayed_def)
  next
    case (2 st' results')
    then have eq: "st' = st" "results' = results" using run by simp_all
    obtain tick pod where tp: "Pod_record (ee_sha (px_entry px))
        (Transaction_hash (ee_sha (px_entry px)) (succeeded results txs)) (rec_pod r) = (tick, pod)" by fastforce
    have "process_entry px \<lparr>num_hashes = pe_num_hashes tick, entry_id = pe_id tick,
        transactions = succeeded results txs\<rparr> V = Some (register_entry_id px (pe_id tick) V', Inr ())"
      using V'(1) 2(2) eq by (simp add: process_entry_def)
    then show ?thesis
      using 2(3) V solv tp register_replica [OF V'(2)] eq
      by (intro sent_replayed [OF V(1)]) (simp_all add: PodRecorder_record_def)
  qed
qed

interpretation replay: recorder_invariant px "fee_ok px" N "replayed px V0" for px N V0
proof
  fix n r assume "replayed px V0 n r"
  then show "replayed px V0 (Suc n) r" "replayed px V0 (Suc n) (PodRecorder_hash px r)"
    by (simp_all add: replayed_def PodRecorder_hash_def)
qed (auto intro: replayed_tick replayed_chunk)

section \<open>Every call returns\<close>

lemma fit_search_nothing_fits:
  assumes "\<forall>m. 1 \<le> m \<longrightarrow> \<not> fits m" "1 \<le> num"
  shows "fit_search fits num upper 1 = Some 1"
  using assms(2)
proof (induction num arbitrary: upper rule: less_induct)
  case (less num)
  have no: "\<not> fits num" using assms(1) less.prems by blast
  show ?case
  proof (cases "num = 1")
    case True
    then show ?thesis using no by (subst fit_search.simps) simp
  next
    case False
    then have "(1 + num) div 2 < num" "1 \<le> (1 + num) div 2" using less.prems by simp_all
    moreover from this have "fit_search fits num upper 1 = fit_search fits ((1 + num) div 2) num 1"
      using no by (subst fit_search.simps) simp
    ultimately show ?thesis using less.IH by simp
  qed
qed

lemma num_will_fit_progress:
  assumes "entry_codecs ee" "txs \<noteq> []"
  shows "\<exists>n. num_will_fit ee txs = Some n \<and> 0 < n \<and> n \<le> length txs"
proof (cases "will_fit ee [hd txs]")
  case True
  then show ?thesis using entry_codecs.num_will_fit_maximal [OF assms] by blast
next
  case False
  have "\<not> will_fit ee (take m txs)" if "1 \<le> m" for m
  proof
    assume "will_fit ee (take m txs)"
    then have "will_fit ee [hd txs]"
      using entry_codecs.will_fit_member [OF assms(1), of "take m txs" "hd txs"] assms(2) that
      by (cases txs; cases m) simp_all
    then show False using False by simp
  qed
  then have "num_will_fit ee txs = Some 1"
    using assms(2) fit_search_nothing_fits [of "\<lambda>n. will_fit ee (take n txs)" "length txs" "length txs"]
    by (simp add: num_will_fit_def Suc_le_eq)
  then show ?thesis using assms(2) by (simp add: Suc_le_eq)
qed

lemma stage_transactions_return:
  assumes "entry_codecs (px_entry px)"
  shows "\<exists>out. stage_process_transactions px txs r = Some out"
proof (induction "length txs" arbitrary: txs r rule: less_induct)
  case less
  show ?case
  proof (cases "txs = []")
    case True
    then show ?thesis by (subst stage_process_transactions.simps) simp
  next
    case False
    then obtain n where n: "num_will_fit (px_entry px) txs = Some n" "0 < n" "n \<le> length txs"
      using num_will_fit_progress [OF assms] by blast
    then have "length (drop n txs) < length txs" by simp
    then have IH: "\<exists>out. stage_process_transactions px (drop n txs) r' = Some out" for r'
      using less by blast
    show ?thesis
    proof (cases "process_chunk px (take n txs) r")
      case None
      then show ?thesis using False n(1) by (subst stage_process_transactions.simps) simp
    next
      case (Some out)
      obtain r1 res1 where "out = (r1, res1)" by (cases out)
      then show ?thesis
        using False n(1) Some IH by (subst stage_process_transactions.simps) (simp split: sum.split)
    qed
  qed
qed

section \<open>A concrete stage\<close>

text \<open>One packet whose bytes decode to a transfer that succeeds, followed by a tick.\<close>

definition sample_transfer :: transaction where
  "sample_transfer = sample_system_tx (Move 4)\<lparr>tx_signature := Signature 1, tx_keys := [Pubkey 21, Pubkey 22]\<rparr>"

definition sample_txc :: "transaction codec" where
  "sample_txc = \<lparr>enc = (\<lambda>_. []), dec = (\<lambda>_. Some sample_transfer)\<rparr>"

definition sample_message :: "(packet list \<times> u8 list) list received" where
  "sample_message = Message [([Packet_default], [1])]"

lemma sample_transfer_fits: "num_will_fit (px_entry sample_px) [sample_transfer] = Some 1"
  using num_will_fit_progress [OF bincode_entry_codecs, of "[sample_transfer]" "\<lambda>bs. Hash (le_word bs)"]
  by (auto simp: sample_px_def le_Suc_eq)

text \<open>The plan check reads every transaction's userdata as an instruction of the payment-plan program; the
  encoding of a transfer reads as \<open>ApplySignature\<close>.\<close>

lemma sample_transfer_instruction:
  "tx_instruction (ee_tx (px_entry sample_px)) sample_transfer = Some ApplySignature"
  using get_tagged(1) [of 2 "put u64_wire (4 :: u64)" "[]"]
  by (simp add: tx_instruction_def sample_px_def bincode_tx_ext_def instruction_wire_def sample_transfer_def
      sample_system_tx_def system_program_wire_def)

lemma sample_transfer_plan: "verify_plan (ee_tx (px_entry sample_px)) sample_transfer"
  by (simp add: verify_plan_def sample_transfer_instruction)

lemma sample_transfer_verified:
  "deserialize_transactions sample_txc [Packet_default] = Some [Some (sample_transfer, Meta_addr Meta_default)]"
  "verified_transactions sample_px [Some (sample_transfer, a)] [1] = [sample_transfer]"
  by (simp_all add: deserialize_transactions_def sample_txc_def Packet_default_def Meta_default_def subslice_def
      verified_transactions_def map_filter_def sample_transfer_plan)

lemma sample_stage_run:
  assumes "rec_tp r = sample_tp" "rec_open r"
  shows "\<exists>r' e. process_packets sample_px sample_txc sample_message r = Some (Some (r', Inr ())) \<and>
    rec_open r' \<and> rec_sent r' = rec_sent r @ [[e]] \<and> transactions e = [sample_transfer]"
proof -
  obtain st where st: "process_transactions sample_px [sample_transfer] sample_tp = Some (st, [Inr ()])"
    using sample_move_run process_transaction_batch unfolding sample_transfer_def by blast
  obtain r' where r': "PodRecorder_record sample_px (Transaction_hash (ee_sha (px_entry sample_px)) [sample_transfer])
      [sample_transfer] (r\<lparr>rec_tp := st\<rparr>) = (r', Inr ())"
    and sent: "rec_open r'" "\<exists>e. rec_sent r' = rec_sent r @ [[e]] \<and> transactions e = [sample_transfer]"
    using assms(2) by (simp add: PodRecorder_record_def Let_def send_entries_def case_prod_beta)
  then have "process_chunk sample_px [sample_transfer] r = Some (r', Inr ())"
    using st assms(1) by (simp add: process_chunk_def)
  then have "stage_process_transactions sample_px [sample_transfer] r = Some (Some (r', Inr ()))"
    using sample_transfer_fits by (simp add: stage_process_transactions.simps)
  then show ?thesis
    using sent by (simp add: process_packets_def sample_message_def sample_transfer_verified)
qed

lemma sample_leader_run:
  "\<exists>r0 r. PodRecorder_new sample_tp = Some r0 \<and> (leader_step sample_px sample_txc (fee_ok sample_px) ^^ 2) r0 r \<and>
    (leader_step sample_px sample_txc (\<lambda>_. True) ^^ 2) r0 r \<and>
    (\<exists>e f. concat (rec_sent r) = [e, f] \<and> transactions e = [sample_transfer] \<and> transactions f = [])"
proof -
  obtain r0 where r0: "PodRecorder_new sample_tp = Some r0" "rec_tp r0 = sample_tp" "rec_open r0" "rec_sent r0 = []"
    by (simp add: PodRecorder_new_def tp_last_id_def sample_tp_def)
  obtain r1 e where r1: "process_packets sample_px sample_txc sample_message r0 = Some (Some (r1, Inr ()))"
    "rec_open r1" "rec_sent r1 = [[e]]" "transactions e = [sample_transfer]"
    using sample_stage_run [OF r0(2,3)] r0(4) by auto
  have "fee_ok sample_px sample_transfer" by (simp add: fee_ok_def sample_transfer_def sample_system_tx_def)
  then have "brings_only sample_px sample_txc (fee_ok sample_px) sample_message"
    by (simp add: brings_only_def sample_message_def sample_transfer_verified)
  then have step1: "leader_step sample_px sample_txc (fee_ok sample_px) r0 r1"
    "leader_step sample_px sample_txc (\<lambda>_. True) r0 r1"
    using r1(1) by (auto intro!: packets_step simp: brings_only_def list_all_iff split: received.split option.split)
  have "\<exists>r2 f. PodRecorder_tick sample_px r1 = (r2, Inr ()) \<and> rec_sent r2 = [[e], [f]] \<and> transactions f = []"
    using r1(2,3) by (simp add: PodRecorder_tick_def Let_def send_entries_def case_prod_beta)
  then obtain r2 f where tick: "PodRecorder_tick sample_px r1 = (r2, Inr ())" "rec_sent r2 = [[e], [f]]" "transactions f = []"
    by blast
  have "leader_step sample_px sample_txc ok r1 r2" for ok using tick(1) by (rule tick_step)
  then have "(leader_step sample_px sample_txc (fee_ok sample_px) ^^ 2) r0 r2"
    "(leader_step sample_px sample_txc (\<lambda>_. True) ^^ 2) r0 r2"
    using step1 by (auto simp: numeral_2_eq_2)
  then show ?thesis using r0(1) tick(2,3) r1(4) by auto
qed

section \<open>What the leader's stage promises\<close>

text \<open>C4: whatever the interleaving of hashes, ticks and messages (fewer than 2^64 of them), the entries the
  stage sends form a valid block from the processor's last id at the start, and the processor's last id
  is always the id of the last entry sent.\<close>

theorem leader_entries_verify:
  assumes "PodRecorder_new st = Some r0" "(leader_step px txc (\<lambda>_. True) ^^ n) r0 r" "n < 2 ^ 64"
  shows "\<exists>h. tp_last_id st = Some h \<and> block_verify (px_entry px) (concat (rec_sent r)) h \<and>
    tp_last_id (rec_tp r) = Some (last_entry_id h (concat (rec_sent r)))"
proof -
  obtain h where h: "tp_last_id st = Some h" "r0 = \<lparr>rec_pod = Pod_new h, rec_tp = st, rec_sent = [], rec_open = True\<rparr>"
    using assms(1) by (auto simp: PodRecorder_new_def bind_eq_Some_conv)
  then have "chained px h 0 r0" by (simp add: chained_def Pod_new_def last_entry_id_def)
  then have "chained px h n r" using chain.run_keeps [OF assms(2)] assms(3) by simp
  then show ?thesis using h(1) by (auto simp: chained_def)
qed

theorem leader_entries_witness:
  "\<exists>r :: unit recorder. block_verify (px_entry sample_px) (concat (rec_sent r)) (Hash 0) \<and>
    map transactions (take 1 (concat (rec_sent r))) = [[sample_transfer]]"
proof -
  obtain r0 r e f where run: "PodRecorder_new sample_tp = Some r0"
    "(leader_step sample_px sample_txc (\<lambda>_. True) ^^ 2) r0 r"
    "concat (rec_sent r) = [e, f]" "transactions e = [sample_transfer]"
    using sample_leader_run by blast
  have "\<exists>h. tp_last_id sample_tp = Some h \<and> block_verify (px_entry sample_px) (concat (rec_sent r)) h"
    using leader_entries_verify [OF run(1,2)] by auto
  moreover have "tp_last_id sample_tp = Some (Hash 0)" by (simp add: tp_last_id_def sample_tp_def)
  moreover have "map transactions (take 1 (concat (rec_sent r))) = [[sample_transfer]]" using run(3,4) by simp
  ultimately show ?thesis by (metis option.inject)
qed





end
