(* ===== verification/Blockthread.thy ===== *)
theory Blockthread
  imports Entries
begin

text \<open>
  The table of nodes that gossip replicates (src/blockthread.rs): what a node knows of every other
  node, how it merges what it hears, ages out the silent ones, counts the votes for a leader and
  answers requests for updates.

  A \<open>HashMap\<close> is a partial map.  The order in which the standard library walks one is not specified,
  so an operation that walks a map takes the keys in the order of that walk as an argument, and the
  theorems hold for every order.  The clock is an argument too; its differences are \<open>u64\<close>
  subtractions and wrap.  Indexing a map panics on a missing key.  Peers and addresses picked at
  random are arguments.

  The weights of \<open>ChooseWeightedPeerStrategy\<close> are floating-point numbers and are left out: the choice
  of a peer among the candidates is an argument of \<open>gossip_request\<close>.
\<close>

section \<open>Data\<close>

datatype blockthread_error = NoPeers | NoLeader | BadContactInfo | BadNodeInfo | BadGossipAddress

record contact_info =
  ci_ncp :: socket_addr
  ci_tx_signer :: socket_addr
  ci_rpu :: socket_addr
  ci_tx_creator :: socket_addr
  ci_storage_addr :: socket_addr
  ci_version :: u64

record ledger_state =
  ls_last_id :: hash

record node_info =
  ni_id :: pubkey
  ni_version :: u64
  ni_contact_info :: contact_info
  ni_leader_id :: pubkey
  ni_ledger_state :: ledger_state

record blockthread =
  bt_table :: "pubkey \<rightharpoonup> node_info"
  bt_local :: "pubkey \<rightharpoonup> u64"
  bt_remote :: "pubkey \<rightharpoonup> u64"
  bt_alive :: "pubkey \<rightharpoonup> u64"
  bt_update_index :: u64
  bt_id :: pubkey
  bt_external_liveness :: "pubkey \<rightharpoonup> (pubkey \<rightharpoonup> u64)"
  bt_scheduled_leaders :: "u64 \<rightharpoonup> pubkey"
  bt_leader_rotation_interval :: u64

datatype protocol =
    RequestUpdates u64 node_info
  | ReceiveUpdates pubkey u64 "node_info list" "(pubkey \<times> u64) list"
  | RequestWindowIndex node_info u64

definition GOSSIP_SLEEP_MILLIS :: u64 where "GOSSIP_SLEEP_MILLIS = 100"
definition GOSSIP_PURGE_MILLIS :: u64 where "GOSSIP_PURGE_MILLIS = 15000"
definition MIN_TABLE_SIZE :: nat where "MIN_TABLE_SIZE = 2"

section \<open>Addresses\<close>

text \<open>\<open>is_unspecified\<close> and \<open>is_multicast\<close> of the standard library.\<close>

fun ip_unspecified :: "socket_addr \<Rightarrow> bool" where
  "ip_unspecified (SockV4 a b c d _) \<longleftrightarrow> a = 0 \<and> b = 0 \<and> c = 0 \<and> d = 0"
| "ip_unspecified (SockV6 segs _ _ _) \<longleftrightarrow> list_all (\<lambda>s. s = 0) segs"

fun ip_multicast :: "socket_addr \<Rightarrow> bool" where
  "ip_multicast (SockV4 a _ _ _ _) \<longleftrightarrow> 224 \<le> a \<and> a \<le> 239"
| "ip_multicast (SockV6 segs _ _ _) \<longleftrightarrow>
     (case segs of [] \<Rightarrow> False | s # _ \<Rightarrow> s AND 0xff00 = 0xff00)"

definition is_valid_ip :: "socket_addr \<Rightarrow> bool" where
  "is_valid_ip a \<longleftrightarrow> \<not> (ip_unspecified a \<or> ip_multicast a)"

definition is_valid_address :: "socket_addr \<Rightarrow> bool" where
  "is_valid_address a \<longleftrightarrow> sock_port a \<noteq> 0 \<and> is_valid_ip a"

fun next_port :: "socket_addr \<Rightarrow> u16 \<Rightarrow> socket_addr" where
  "next_port (SockV4 a b c d p) nxt = SockV4 a b c d (p + nxt)"
| "next_port (SockV6 segs p f s) nxt = SockV6 segs (p + nxt) f s"

section \<open>Nodes\<close>

definition NodeInfo_new :: "pubkey \<Rightarrow> socket_addr \<Rightarrow> socket_addr \<Rightarrow> socket_addr \<Rightarrow> socket_addr \<Rightarrow> socket_addr \<Rightarrow> node_info" where
  "NodeInfo_new key ncp tx_signer rpu tx_creator storage_addr =
     \<lparr>ni_id = key, ni_version = 0,
      ni_contact_info = \<lparr>ci_ncp = ncp, ci_tx_signer = tx_signer, ci_rpu = rpu, ci_tx_creator = tx_creator,
        ci_storage_addr = storage_addr, ci_version = 0\<rparr>,
      ni_leader_id = Pubkey_default, ni_ledger_state = \<lparr>ls_last_id = Hash_default\<rparr>\<rparr>"

definition new_localhost :: "pubkey \<Rightarrow> node_info" where
  "new_localhost key = NodeInfo_new key (SockV4 127 0 0 1 1234) (SockV4 127 0 0 1 1235)
     (SockV4 127 0 0 1 1236) (SockV4 127 0 0 1 1237) (SockV4 127 0 0 1 1238)"

definition new_with_pubkey_socketaddr :: "pubkey \<Rightarrow> socket_addr \<Rightarrow> node_info" where
  "new_with_pubkey_socketaddr key bind_addr =
     NodeInfo_new key (next_port bind_addr 1) (next_port bind_addr 2) (next_port bind_addr 3) bind_addr
       (SockV4 0 0 0 0 0)"

definition new_entry_point :: "socket_addr \<Rightarrow> node_info" where
  "new_entry_point gossip_addr =
     (let daddr = SockV4 0 0 0 0 0 in NodeInfo_new Pubkey_default gossip_addr daddr daddr daddr daddr)"

section \<open>Walking maps\<close>

text \<open>The values of a map in the order of a walk over its keys.\<close>

definition map_values :: "'k list \<Rightarrow> ('k \<rightharpoonup> 'v) \<Rightarrow> 'v list" where
  "map_values ks m = List.map_filter m ks"

definition walk_of :: "'k list \<Rightarrow> ('k \<rightharpoonup> 'v) \<Rightarrow> bool" where
  "walk_of ks m \<longleftrightarrow> distinct ks \<and> set ks = dom m"

primrec filter_panics :: "('a \<Rightarrow> bool panics) \<Rightarrow> 'a list \<Rightarrow> 'a list panics" where
  "filter_panics p [] = Some []"
| "filter_panics p (x # xs) = do {
     b \<leftarrow> p x;
     ys \<leftarrow> filter_panics p xs;
     Some (if b then x # ys else ys) }"

section \<open>The table\<close>

definition BlockThread_new :: "node_info \<Rightarrow> blockthread_error + blockthread" where
  "BlockThread_new v =
     (if ni_version v \<noteq> 0 then Inl BadNodeInfo
      else Inr \<lparr>bt_table = [ni_id v \<mapsto> v], bt_local = [ni_id v \<mapsto> 1], bt_remote = Map.empty,
        bt_alive = Map.empty, bt_update_index = 1, bt_id = ni_id v, bt_external_liveness = Map.empty,
        bt_scheduled_leaders = Map.empty, bt_leader_rotation_interval = 100\<rparr>)"

definition my_data :: "blockthread \<Rightarrow> node_info panics" where
  "my_data bt = bt_table bt (bt_id bt)"

definition leader_data :: "blockthread \<Rightarrow> node_info option panics" where
  "leader_data bt = do {
     me \<leftarrow> my_data bt;
     Some (if ni_leader_id me = Pubkey_default then None else bt_table bt (ni_leader_id me)) }"

definition update_liveness :: "u64 \<Rightarrow> pubkey \<Rightarrow> blockthread \<Rightarrow> blockthread" where
  "update_liveness now key bt = bt\<lparr>bt_alive := (bt_alive bt)(key \<mapsto> now)\<rparr>"

definition insert_node :: "u64 \<Rightarrow> node_info \<Rightarrow> blockthread \<Rightarrow> nat \<times> blockthread" where
  "insert_node now v bt =
     (if (case bt_table bt (ni_id v) of None \<Rightarrow> True | Some old \<Rightarrow> ni_version old < ni_version v)
      then let ix = bt_update_index bt + 1
           in (1, update_liveness now (ni_id v)
                 (bt\<lparr>bt_update_index := ix, bt_table := (bt_table bt)(ni_id v \<mapsto> v),
                     bt_local := (bt_local bt)(ni_id v \<mapsto> ix)\<rparr>))
      else (0, bt))"

definition set_leader :: "u64 \<Rightarrow> pubkey \<Rightarrow> blockthread \<Rightarrow> blockthread panics" where
  "set_leader now key bt = do {
     me \<leftarrow> my_data bt;
     Some (snd (insert_node now (me\<lparr>ni_leader_id := key, ni_version := ni_version me + 1\<rparr>) bt)) }"

definition get_scheduled_leader :: "u64 \<Rightarrow> blockthread \<Rightarrow> pubkey option panics" where
  "get_scheduled_leader entry_height bt =
     (case bt_scheduled_leaders bt entry_height of
        Some x \<Rightarrow> Some (Some x)
      | None \<Rightarrow> do { me \<leftarrow> my_data bt; Some (Some (ni_leader_id me)) })"

definition set_leader_rotation_interval :: "u64 \<Rightarrow> blockthread \<Rightarrow> blockthread" where
  "set_leader_rotation_interval interval bt = bt\<lparr>bt_leader_rotation_interval := interval\<rparr>"

definition set_scheduled_leader :: "u64 \<Rightarrow> pubkey \<Rightarrow> blockthread \<Rightarrow> blockthread" where
  "set_scheduled_leader entry_height key bt =
     bt\<lparr>bt_scheduled_leaders := (bt_scheduled_leaders bt)(entry_height \<mapsto> key)\<rparr>"

definition get_valid_peers :: "pubkey list \<Rightarrow> blockthread \<Rightarrow> node_info list panics" where
  "get_valid_peers ks bt = do {
     me \<leftarrow> my_data bt;
     Some (filter (\<lambda>x. is_valid_address (ci_rpu (ni_contact_info x)))
       (filter (\<lambda>x. ni_id x \<noteq> ni_id me) (map_values ks (bt_table bt)))) }"

definition insert_vote :: "u64 \<Rightarrow> pubkey \<Rightarrow> vote \<Rightarrow> hash \<Rightarrow> blockthread \<Rightarrow> blockthread panics" where
  "insert_vote now key v last_id bt =
     (case bt_table bt key of
        None \<Rightarrow> Some bt
      | Some old \<Rightarrow>
          if ci_version (ni_contact_info old) < contact_info_version v then Some bt
          else do {
            me \<leftarrow> my_data bt;
            if vote_version v \<le> ni_version old then Some (update_liveness now key bt)
            else let d = old\<lparr>ni_version := vote_version v, ni_ledger_state := \<lparr>ls_last_id = last_id\<rparr>\<rparr>
                 in Some (snd (insert_node now d (update_liveness now (ni_id d) bt))) })"

fun insert_votes :: "u64 \<Rightarrow> (pubkey \<times> vote \<times> hash) list \<Rightarrow> blockthread \<Rightarrow> blockthread panics" where
  "insert_votes now [] bt = Some bt"
| "insert_votes now ((key, v, last_id) # votes) bt = do {
     bt \<leftarrow> insert_vote now key v last_id bt;
     insert_votes now votes bt }"

text \<open>\<open>ks\<close> walks the table and \<open>as\<close> walks \<open>alive\<close>; the removal of the leader is stamped \<open>t\<close>.\<close>

definition forget_node :: "pubkey \<Rightarrow> blockthread \<Rightarrow> blockthread" where
  "forget_node key bt = bt\<lparr>bt_alive := (bt_alive bt)(key := None), bt_table := (bt_table bt)(key := None),
     bt_remote := (bt_remote bt)(key := None), bt_local := (bt_local bt)(key := None),
     bt_external_liveness := (\<lambda>k. map_option (\<lambda>m. m(key := None)) (((bt_external_liveness bt)(key := None)) k))\<rparr>"

definition purge_one :: "u64 \<Rightarrow> pubkey \<Rightarrow> pubkey \<Rightarrow> blockthread \<Rightarrow> blockthread panics" where
  "purge_one t leader_id key bt =
     (let bt = forget_node key bt
      in if key = leader_id then set_leader t Pubkey_default bt else Some bt)"

primrec purge_all :: "u64 \<Rightarrow> pubkey \<Rightarrow> pubkey list \<Rightarrow> blockthread \<Rightarrow> blockthread panics" where
  "purge_all t leader_id [] bt = Some bt"
| "purge_all t leader_id (key # keys) bt = do {
     bt \<leftarrow> purge_one t leader_id key bt;
     purge_all t leader_id keys bt }"

definition dead_ids :: "pubkey list \<Rightarrow> u64 \<Rightarrow> blockthread \<Rightarrow> pubkey list" where
  "dead_ids ks now bt =
     filter (\<lambda>k. case bt_alive bt k of
         None \<Rightarrow> False
       | Some v \<Rightarrow> k \<noteq> bt_id bt \<and> GOSSIP_PURGE_MILLIS < now - v) ks"

definition purge :: "pubkey list \<Rightarrow> pubkey list \<Rightarrow> u64 \<Rightarrow> u64 \<Rightarrow> blockthread \<Rightarrow> blockthread panics" where
  "purge ks as now t bt =
     (if length (map_values ks (bt_table bt)) \<le> MIN_TABLE_SIZE then Some bt
      else do {
        leader \<leftarrow> leader_data bt;
        (case leader of
           None \<Rightarrow> Some bt
         | Some l \<Rightarrow> purge_all t (ni_id l) (dead_ids as now bt) bt) })"

definition compute_broadcast_table :: "pubkey list \<Rightarrow> blockthread \<Rightarrow> node_info list panics" where
  "compute_broadcast_table ks bt = do {
     me \<leftarrow> my_data bt;
     live \<leftarrow> sequence_panics (map (bt_table bt) ks);
     Some (filter (\<lambda>v. ni_id me \<noteq> ni_id v \<and> is_valid_address (ci_tx_signer (ni_contact_info v))) live) }"

definition convergence :: "pubkey list \<Rightarrow> blockthread \<Rightarrow> u64" where
  "convergence ks bt =
     (let vs = map_values ks (bt_remote bt) in fold (\<lambda>b a. min a b) vs (of_nat (length vs) + 1))"

definition updated_since :: "u64 \<Rightarrow> blockthread \<Rightarrow> node_info \<Rightarrow> bool panics" where
  "updated_since v bt x =
     (if ni_id x \<noteq> Pubkey_default then map_option (\<lambda>ix. v < ix) (bt_local bt (ni_id x)) else Some False)"

definition get_updates_since :: "pubkey list \<Rightarrow> u64 \<Rightarrow> blockthread \<Rightarrow> (pubkey \<times> u64 \<times> node_info list) panics" where
  "get_updates_since ks v bt = do {
     data \<leftarrow> filter_panics (updated_since v bt) (map_values ks (bt_table bt));
     Some (bt_id bt, bt_update_index bt, data) }"

definition valid_last_ids :: "pubkey list \<Rightarrow> blockthread \<Rightarrow> hash list" where
  "valid_last_ids ks bt =
     map (\<lambda>x. ls_last_id (ni_ledger_state x))
       (filter (\<lambda>r. ni_id r \<noteq> Pubkey_default \<and>
           (is_valid_address (ci_tx_creator (ni_contact_info r)) \<or>
            is_valid_address (ci_tx_signer (ni_contact_info r))))
         (map_values ks (bt_table bt)))"

text \<open>\<open>rnd\<close> is the random number drawn.\<close>

definition window_index_request ::
    "protocol codec \<Rightarrow> pubkey list \<Rightarrow> nat \<Rightarrow> u64 \<Rightarrow> blockthread \<Rightarrow> (blockthread_error + (socket_addr \<times> bytes)) panics" where
  "window_index_request pc ks rnd ix bt =
     (let valid = filter (\<lambda>r. ni_id r \<noteq> bt_id bt \<and> is_valid_address (ci_tx_signer (ni_contact_info r)))
            (map_values ks (bt_table bt))
      in if valid = [] then Some (Inl NoPeers)
         else do {
           peer \<leftarrow> get_at valid (rnd mod length valid);
           me \<leftarrow> my_data bt;
           Some (Inr (ci_ncp (ni_contact_info peer), enc pc (RequestWindowIndex me ix))) })"

text \<open>\<open>pick\<close> takes one of the candidates.\<close>

definition gossip_request ::
    "pubkey list \<Rightarrow> (node_info list \<Rightarrow> node_info) \<Rightarrow> blockthread \<Rightarrow> (blockthread_error + (socket_addr \<times> protocol)) panics" where
  "gossip_request ks pick bt =
     (let options = filter (\<lambda>v. ni_id v \<noteq> bt_id bt \<and> \<not> ip_unspecified (ci_ncp (ni_contact_info v)) \<and>
            \<not> ip_multicast (ci_ncp (ni_contact_info v))) (map_values ks (bt_table bt))
      in if options = [] then Some (Inl NoPeers)
         else do {
           let v = pick options;
           let remote_update_index = (case bt_remote bt (ni_id v) of Some i \<Rightarrow> i | None \<Rightarrow> 0);
           me \<leftarrow> my_data bt;
           Some (Inr (ci_ncp (ni_contact_info v), RequestUpdates remote_update_index me)) })"

definition new_vote :: "u64 \<Rightarrow> hash \<Rightarrow> blockthread \<Rightarrow> ((blockthread_error + (vote \<times> socket_addr)) \<times> blockthread) panics" where
  "new_vote now last_id bt = do {
     me \<leftarrow> my_data bt;
     leader \<leftarrow> leader_data bt;
     (case leader of
        None \<Rightarrow> Some (Inl NoLeader, bt)
      | Some l \<Rightarrow>
          let me = me\<lparr>ni_version := ni_version me + 1, ni_ledger_state := \<lparr>ls_last_id = last_id\<rparr>\<rparr>;
              v = \<lparr>vote_version = ni_version me, contact_info_version = ci_version (ni_contact_info me)\<rparr>
          in Some (Inr (v, ci_tx_creator (ni_contact_info l)), snd (insert_node now me bt))) }"

text \<open>\<open>ks\<close> walks the table and \<open>ls\<close> the map of votes; \<open>sort_by_key\<close> is stable.\<close>

definition count_vote :: "'k \<Rightarrow> ('k \<rightharpoonup> nat) \<Rightarrow> ('k \<rightharpoonup> nat)" where
  "count_vote l m = m(l \<mapsto> (case m l of None \<Rightarrow> 0 | Some c \<Rightarrow> c) + 1)"

definition leader_votes :: "pubkey list \<Rightarrow> blockthread \<Rightarrow> (pubkey \<rightharpoonup> nat)" where
  "leader_votes ks bt =
     fold (\<lambda>v. count_vote (ni_leader_id v))
       (filter (\<lambda>x. ni_leader_id x \<noteq> Pubkey_default) (map_values ks (bt_table bt))) Map.empty"

definition top_leader :: "pubkey list \<Rightarrow> pubkey list \<Rightarrow> blockthread \<Rightarrow> pubkey option" where
  "top_leader ks ls bt =
     (let votes = leader_votes ks bt;
          sorted = sort_key snd (List.map_filter (\<lambda>k. map_option (Pair k) (votes k)) ls)
      in if sorted = [] then None else Some (fst (last sorted)))"

definition update_leader :: "pubkey list \<Rightarrow> pubkey list \<Rightarrow> u64 \<Rightarrow> blockthread \<Rightarrow> blockthread panics" where
  "update_leader ks ls now bt =
     (case top_leader ks ls bt of
        None \<Rightarrow> Some bt
      | Some leader_id \<Rightarrow> do {
          me \<leftarrow> my_data bt;
          if ni_leader_id me \<noteq> leader_id \<and> bt_table bt leader_id \<noteq> None
          then set_leader now leader_id bt else Some bt })"

definition insert_nodes :: "u64 \<Rightarrow> node_info list \<Rightarrow> blockthread \<Rightarrow> blockthread" where
  "insert_nodes now data bt = fold (\<lambda>v bt. snd (insert_node now v bt)) data bt"

definition hear_rumor :: "pubkey \<Rightarrow> pubkey \<times> u64 \<Rightarrow> blockthread \<Rightarrow> blockthread" where
  "hear_rumor from rumor bt =
     (let (key, ix) = rumor;
          remote_entry = (case bt_remote bt key of Some v \<Rightarrow> v | None \<Rightarrow> 0)
      in if ix \<le> remote_entry then bt
         else let entry = (case bt_external_liveness bt key of Some m \<Rightarrow> m | None \<Rightarrow> Map.empty);
                  peer_index = (case entry from of Some p \<Rightarrow> p | None \<Rightarrow> ix)
              in bt\<lparr>bt_external_liveness := (bt_external_liveness bt)(key \<mapsto>
                   entry(from \<mapsto> (if peer_index < ix then ix else peer_index)))\<rparr>)"

definition apply_updates :: "u64 \<Rightarrow> pubkey \<Rightarrow> u64 \<Rightarrow> node_info list \<Rightarrow> (pubkey \<times> u64) list \<Rightarrow> blockthread \<Rightarrow> blockthread" where
  "apply_updates now from update_index data rumors bt =
     (let bt = fold (hear_rumor from) rumors (insert_nodes now data bt)
      in bt\<lparr>bt_remote := (bt_remote bt)(from \<mapsto> update_index),
            bt_external_liveness := (bt_external_liveness bt)(from := None)\<rparr>)"

text \<open>What the gossip thread does to the table in one round.\<close>

definition gossip_round ::
    "pubkey list \<Rightarrow> pubkey list \<Rightarrow> pubkey list \<Rightarrow> pubkey list \<Rightarrow> u64 \<Rightarrow> u64 \<Rightarrow> blockthread \<Rightarrow> blockthread panics" where
  "gossip_round ks as ks' ls now t bt = do {
     bt \<leftarrow> purge ks as now t bt;
     update_leader ks' ls t bt }"

section \<open>Every history of a table\<close>

text \<open>The operations that change a table, and the tables they can produce.\<close>

datatype bt_op =
    InsertNode u64 node_info
  | HearFrom u64 node_info
  | InsertVotes u64 "(pubkey \<times> vote \<times> hash) list"
  | SetLeader u64 pubkey
  | NewVote u64 hash
  | Purge "pubkey list" "pubkey list" u64 u64
  | UpdateLeader "pubkey list" "pubkey list" u64
  | ApplyUpdates u64 pubkey u64 "node_info list" "(pubkey \<times> u64) list"
  | SetScheduledLeader u64 pubkey
  | SetRotationInterval u64

fun bt_exec :: "bt_op \<Rightarrow> blockthread \<Rightarrow> blockthread panics" where
  "bt_exec (InsertNode now v) bt = Some (snd (insert_node now v bt))"
| "bt_exec (HearFrom now v) bt = Some (update_liveness now (ni_id v) (snd (insert_node now v bt)))"
| "bt_exec (InsertVotes now votes) bt = insert_votes now votes bt"
| "bt_exec (SetLeader now key) bt = set_leader now key bt"
| "bt_exec (NewVote now h) bt = map_option snd (new_vote now h bt)"
| "bt_exec (Purge ks as now t) bt = purge ks as now t bt"
| "bt_exec (UpdateLeader ks ls now) bt = update_leader ks ls now bt"
| "bt_exec (ApplyUpdates now from ix data rumors) bt = Some (apply_updates now from ix data rumors bt)"
| "bt_exec (SetScheduledLeader h key) bt = Some (set_scheduled_leader h key bt)"
| "bt_exec (SetRotationInterval n) bt = Some (set_leader_rotation_interval n bt)"

inductive bt_reachable :: "blockthread \<Rightarrow> bool" where
  init: "BlockThread_new v = Inr bt \<Longrightarrow> bt_reachable bt"
| step: "bt_reachable bt \<Longrightarrow> bt_exec op bt = Some bt' \<Longrightarrow> bt_reachable bt'"

definition bt_wf :: "blockthread \<Rightarrow> bool" where
  "bt_wf bt \<longleftrightarrow> bt_id bt \<in> dom (bt_table bt) \<and> dom (bt_local bt) = dom (bt_table bt) \<and>
     dom (bt_alive bt) \<subseteq> dom (bt_table bt) \<and> (\<forall>k v. bt_table bt k = Some v \<longrightarrow> ni_id v = k)"

section \<open>Well-formed tables stay well-formed\<close>

lemma my_data_wf: "bt_wf bt \<Longrightarrow> \<exists>me. my_data bt = Some me \<and> ni_id me = bt_id bt"
  by (auto simp: bt_wf_def my_data_def)

lemma insert_node_wf: "bt_wf bt \<Longrightarrow> bt_wf (snd (insert_node now v bt))"
  by (auto simp: bt_wf_def insert_node_def update_liveness_def Let_def split: option.splits)

lemma insert_node_id [simp]: "bt_id (snd (insert_node now v bt)) = bt_id bt"
  by (simp add: insert_node_def update_liveness_def Let_def)

lemma insert_node_dom: "dom (bt_table (snd (insert_node now v bt))) = insert (ni_id v) (dom (bt_table bt))"
  by (auto simp: insert_node_def update_liveness_def Let_def split: option.splits)

lemma update_liveness_wf: "bt_wf bt \<Longrightarrow> key \<in> dom (bt_table bt) \<Longrightarrow> bt_wf (update_liveness now key bt)"
  by (auto simp: bt_wf_def update_liveness_def)

lemma set_leader_wf:
  assumes "bt_wf bt"
  shows "\<exists>bt'. set_leader now key bt = Some bt' \<and> bt_wf bt' \<and> bt_id bt' = bt_id bt"
  using my_data_wf [OF assms] insert_node_wf [OF assms] by (auto simp: set_leader_def)

lemma leader_data_wf: "bt_wf bt \<Longrightarrow> \<exists>l. leader_data bt = Some l"
  using my_data_wf [of bt] by (auto simp: leader_data_def)

lemma insert_vote_wf:
  assumes "bt_wf bt"
  shows "\<exists>bt'. insert_vote now key v h bt = Some bt' \<and> bt_wf bt'"
proof (cases "bt_table bt key")
  case (Some old)
  then have "ni_id old = key" "key \<in> dom (bt_table bt)" using assms by (auto simp: bt_wf_def)
  then have "bt_wf (update_liveness now key bt)" "ni_id old = key"
    using update_liveness_wf [OF assms] by simp_all
  then show ?thesis
    using Some assms my_data_wf [OF assms] insert_node_wf [of "update_liveness now key bt"]
    by (auto simp: insert_vote_def Let_def)
qed (simp add: insert_vote_def assms)

lemma insert_votes_wf: "bt_wf bt \<Longrightarrow> \<exists>bt'. insert_votes now votes bt = Some bt' \<and> bt_wf bt'"
proof (induction votes arbitrary: bt)
  case (Cons x votes)
  obtain key v h where x: "x = (key, v, h)" by (cases x)
  obtain bt' where "insert_vote now key v h bt = Some bt'" "bt_wf bt'"
    using insert_vote_wf [OF Cons.prems] by blast
  then show ?case using Cons.IH by (simp add: x)
qed simp

lemma insert_nodes_wf: "bt_wf bt \<Longrightarrow> bt_wf (insert_nodes now data bt)"
  unfolding insert_nodes_def by (induction data arbitrary: bt) (simp_all add: insert_node_wf)

lemma hear_rumor_wf: "bt_wf (hear_rumor from r bt) \<longleftrightarrow> bt_wf bt"
  by (simp add: hear_rumor_def Let_def bt_wf_def split: prod.split)

lemma hear_rumors_wf: "bt_wf (fold (hear_rumor from) rs bt) \<longleftrightarrow> bt_wf bt"
  by (induction rs arbitrary: bt) (simp_all add: hear_rumor_wf)

lemma apply_updates_wf:
  assumes "bt_wf bt"
  shows "bt_wf (apply_updates now from ix data rumors bt)"
proof -
  have "bt_wf (fold (hear_rumor from) rumors (insert_nodes now data bt))"
    by (simp add: hear_rumors_wf insert_nodes_wf assms)
  then show ?thesis by (simp add: apply_updates_def Let_def bt_wf_def)
qed

lemma forget_node_wf: "bt_wf bt \<Longrightarrow> key \<noteq> bt_id bt \<Longrightarrow> bt_wf (forget_node key bt)"
  by (auto simp: bt_wf_def forget_node_def)

lemma forget_node_id [simp]: "bt_id (forget_node key bt) = bt_id bt"
  by (simp add: forget_node_def)

lemma purge_one_wf:
  assumes "bt_wf bt" "key \<noteq> bt_id bt"
  shows "\<exists>bt'. purge_one t leader_id key bt = Some bt' \<and> bt_wf bt' \<and> bt_id bt' = bt_id bt"
  using set_leader_wf [OF forget_node_wf [OF assms], of t Pubkey_default] forget_node_wf [OF assms]
  by (cases "key = leader_id") (simp_all add: purge_one_def Let_def)

lemma purge_all_wf:
  assumes "bt_wf bt" "bt_id bt \<notin> set keys"
  shows "\<exists>bt'. purge_all t leader_id keys bt = Some bt' \<and> bt_wf bt' \<and> bt_id bt' = bt_id bt"
  using assms
proof (induction keys arbitrary: bt)
  case (Cons key keys)
  then obtain bt' where "purge_one t leader_id key bt = Some bt'" "bt_wf bt'" "bt_id bt' = bt_id bt"
    using purge_one_wf [of bt key t leader_id] by auto
  then show ?case using Cons.IH [of bt'] Cons.prems by simp
qed simp

lemma dead_ids_not_me: "bt_id bt \<notin> set (dead_ids ks now bt)"
  by (auto simp: dead_ids_def split: option.splits)

lemma purge_wf:
  assumes "bt_wf bt"
  shows "\<exists>bt'. purge ks as now t bt = Some bt' \<and> bt_wf bt'"
proof -
  obtain l where "leader_data bt = Some l" using leader_data_wf [OF assms] by blast
  then show ?thesis
  proof (cases l)
    case None
    then show ?thesis using \<open>leader_data bt = Some l\<close> assms by (simp add: purge_def)
  next
    case (Some n)
    obtain bt' where "purge_all t (ni_id n) (dead_ids as now bt) bt = Some bt'" "bt_wf bt'"
      using purge_all_wf [OF assms dead_ids_not_me] by blast
    then show ?thesis using \<open>leader_data bt = Some l\<close> Some assms by (simp add: purge_def)
  qed
qed

lemma new_vote_wf:
  assumes "bt_wf bt"
  shows "\<exists>r bt'. new_vote now h bt = Some (r, bt') \<and> bt_wf bt'"
proof -
  obtain me l where "my_data bt = Some me" "leader_data bt = Some l"
    using my_data_wf [OF assms] leader_data_wf [OF assms] by blast
  then show ?thesis using assms insert_node_wf [OF assms] by (cases l) (simp_all add: new_vote_def Let_def)
qed

lemma update_leader_wf:
  assumes "bt_wf bt"
  shows "\<exists>bt'. update_leader ks ls now bt = Some bt' \<and> bt_wf bt'"
proof -
  obtain me where "my_data bt = Some me" using my_data_wf [OF assms] by blast
  moreover have "\<exists>bt'. set_leader now k bt = Some bt' \<and> bt_wf bt'" for k
    using set_leader_wf [OF assms, of now k] by blast
  ultimately show ?thesis
    using assms by (cases "top_leader ks ls bt") (simp_all add: update_leader_def)
qed

lemma bt_exec_wf: "bt_wf bt \<Longrightarrow> \<exists>bt'. bt_exec op bt = Some bt' \<and> bt_wf bt'"
proof (cases op)
  case (HearFrom now v)
  assume "bt_wf bt"
  then have "bt_wf (update_liveness now (ni_id v) (snd (insert_node now v bt)))"
    by (intro update_liveness_wf insert_node_wf) (simp_all add: insert_node_dom)
  then show ?thesis using HearFrom by simp
next
  case (NewVote now h)
  assume "bt_wf bt"
  then obtain r bt' where "new_vote now h bt = Some (r, bt')" "bt_wf bt'" using new_vote_wf by blast
  then show ?thesis using NewVote by simp
next
  case (SetLeader now k)
  assume "bt_wf bt"
  then obtain bt' where "set_leader now k bt = Some bt'" "bt_wf bt'" using set_leader_wf by blast
  then show ?thesis using SetLeader by simp
next
  case (SetScheduledLeader h k)
  assume "bt_wf bt"
  then show ?thesis using SetScheduledLeader by (simp add: bt_wf_def set_scheduled_leader_def)
next
  case (SetRotationInterval n)
  assume "bt_wf bt"
  then show ?thesis using SetRotationInterval by (simp add: bt_wf_def set_leader_rotation_interval_def)
qed (simp_all add: insert_node_wf insert_votes_wf purge_wf apply_updates_wf update_leader_wf)

lemma bt_reachable_wf: "bt_reachable bt \<Longrightarrow> bt_wf bt"
proof (induction rule: bt_reachable.induct)
  case (init v bt)
  then show ?case by (auto simp: BlockThread_new_def bt_wf_def split: if_splits)
next
  case (step bt op bt')
  then show ?case using bt_exec_wf [of bt op] by auto
qed

section \<open>Merging keeps the newest version\<close>

text \<open>The version a table holds of a node, and the order of tables it gives.\<close>

definition knows :: "(pubkey \<rightharpoonup> node_info) \<Rightarrow> node_info \<Rightarrow> bool" where
  "knows m v \<longleftrightarrow> (\<exists>w. m (ni_id v) = Some w \<and> ni_version v \<le> ni_version w)"

definition keyed :: "(pubkey \<rightharpoonup> node_info) \<Rightarrow> bool" where
  "keyed m \<longleftrightarrow> (\<forall>k v. m k = Some v \<longrightarrow> ni_id v = k)"

lemma bt_wf_keyed: "bt_wf bt \<Longrightarrow> keyed (bt_table bt)"
  by (simp add: bt_wf_def keyed_def)

lemma insert_node_table:
  "bt_table (snd (insert_node now v bt)) =
    (if knows (bt_table bt) v then bt_table bt else (bt_table bt)(ni_id v \<mapsto> v))"
  by (auto simp: insert_node_def knows_def update_liveness_def Let_def split: option.splits)

lemma insert_node_knows:
  "knows (bt_table bt) w \<or> w = v \<Longrightarrow> knows (bt_table (snd (insert_node now v bt))) w"
  by (auto simp: insert_node_table) (auto simp: knows_def)

lemma insert_node_keyed: "keyed (bt_table bt) \<Longrightarrow> keyed (bt_table (snd (insert_node now v bt)))"
  by (auto simp: keyed_def insert_node_table)

lemma insert_nodes_Cons [simp]:
  "insert_nodes now (v # data) bt = insert_nodes now data (snd (insert_node now v bt))"
  "insert_nodes now [] bt = bt"
  by (simp_all add: insert_nodes_def)

lemma insert_nodes_knows:
  "knows (bt_table bt) w \<or> w \<in> set data \<Longrightarrow> knows (bt_table (insert_nodes now data bt)) w"
proof (induction data arbitrary: bt)
  case (Cons v data)
  then show ?case using Cons.IH [of "snd (insert_node now v bt)"] insert_node_knows [of bt w v now] by auto
qed simp

lemma insert_nodes_source:
  "bt_table (insert_nodes now data bt) k = Some w \<Longrightarrow> bt_table bt k = Some w \<or> (w \<in> set data \<and> ni_id w = k)"
proof (induction data arbitrary: bt)
  case (Cons v data)
  have "bt_table (snd (insert_node now v bt)) k = Some w \<or> (w \<in> set data \<and> ni_id w = k)"
    using Cons.IH [of "snd (insert_node now v bt)"] Cons.prems by simp
  then show ?case by (auto simp: insert_node_table split: if_splits)
qed simp

lemma insert_nodes_keyed: "keyed (bt_table bt) \<Longrightarrow> keyed (bt_table (insert_nodes now data bt))"
  by (induction data arbitrary: bt) (simp_all add: insert_node_keyed)

lemma hear_rumors_table [simp]: "bt_table (fold (hear_rumor from) rs bt) = bt_table bt"
  by (induction rs arbitrary: bt) (simp_all add: hear_rumor_def Let_def split: prod.split)

lemma apply_updates_table [simp]:
  "bt_table (apply_updates now from ix data rumors bt) = bt_table (insert_nodes now data bt)"
  by (simp add: apply_updates_def Let_def)

lemma map_values_walk: "walk_of ks m \<Longrightarrow> set (map_values ks m) = ran m"
  by (force simp: walk_of_def map_values_def map_filter_def ran_def dom_def image_iff)

lemma filter_panics_set:
  "filter_panics p xs = Some ys \<Longrightarrow> set ys = {x \<in> set xs. p x = Some True}"
  by (induction xs arbitrary: ys) (auto simp: bind_eq_Some_conv split: if_splits)

lemma filter_panics_total: "(\<And>x. x \<in> set xs \<Longrightarrow> p x \<noteq> None) \<Longrightarrow> \<exists>ys. filter_panics p xs = Some ys"
proof (induction xs)
  case (Cons x xs)
  then obtain ys b where "filter_panics p xs = Some ys" "p x = Some b" by fastforce
  then show ?case by simp
qed simp

lemma updates_since_total:
  assumes "bt_wf bt" "walk_of ks (bt_table bt)"
  shows "\<exists>data. get_updates_since ks v bt = Some (bt_id bt, bt_update_index bt, data)"
proof -
  have "\<exists>ys. filter_panics (updated_since v bt) (map_values ks (bt_table bt)) = Some ys"
  proof (rule filter_panics_total)
    fix x
    assume "x \<in> set (map_values ks (bt_table bt))"
    then have "ni_id x \<in> dom (bt_local bt)"
      using assms by (auto simp: map_values_walk ran_def bt_wf_def)
    then show "updated_since v bt x \<noteq> None" by (auto simp: updated_since_def)
  qed
  then show ?thesis by (auto simp: get_updates_since_def)
qed

lemma updated_since_iff:
  "updated_since v bt n = Some True \<longleftrightarrow> ni_id n \<noteq> Pubkey_default \<and> (\<exists>i. bt_local bt (ni_id n) = Some i \<and> v < i)"
  by (auto simp: updated_since_def)

lemma updates_since_set:
  assumes "bt_wf bt" "walk_of ks (bt_table bt)" "get_updates_since ks v bt = Some (from, ix, data)"
  shows "n \<in> set data \<longleftrightarrow> bt_table bt (ni_id n) = Some n \<and> ni_id n \<noteq> Pubkey_default \<and>
      (\<exists>i. bt_local bt (ni_id n) = Some i \<and> v < i)"
proof -
  have "filter_panics (updated_since v bt) (map_values ks (bt_table bt)) = Some data"
    using assms(3) by (simp add: get_updates_since_def bind_eq_Some_conv)
  from filter_panics_set [OF this] have "n \<in> set data \<longleftrightarrow> n \<in> ran (bt_table bt) \<and> updated_since v bt n = Some True"
    by (simp add: map_values_walk [OF assms(2)])
  moreover have "n \<in> ran (bt_table bt) \<longleftrightarrow> bt_table bt (ni_id n) = Some n"
    using assms(1) by (auto simp: bt_wf_def ran_def)
  ultimately show ?thesis by (simp add: updated_since_iff)
qed

section \<open>Counting votes for a leader\<close>

definition leader_count :: "pubkey \<Rightarrow> blockthread \<Rightarrow> nat" where
  "leader_count l bt = card {k. \<exists>n. bt_table bt k = Some n \<and> ni_leader_id n = l}"

lemma fold_count:
  "fold (\<lambda>v. count_vote (f v)) vs m k =
    (if k \<in> f ` set vs
     then Some ((case m k of None \<Rightarrow> 0 | Some c \<Rightarrow> c) + length (filter (\<lambda>v. f v = k) vs)) else m k)"
proof (induction vs arbitrary: m)
  case (Cons v vs)
  have "filter (\<lambda>v. f v = k) vs = []" if "k \<notin> f ` set vs" using that by (auto simp: filter_empty_conv)
  then show ?case by (simp add: Cons.IH) (auto simp: count_vote_def)
qed simp

lemma count_walk:
  assumes "walk_of ks m" "finite (dom m)"
  shows "length (filter P (map_values ks m)) = card {k. \<exists>n. m k = Some n \<and> P n}"
proof -
  have "length (filter P (List.map_filter m ks)) = length (filter (\<lambda>k. \<exists>n. m k = Some n \<and> P n) ks)"
    by (induction ks) (simp_all add: List.map_filter_simps split: option.split)
  also have "\<dots> = card (set (filter (\<lambda>k. \<exists>n. m k = Some n \<and> P n) ks))"
    using assms(1) by (intro distinct_card [symmetric] distinct_filter) (simp add: walk_of_def)
  also have "set (filter (\<lambda>k. \<exists>n. m k = Some n \<and> P n) ks) = {k. \<exists>n. m k = Some n \<and> P n}"
    using assms(1) by (auto simp: walk_of_def)
  finally show ?thesis by (simp add: map_values_def)
qed

lemma walk_finite: "walk_of ks m \<Longrightarrow> finite (dom m)"
  unfolding walk_of_def by (metis List.finite_set)

lemma leader_votes_count:
  assumes "walk_of ks (bt_table bt)"
  shows "leader_votes ks bt l =
    (if l \<noteq> Pubkey_default \<and> leader_count l bt \<noteq> 0 then Some (leader_count l bt) else None)"
proof -
  define vs where "vs = map_values ks (bt_table bt)"
  have "length (filter (\<lambda>v. ni_leader_id v = l) vs) = leader_count l bt"
    unfolding leader_count_def vs_def by (rule count_walk [OF assms walk_finite [OF assms]])
  moreover have "leader_votes ks bt l =
      (if l \<in> ni_leader_id ` set (filter (\<lambda>x. ni_leader_id x \<noteq> Pubkey_default) vs)
       then Some (length (filter (\<lambda>v. ni_leader_id v = l) (filter (\<lambda>x. ni_leader_id x \<noteq> Pubkey_default) vs)))
       else None)"
    unfolding leader_votes_def vs_def fold_count by simp
  moreover have "filter (\<lambda>v. ni_leader_id v = l) (filter (\<lambda>x. ni_leader_id x \<noteq> Pubkey_default) vs) =
      filter (\<lambda>v. ni_leader_id v = l) vs" if "l \<noteq> Pubkey_default"
    using that by (auto simp: filter_filter intro: filter_cong)
  moreover have "l \<in> ni_leader_id ` set (filter (\<lambda>x. ni_leader_id x \<noteq> Pubkey_default) vs) \<longleftrightarrow>
      l \<noteq> Pubkey_default \<and> length (filter (\<lambda>v. ni_leader_id v = l) vs) \<noteq> 0"
    by (auto simp: filter_empty_conv)
  ultimately show ?thesis by simp
qed

lemma sorted_last_max: "sorted (map f ys) \<Longrightarrow> x \<in> set ys \<Longrightarrow> f x \<le> f (last ys)"
proof (induction ys)
  case (Cons y ys)
  then show ?case by (cases "ys = []") auto
qed simp

lemma last_sort_key_max: "x \<in> set xs \<Longrightarrow> f x \<le> f (last (sort_key f xs))"
  by (rule sorted_last_max) simp_all

lemma top_leader_max:
  assumes "walk_of ks (bt_table bt)" "walk_of ls (leader_votes ks bt)"
  shows "case top_leader ks ls bt of
      None \<Rightarrow> \<forall>l. l \<noteq> Pubkey_default \<longrightarrow> leader_count l bt = 0
    | Some l \<Rightarrow> l \<noteq> Pubkey_default \<and> 0 < leader_count l bt \<and>
        (\<forall>l'. l' \<noteq> Pubkey_default \<longrightarrow> leader_count l' bt \<le> leader_count l bt)"
proof -
  define votes where "votes = leader_votes ks bt"
  define ps where "ps = List.map_filter (\<lambda>k. map_option (Pair k) (votes k)) ls"
  have set: "set ps = {(k, c). votes k = Some c}"
    using assms(2) by (force simp: ps_def votes_def map_filter_def walk_of_def image_iff)
  have top: "top_leader ks ls bt = (if sort_key snd ps = [] then None else Some (fst (last (sort_key snd ps))))"
    by (simp add: top_leader_def Let_def ps_def votes_def)
  have count: "votes l = (if l \<noteq> Pubkey_default \<and> leader_count l bt \<noteq> 0 then Some (leader_count l bt) else None)" for l
    unfolding votes_def by (rule leader_votes_count [OF assms(1)])
  show ?thesis
  proof (cases "ps = []")
    case True
    then have "votes l = None" for l using set by (cases "votes l") auto
    then have "\<forall>l. l \<noteq> Pubkey_default \<longrightarrow> leader_count l bt = 0" using count by (metis option.distinct(1))
    moreover have "top_leader ks ls bt = None" using top True by simp
    ultimately show ?thesis by simp
  next
    case False
    then have ne: "sort_key snd ps \<noteq> []" by (metis length_0_conv length_sort)
    obtain l c where lc: "last (sort_key snd ps) = (l, c)" by fastforce
    then have "(l, c) \<in> set ps" using last_in_set [OF ne] by simp
    then have "votes l = Some c" using set by simp
    then have l: "l \<noteq> Pubkey_default" "0 < leader_count l bt" "c = leader_count l bt"
      using count [of l] by (simp_all split: if_splits)
    have "leader_count l' bt \<le> leader_count l bt" if "l' \<noteq> Pubkey_default" for l'
    proof (cases "leader_count l' bt = 0")
      case False
      then have "(l', leader_count l' bt) \<in> set ps" using that count [of l'] set by simp
      then show ?thesis using last_sort_key_max [of _ ps snd] lc l(3) by fastforce
    qed simp
    moreover have "top_leader ks ls bt = Some l" using top ne lc by simp
    ultimately show ?thesis using l by simp
  qed
qed

section \<open>What the node table promises\<close>

lemma new_localhost_start:
  "\<exists>bt. BlockThread_new (new_localhost k) = Inr bt \<and> bt_table bt = [k \<mapsto> new_localhost k] \<and>
    bt_local bt = [k \<mapsto> 1] \<and> bt_alive bt = Map.empty \<and> bt_update_index bt = 1 \<and> bt_id bt = k \<and>
    ni_id (new_localhost k) = k \<and> ni_version (new_localhost k) = 0 \<and> ni_leader_id (new_localhost k) = Pubkey_default"
  by (simp add: BlockThread_new_def new_localhost_def NodeInfo_new_def)

lemma sequence_panics_total: "(\<And>x. x \<in> set xs \<Longrightarrow> x \<noteq> None) \<Longrightarrow> sequence_panics xs \<noteq> None"
proof (induction xs)
  case (Cons x xs)
  then obtain y ys where "x = Some y" "sequence_panics xs = Some ys" by fastforce
  then show ?case by simp
qed simp

text \<open>C40: in every table the operations can produce, a node finds itself, the three maps have matching keys and
  every entry is filed under its own id; so none of the operations panics, and neither do the walks
  that answer a request for updates, list the peers or compute the broadcast table.\<close>

theorem node_table_never_panics:
  assumes "bt_reachable bt" "walk_of ks (bt_table bt)" "walk_of as (bt_alive bt)"
  shows "bt_wf bt \<and> (\<forall>op. bt_exec op bt \<noteq> None) \<and> get_updates_since ks v bt \<noteq> None \<and>
    get_valid_peers ks bt \<noteq> None \<and> compute_broadcast_table as bt \<noteq> None"
proof -
  have wf: "bt_wf bt" by (rule bt_reachable_wf [OF assms(1)])
  obtain me where me: "my_data bt = Some me" using my_data_wf [OF wf] by blast
  have "sequence_panics (map (bt_table bt) as) \<noteq> None"
    using wf assms(3) by (intro sequence_panics_total) (auto simp: bt_wf_def walk_of_def)
  then show ?thesis
    using wf me bt_exec_wf [OF wf] updates_since_total [OF wf assms(2), of v]
    by (auto simp: get_valid_peers_def compute_broadcast_table_def)
qed

theorem node_table_witness:
  "\<exists>bt. BlockThread_new (new_localhost (Pubkey 3)) = Inr bt \<and> bt_wf bt \<and> compute_broadcast_table [] bt \<noteq> None"
proof -
  obtain bt where new: "BlockThread_new (new_localhost (Pubkey 3)) = Inr bt" "walk_of [Pubkey 3] (bt_table bt)"
    "walk_of [] (bt_alive bt)"
    by (simp add: BlockThread_new_def new_localhost_def NodeInfo_new_def walk_of_def)
  from node_table_never_panics [OF bt_reachable.init [OF new(1)] new(2,3)] show ?thesis
    using new(1) by blast
qed





text \<open>The leader a node settles on is named by the most nodes of its table; there is none exactly when no
  node of the table names one.\<close>

theorem top_leader_has_most_votes:
  assumes "walk_of ks (bt_table bt)" "walk_of ls (leader_votes ks bt)"
  shows "(top_leader ks ls bt = None \<longleftrightarrow> (\<forall>l. l \<noteq> Pubkey_default \<longrightarrow> leader_count l bt = 0)) \<and>
    (\<forall>l. top_leader ks ls bt = Some l \<longrightarrow> l \<noteq> Pubkey_default \<and>
      (\<forall>l'. l' \<noteq> Pubkey_default \<longrightarrow> leader_count l' bt \<le> leader_count l bt))"
  using top_leader_max [OF assms] by (cases "top_leader ks ls bt") auto

theorem top_leader_witness:
  "\<exists>bt. BlockThread_new ((new_localhost (Pubkey 3))\<lparr>ni_leader_id := Pubkey 9\<rparr>) = Inr bt \<and>
    top_leader [Pubkey 3] [Pubkey 9] bt \<noteq> None"
proof -
  obtain bt where new: "BlockThread_new ((new_localhost (Pubkey 3))\<lparr>ni_leader_id := Pubkey 9\<rparr>) = Inr bt"
    "bt_table bt = [Pubkey 3 \<mapsto> (new_localhost (Pubkey 3))\<lparr>ni_leader_id := Pubkey 9\<rparr>]"
    by (simp add: BlockThread_new_def new_localhost_def NodeInfo_new_def)
  have "walk_of [Pubkey 3] (bt_table bt)" "walk_of [Pubkey 9] (leader_votes [Pubkey 3] bt)"
    by (simp_all add: new(2) walk_of_def leader_votes_def count_vote_def map_values_def List.map_filter_simps
        Pubkey_default_def)
  note top = top_leader_has_most_votes [OF this]
  have "{k. \<exists>n. bt_table bt k = Some n \<and> ni_leader_id n = Pubkey 9} = {Pubkey 3}"
    by (auto simp: new(2) split: if_splits)
  then have "leader_count (Pubkey 9) bt \<noteq> 0" by (simp add: leader_count_def)
  then have "top_leader [Pubkey 3] [Pubkey 9] bt \<noteq> None"
    using top by (auto simp: Pubkey_default_def)
  then show ?thesis using new(1) by blast
qed

text \<open>An entry for the node's own id in the largest version, which any peer can send, freezes the node: its
  own later updates wrap to version zero and are refused, so it can neither follow a leader nor vote.\<close>

theorem largest_version_freezes_node:
  assumes "bt_reachable bt" "ni_id v = bt_id bt" "ni_version v = - 1"
    and "bt_table bt (bt_id bt) = Some me" "ni_version me \<noteq> - 1"
    and "bt' = apply_updates now from ix [v] [] bt"
  shows "my_data bt' = Some v \<and> (\<forall>t key. set_leader t key bt' = Some bt') \<and>
    (\<forall>t h. \<exists>r. new_vote t h bt' = Some (r, bt'))"
proof -
  have "ni_version me < ni_version v"
    using assms(3,5) by (simp add: word_order.not_eq_extremum)
  then have "\<not> knows (bt_table bt) v" using assms(2,4) by (simp add: knows_def)
  then have tab: "bt_table bt' = (bt_table bt)(bt_id bt \<mapsto> v)"
    using assms(2) by (simp add: assms(6) insert_node_table)
  have id': "bt_id bt' = bt_id bt" by (simp add: assms(6) apply_updates_def Let_def)
  then have me: "my_data bt' = Some v" by (simp add: my_data_def tab)
  have wrap: "snd (insert_node t w bt') = bt'" if "ni_id w = bt_id bt" "ni_version w = 0" for t w
    using that by (simp add: insert_node_def tab)
  then have "new_vote t h bt' = Some (case the (leader_data bt') of None \<Rightarrow> (Inl NoLeader, bt') |
      Some l \<Rightarrow> (Inr (\<lparr>vote_version = 0, contact_info_version = ci_version (ni_contact_info v)\<rparr>,
        ci_tx_creator (ni_contact_info l)), bt'))" for t h
    using me assms(2,3) by (auto simp: new_vote_def leader_data_def Let_def split: option.splits)
  then show ?thesis
    using me wrap assms(2,3) by (auto simp: set_leader_def split: option.splits)
qed

theorem largest_version_witness:
  "\<exists>bt bt'. BlockThread_new (new_localhost (Pubkey 3)) = Inr bt \<and>
    bt' = apply_updates 7 (Pubkey 4) 1 [(new_localhost (Pubkey 3))\<lparr>ni_version := - 1\<rparr>] [] bt \<and>
    set_leader 8 (Pubkey 4) bt' = Some bt'"
proof -
  let ?v = "(new_localhost (Pubkey 3))\<lparr>ni_version := - 1\<rparr>"
  obtain bt where new: "BlockThread_new (new_localhost (Pubkey 3)) = Inr bt" "ni_id ?v = bt_id bt"
    "bt_table bt (bt_id bt) = Some (new_localhost (Pubkey 3))" "ni_version (new_localhost (Pubkey 3)) \<noteq> - 1"
    using new_localhost_start [of "Pubkey 3"] by auto
  from largest_version_freezes_node [OF bt_reachable.init [OF new(1)] new(2) _ new(3,4) refl]
  show ?thesis using new(1) by auto
qed

section \<open>Purging\<close>

lemma set_leader_other:
  assumes "bt_wf bt" "set_leader t key bt = Some bt'" "k \<noteq> bt_id bt"
  shows "bt_table bt' k = bt_table bt k"
proof -
  obtain me where "my_data bt = Some me" "ni_id me = bt_id bt" using my_data_wf [OF assms(1)] by blast
  then show ?thesis using assms(2,3) by (auto simp: set_leader_def insert_node_table split: if_splits)
qed

lemma purge_all_table:
  assumes "bt_wf bt" "bt_id bt \<notin> set keys" "purge_all t l keys bt = Some bt'" "k \<noteq> bt_id bt"
  shows "bt_table bt' k = (if k \<in> set keys then None else bt_table bt k)"
  using assms
proof (induction keys arbitrary: bt)
  case (Cons key keys)
  obtain bt1 where one: "purge_one t l key bt = Some bt1" "purge_all t l keys bt1 = Some bt'"
    using Cons.prems(3) by (auto simp: bind_eq_Some_conv)
  have wf1: "bt_wf bt1" "bt_id bt1 = bt_id bt"
    using purge_one_wf [OF Cons.prems(1), of key t l] Cons.prems(2) one(1) by auto
  have "bt_table bt1 k = (if k = key then None else bt_table bt k)"
    using one(1) Cons.prems set_leader_other [OF forget_node_wf [OF Cons.prems(1), of key], of t Pubkey_default bt1 k]
    by (auto simp: purge_one_def Let_def forget_node_def split: if_splits)
  then show ?case using Cons.IH [OF wf1(1) _ one(2)] Cons.prems wf1(2) by auto
qed simp

lemma purge_other:
  assumes "bt_wf bt" "purge ks as now t bt = Some bt'" "k \<noteq> bt_id bt"
  shows "bt_wf bt' \<and> bt_id bt' = bt_id bt \<and>
    bt_table bt' k = (if MIN_TABLE_SIZE < length (map_values ks (bt_table bt)) \<and> leader_data bt \<noteq> Some None \<and>
      k \<in> set (dead_ids as now bt) then None else bt_table bt k)"
proof -
  obtain l where l: "leader_data bt = Some l" using leader_data_wf [OF assms(1)] by blast
  show ?thesis
  proof (cases "length (map_values ks (bt_table bt)) \<le> MIN_TABLE_SIZE \<or> l = None")
    case True
    then have "bt' = bt" using assms(2) l by (cases "length (map_values ks (bt_table bt)) \<le> MIN_TABLE_SIZE") (simp_all add: purge_def)
    then show ?thesis using assms(1) l True by auto
  next
    case False
    then obtain n where n: "l = Some n" "purge_all t (ni_id n) (dead_ids as now bt) bt = Some bt'"
      using assms(2) l by (auto simp: purge_def)
    then have "bt_wf bt' \<and> bt_id bt' = bt_id bt"
      using purge_all_wf [OF assms(1) dead_ids_not_me, of t "ni_id n" as now] by auto
    then show ?thesis
      using False l n(1) purge_all_table [OF assms(1) dead_ids_not_me n(2) assms(3)] by simp
  qed
qed

lemma silent_iff:
  "GOSSIP_PURGE_MILLIS < now - seen \<longleftrightarrow>
    (if seen \<le> now then 15000 < uint now - uint seen else uint seen - uint now < 2 ^ 64 - 15000)"
proof (cases "seen \<le> now")
  case True
  then have "uint (now - seen) = uint now - uint seen" by (simp add: uint_minus_simple_alt)
  then show ?thesis using True by (simp add: GOSSIP_PURGE_MILLIS_def word_less_def)
next
  case False
  then have "uint now < uint seen" by (simp add: word_less_def not_le)
  moreover have "uint (now - seen) = (uint now - uint seen) mod 2 ^ 64" by (simp add: uint_word_ariths)
  moreover have "(uint now - uint seen) mod 2 ^ 64 = uint now - uint seen + 2 ^ 64" if "uint now < uint seen"
  proof -
    have "(uint now - uint seen) mod 2 ^ 64 = (uint now - uint seen + 2 ^ 64) mod 2 ^ 64" by simp
    also have "\<dots> = uint now - uint seen + 2 ^ 64"
    proof (rule mod_pos_pos_trivial)
      have "uint seen < 2 ^ 64" using uint_lt2p [of seen] by simp
      moreover have "0 \<le> uint now" by simp
      ultimately show "0 \<le> uint now - uint seen + 2 ^ 64" by linarith
      show "uint now - uint seen + 2 ^ 64 < 2 ^ 64" using that by simp
    qed
    finally show ?thesis .
  qed
  ultimately show ?thesis using False by (auto simp: GOSSIP_PURGE_MILLIS_def word_less_def)
qed

text \<open>Purging never removes the node itself, does nothing while the table is small or no leader is known,
  and otherwise removes exactly the other nodes that were last heard from more than fifteen seconds
  ago; a time stamp ahead of the clock counts as that long ago, because the difference wraps.\<close>

theorem purge_removes_the_silent:
  assumes "bt_reachable bt" "walk_of ks (bt_table bt)" "walk_of as (bt_alive bt)" "purge ks as now t bt = Some bt'"
  shows "bt_table bt' (bt_id bt) \<noteq> None \<and>
    (\<forall>k. k \<noteq> bt_id bt \<longrightarrow> bt_table bt' k =
      (if 2 < card (dom (bt_table bt)) \<and> leader_data bt \<noteq> Some None \<and>
          (\<exists>seen. bt_alive bt k = Some seen \<and>
             (if seen \<le> now then 15000 < uint now - uint seen else uint seen - uint now < 2 ^ 64 - 15000))
       then None else bt_table bt k))"
proof -
  have wf: "bt_wf bt" by (rule bt_reachable_wf [OF assms(1)])
  have len: "MIN_TABLE_SIZE < length (map_values ks (bt_table bt)) \<longleftrightarrow> 2 < card (dom (bt_table bt))"
    using count_walk [OF assms(2) walk_finite [OF assms(2)], of "\<lambda>_. True"] by (simp add: MIN_TABLE_SIZE_def dom_def)
  have dead: "k \<in> set (dead_ids as now bt) \<longleftrightarrow> k \<noteq> bt_id bt \<and>
      (\<exists>seen. bt_alive bt k = Some seen \<and> GOSSIP_PURGE_MILLIS < now - seen)" for k
    using assms(3) by (auto simp: dead_ids_def walk_of_def split: option.splits)
  obtain k0 where "k0 \<noteq> bt_id bt"
    using that [of "Pubkey 0"] that [of "Pubkey 1"] by (cases "bt_id bt = Pubkey 0") auto
  then have "bt_wf bt'" "bt_id bt' = bt_id bt" using purge_other [OF wf assms(4)] by blast+
  then have "bt_table bt' (bt_id bt) \<noteq> None" by (auto simp: bt_wf_def)
  moreover have "bt_table bt' k =
      (if 2 < card (dom (bt_table bt)) \<and> leader_data bt \<noteq> Some None \<and>
          (\<exists>seen. bt_alive bt k = Some seen \<and> GOSSIP_PURGE_MILLIS < now - seen)
       then None else bt_table bt k)" if "k \<noteq> bt_id bt" for k
    using purge_other [OF wf assms(4) that] that by (simp add: len dead)
  ultimately show ?thesis unfolding silent_iff [symmetric] by blast
qed

theorem purge_witness:
  "\<exists>bt bt'. purge [Pubkey 3, Pubkey 4, Pubkey 5] [Pubkey 3, Pubkey 4, Pubkey 5] 20000 20000 bt = Some bt' \<and>
    bt_table bt (Pubkey 5) \<noteq> None \<and> bt_table bt' (Pubkey 5) = None \<and> bt_table bt' (Pubkey 3) \<noteq> None"
proof -
  obtain bt0 where start: "BlockThread_new (new_localhost (Pubkey 3)) = Inr bt0" "bt_table bt0 = [Pubkey 3 \<mapsto> new_localhost (Pubkey 3)]"
    "bt_alive bt0 = Map.empty" "bt_id bt0 = Pubkey 3"
    using new_localhost_start by blast
  have loc: "ni_id (new_localhost k) = k" "ni_version (new_localhost k) = 0" for k
    using new_localhost_start [of k] by auto
  let ?me = "(new_localhost (Pubkey 3))\<lparr>ni_leader_id := Pubkey 4, ni_version := 1\<rparr>"
  obtain bt1 where b1: "bt_exec (InsertNode 0 (new_localhost (Pubkey 4))) bt0 = Some bt1"
    "bt_table bt1 = [Pubkey 3 \<mapsto> new_localhost (Pubkey 3), Pubkey 4 \<mapsto> new_localhost (Pubkey 4)]"
    "bt_alive bt1 = [Pubkey 4 \<mapsto> 0]" "bt_id bt1 = Pubkey 3"
    using start by (simp add: insert_node_def update_liveness_def Let_def loc)
  obtain bt2 where b2: "bt_exec (InsertNode 0 (new_localhost (Pubkey 5))) bt1 = Some bt2"
    "bt_table bt2 = [Pubkey 3 \<mapsto> new_localhost (Pubkey 3), Pubkey 4 \<mapsto> new_localhost (Pubkey 4),
      Pubkey 5 \<mapsto> new_localhost (Pubkey 5)]"
    "bt_alive bt2 = [Pubkey 4 \<mapsto> 0, Pubkey 5 \<mapsto> 0]" "bt_id bt2 = Pubkey 3"
    using b1 by (simp add: insert_node_def update_liveness_def Let_def loc)
  obtain bt where b3: "bt_exec (SetLeader 0 (Pubkey 4)) bt2 = Some bt"
    "bt_table bt = [Pubkey 3 \<mapsto> ?me, Pubkey 4 \<mapsto> new_localhost (Pubkey 4), Pubkey 5 \<mapsto> new_localhost (Pubkey 5)]"
    "bt_alive bt = [Pubkey 4 \<mapsto> 0, Pubkey 5 \<mapsto> 0, Pubkey 3 \<mapsto> 0]" "bt_id bt = Pubkey 3"
    using b2 by (auto simp: set_leader_def my_data_def insert_node_def update_liveness_def Let_def loc fun_upd_twist)
  have reach: "bt_reachable bt"
    using bt_reachable.init [OF start(1)] b1(1) b2(1) b3(1) bt_reachable.step by blast
  have walks: "walk_of [Pubkey 3, Pubkey 4, Pubkey 5] (bt_table bt)" "walk_of [Pubkey 3, Pubkey 4, Pubkey 5] (bt_alive bt)"
    by (auto simp: walk_of_def b3)
  obtain bt' where p: "purge [Pubkey 3, Pubkey 4, Pubkey 5] [Pubkey 3, Pubkey 4, Pubkey 5] 20000 20000 bt = Some bt'"
    using purge_wf [OF bt_reachable_wf [OF reach]] by blast
  have "leader_data bt \<noteq> Some None" "card (dom (bt_table bt)) = 3"
    by (simp_all add: leader_data_def my_data_def b3 Pubkey_default_def)
  then have "bt_table bt' (Pubkey 5) = None" "bt_table bt' (Pubkey 3) \<noteq> None"
    using purge_removes_the_silent [OF reach walks p] by (simp_all add: b3)
  moreover have "bt_table bt (Pubkey 5) \<noteq> None" by (simp add: b3)
  ultimately show ?thesis using p by blast
qed

end
