(* ===== verification/Voting.thy ===== *)
theory Voting
  imports Transaction_Processor Blockthread "HOL-Library.Multiset"
begin

text \<open>
  Voting on entry ids (src/vote_stage.rs): the leader votes for the id that more than two thirds of the
  nodes have reached, a validator for its own last id.  A vote is a signed transaction in a blob.

  \<open>now\<close> is the reading of the clock; the clock readings inside the node table are \<open>t\<close>.  The channel of
  vote blobs holds what was sent and whether its receiver is still there.
\<close>

section \<open>Votes\<close>

definition VOTE_TIMEOUT_MS :: u64 where "VOTE_TIMEOUT_MS = 1000"

datatype vote_error = NoValidLastIdsToVoteOn

definition create_new_signed_vote_blob ::
    "'kp ed25519 \<Rightarrow> tx_ext \<Rightarrow> transaction codec \<Rightarrow> u64 \<Rightarrow> hash \<Rightarrow> 'kp \<Rightarrow> blockthread \<Rightarrow>
       ((blockthread_error + blob) \<times> blockthread) panics" where
  "create_new_signed_vote_blob ring tc txc t last_id keypair bt = do {
     (r, bt) \<leftarrow> new_vote t last_id bt;
     (case r of
        Inl e \<Rightarrow> Some (Inl e, bt)
      | Inr (v, addr) \<Rightarrow> do {
          tx \<leftarrow> fin_plan_new_vote ring tc keypair v last_id 0;
          let bytes = enc txc tx;
          let len = length bytes;
          data \<leftarrow> overwrite 0 bytes (blob_data Blob_default);
          let m = (Meta_set_addr addr (blob_meta Blob_default))\<lparr>meta_size := of_nat len\<rparr>;
          Some (Inr \<lparr>blob_data = data, blob_meta = m\<rparr>, bt) }) }"

text \<open>The result and the new \<open>last_vote\<close>.\<close>

definition get_last_id_to_vote_on ::
    "hash list \<Rightarrow> 'lib tp \<Rightarrow> u64 \<Rightarrow> u64 \<Rightarrow> ((vote_error + hash \<times> u64) \<times> u64) panics" where
  "get_last_id_to_vote_on ids st now last_vote =
     (let valid_ids = count_valid_ids ids st;
          super_majority_index = (2 * length ids) div 3
      in if super_majority_index < length valid_ids then do {
           let valid_ids = sort_key snd valid_ids;
           (i, ts) \<leftarrow> get_at valid_ids super_majority_index;
           last_id \<leftarrow> get_at ids i;
           Some (Inr (last_id, ts), now) }
         else Some (Inl NoValidLastIdsToVoteOn, last_vote))"

record 'lib voting =
  vs_tp :: "'lib tp"
  vs_bt :: blockthread
  vs_last_vote :: u64
  vs_last_valid_validator_timestamp :: u64
  vs_sent :: "blob list list"
  vs_open :: bool

text \<open>\<open>Err\<close> is the failure to send.  \<open>ks\<close> walks the node table.\<close>

definition send_leader_vote ::
    "'kp ed25519 \<Rightarrow> tx_ext \<Rightarrow> transaction codec \<Rightarrow> pubkey list \<Rightarrow> u64 \<Rightarrow> u64 \<Rightarrow> 'kp \<Rightarrow> 'lib voting \<Rightarrow>
       ((unit + unit) \<times> 'lib voting) panics" where
  "send_leader_vote ring tc txc ks now t keypair vs =
     (if VOTE_TIMEOUT_MS < now - vs_last_vote vs then do {
        let ids = valid_last_ids ks (vs_bt vs);
        (r, last_vote) \<leftarrow> get_last_id_to_vote_on ids (vs_tp vs) now (vs_last_vote vs);
        let vs = vs\<lparr>vs_last_vote := last_vote\<rparr>;
        (case r of
           Inl _ \<Rightarrow> Some (Inr (), vs)
         | Inr (last_id, super_majority_timestamp) \<Rightarrow> do {
             (b, bt) \<leftarrow> create_new_signed_vote_blob ring tc txc t last_id keypair (vs_bt vs);
             let vs = vs\<lparr>vs_bt := bt\<rparr>;
             Some (case b of
                 Inl _ \<Rightarrow> (Inr (), vs)
               | Inr shared_blob \<Rightarrow>
                   if \<not> vs_open vs then (Inl (), vs)
                   else (Inr (), vs\<lparr>vs_sent := vs_sent vs @ [[shared_blob]],
                     vs_last_valid_validator_timestamp := super_majority_timestamp,
                     vs_tp := set_finality (now - super_majority_timestamp) (vs_tp vs)\<rparr>)) }) }
      else Some (Inr (), vs))"

definition send_validator_vote ::
    "'kp ed25519 \<Rightarrow> tx_ext \<Rightarrow> transaction codec \<Rightarrow> u64 \<Rightarrow> 'kp \<Rightarrow> 'lib voting \<Rightarrow> ((unit + unit) \<times> 'lib voting) panics" where
  "send_validator_vote ring tc txc t keypair vs = do {
     last_id \<leftarrow> tp_last_id (vs_tp vs);
     (b, bt) \<leftarrow> create_new_signed_vote_blob ring tc txc t last_id keypair (vs_bt vs);
     let vs = vs\<lparr>vs_bt := bt\<rparr>;
     Some (case b of
         Inl _ \<Rightarrow> (Inr (), vs)
       | Inr shared_blob \<Rightarrow>
           if \<not> vs_open vs then (Inl (), vs) else (Inr (), vs\<lparr>vs_sent := vs_sent vs @ [[shared_blob]]\<rparr>)) }"

section \<open>The super majority\<close>

text \<open>The time at which an entry id was registered.\<close>

definition registered_at :: "'lib tp \<Rightarrow> hash \<Rightarrow> u64 option" where
  "registered_at st h = map_option snd (last_ids_sigs st h)"

definition reached_by :: "'lib tp \<Rightarrow> u64 \<Rightarrow> hash \<Rightarrow> bool" where
  "reached_by st ts h \<longleftrightarrow> (case registered_at st h of Some t \<Rightarrow> t \<le> ts | None \<Rightarrow> False)"

definition reached_before :: "'lib tp \<Rightarrow> u64 \<Rightarrow> hash \<Rightarrow> bool" where
  "reached_before st ts h \<longleftrightarrow> (case registered_at st h of Some t \<Rightarrow> t < ts | None \<Rightarrow> False)"

lemma count_valid_filter:
  "length (filter (\<lambda>p. P (snd p)) (List.map_filter (\<lambda>(i, h). map_option (\<lambda>(sigs, ts). (i, ts)) (last_ids_sigs st h))
      (enumerate n ids))) =
    length (filter (\<lambda>h. case registered_at st h of Some t \<Rightarrow> P t | None \<Rightarrow> False) ids)"
  by (induction ids arbitrary: n) (auto simp: map_filter_simps registered_at_def split: option.split)

lemma count_valid_ids_filter:
  "length (filter (\<lambda>p. P (snd p)) (count_valid_ids ids st)) =
    length (filter (\<lambda>h. case registered_at st h of Some t \<Rightarrow> P t | None \<Rightarrow> False) ids)"
  unfolding count_valid_ids_def by (rule count_valid_filter)

lemma count_valid_ids_mem:
  "(i, t) \<in> set (count_valid_ids ids st) \<Longrightarrow> i < length ids \<and> registered_at st (ids ! i) = Some t"
  by (auto simp: count_valid_ids_def map_filter_def registered_at_def in_set_enumerate_eq)

lemma sorted_position:
  assumes "sorted (map f ys)" "k < length ys"
  shows "Suc k \<le> length (filter (\<lambda>y. f y \<le> f (ys ! k)) ys)" "length (filter (\<lambda>y. f y < f (ys ! k)) ys) \<le> k"
proof -
  have le: "f (ys ! i) \<le> f (ys ! j)" if "i \<le> j" "j < length ys" for i j
    using sorted_nth_mono [OF assms(1), of i j] that by simp
  have "{0..k} \<subseteq> {i. i < length ys \<and> f (ys ! i) \<le> f (ys ! k)}" using le assms(2) by auto
  from card_mono [OF _ this] show "Suc k \<le> length (filter (\<lambda>y. f y \<le> f (ys ! k)) ys)"
    by (simp add: length_filter_conv_card)
  have "{i. i < length ys \<and> f (ys ! i) < f (ys ! k)} \<subseteq> {0..<k}"
    using le by (auto simp: not_le [symmetric])
  from card_mono [OF _ this] show "length (filter (\<lambda>y. f y < f (ys ! k)) ys) \<le> k"
    by (simp add: length_filter_conv_card)
qed

lemma filter_sort_key_length: "length (filter P (sort_key f xs)) = length (filter P xs)"
  by (metis mset_filter mset_sort size_mset)

lemma vote_position:
  assumes "k < length (count_valid_ids ids st)" "sort_key snd (count_valid_ids ids st) ! k = (i, ts)"
  shows "i < length ids" "registered_at st (ids ! i) = Some ts" "Suc k \<le> length (filter (reached_by st ts) ids)"
    "length (filter (reached_before st ts) ids) \<le> k"
proof -
  let ?v = "count_valid_ids ids st"
  have "(i, ts) \<in> set ?v" using assms by (metis length_sort nth_mem set_sort)
  from count_valid_ids_mem [OF this] show "i < length ids" "registered_at st (ids ! i) = Some ts" by auto
  have sorted: "sorted (map snd (sort_key snd ?v))" by simp
  have "k < length (sort_key snd ?v)" using assms(1) by simp
  note pos = sorted_position [OF sorted this, unfolded assms(2) snd_conv filter_sort_key_length]
  show "Suc k \<le> length (filter (reached_by st ts) ids)"
    using pos(1) count_valid_ids_filter [of "\<lambda>t. t \<le> ts" ids st] by (simp add: case_prod_beta reached_by_def [abs_def])
  show "length (filter (reached_before st ts) ids) \<le> k"
    using pos(2) count_valid_ids_filter [of "\<lambda>t. t < ts" ids st] by (simp add: case_prod_beta reached_before_def [abs_def])
qed

text \<open>C12: the leader finds an id to vote on exactly when the entry ids of more than two thirds of the
  nodes are registered with it, and never panics; the id is then that of one of the nodes, and its time
  of registration is the moment at which the super majority was complete: more than two thirds of the
  nodes had reached their ids by then, and at most two thirds before.\<close>

theorem leader_votes_with_super_majority:
  shows "\<exists>r last_vote'. get_last_id_to_vote_on ids st now last_vote = Some (r, last_vote') \<and>
    ((\<exists>h ts. r = Inr (h, ts)) \<longleftrightarrow> 2 * length ids < 3 * length (filter (\<lambda>h. registered_at st h \<noteq> None) ids)) \<and>
    (\<forall>h ts. r = Inr (h, ts) \<longrightarrow> last_vote' = now \<and> h \<in> set ids \<and> registered_at st h = Some ts \<and>
      2 * length ids < 3 * length (filter (reached_by st ts) ids) \<and>
      3 * length (filter (reached_before st ts) ids) \<le> 2 * length ids)"
proof -
  let ?v = "count_valid_ids ids st" and ?k = "(2 * length ids) div 3"
  have valid: "length ?v = length (filter (\<lambda>h. registered_at st h \<noteq> None) ids)"
    using count_valid_ids_filter [of "\<lambda>_. True" ids st]
    by (simp add: case_prod_beta option.case_eq_if cong: filter_cong)
  have iff: "?k < length ?v \<longleftrightarrow> 2 * length ids < 3 * length ?v" by linarith
  show ?thesis
  proof (cases "?k < length ?v")
    case False
    then have "get_last_id_to_vote_on ids st now last_vote = Some (Inl NoValidLastIdsToVoteOn, last_vote)"
      by (simp add: get_last_id_to_vote_on_def)
    then show ?thesis using False iff valid by simp
  next
    case True
    obtain i ts where it: "sort_key snd ?v ! ?k = (i, ts)" by (cases "sort_key snd ?v ! ?k")
    note pos = vote_position [OF True it]
    have "get_last_id_to_vote_on ids st now last_vote = Some (Inr (ids ! i, ts), now)"
      using True it pos(1) by (simp add: get_last_id_to_vote_on_def get_at_def)
    moreover have "2 * length ids < 3 * length (filter (reached_by st ts) ids)"
      "3 * length (filter (reached_before st ts) ids) \<le> 2 * length ids"
      using pos(3,4) by linarith+
    ultimately show ?thesis using True iff valid pos(1,2) by auto
  qed
qed

theorem leader_votes_witness:
  "\<exists>h ts. get_last_id_to_vote_on [Hash 7, Hash 8, Hash 7]
      (tp_default\<lparr>last_ids_sigs := [Hash 7 \<mapsto> (Map.empty, 5), Hash 8 \<mapsto> (Map.empty, 6)]\<rparr> :: unit tp) 9 0 =
      Some (Inr (h, ts), 9) \<and>
    6 < 3 * length (filter (reached_by (tp_default\<lparr>last_ids_sigs := [Hash 7 \<mapsto> (Map.empty, 5),
      Hash 8 \<mapsto> (Map.empty, 6)]\<rparr> :: unit tp) ts) [Hash 7, Hash 8, Hash 7])"
proof -
  let ?st = "tp_default\<lparr>last_ids_sigs := [Hash 7 \<mapsto> (Map.empty, 5), Hash 8 \<mapsto> (Map.empty, 6)]\<rparr> :: unit tp"
  let ?ids = "[Hash 7, Hash 8, Hash 7]"
  obtain r lv where r: "get_last_id_to_vote_on ?ids ?st 9 0 = Some (r, lv)"
    "(\<exists>h ts. r = Inr (h, ts)) \<longleftrightarrow> 2 * length ?ids < 3 * length (filter (\<lambda>h. registered_at ?st h \<noteq> None) ?ids)"
    "\<forall>h ts. r = Inr (h, ts) \<longrightarrow> lv = 9 \<and> h \<in> set ?ids \<and> registered_at ?st h = Some ts \<and>
      2 * length ?ids < 3 * length (filter (reached_by ?st ts) ?ids) \<and>
      3 * length (filter (reached_before ?st ts) ?ids) \<le> 2 * length ?ids"
    using leader_votes_with_super_majority [of ?ids ?st 9 0] by blast
  have "length (filter (\<lambda>h. registered_at ?st h \<noteq> None) ?ids) = 3" by (simp add: registered_at_def)
  then obtain h ts where "r = Inr (h, ts)" using r(2) by auto
  moreover have "lv = 9" "2 * length ?ids < 3 * length (filter (reached_by ?st ts) ?ids)" using r(3) calculation by blast+
  ultimately show ?thesis using r(1) by auto
qed

section \<open>From the vote to the table\<close>

lemma vote_blob_decodes:
  assumes "ed25519_contract ring" "bincode_codec (tc_instruction tc)" "bincode_codec txc"
    and small: "\<forall>v. length (enc (tc_instruction tc) (instruction.NewVote v)) < 2 ^ 63"
    and created: "create_new_signed_vote_blob ring tc txc t last_id kp bt = Some (Inr b, bt')"
  obtains tx me v k where "my_data bt = Some me" "keypair_pubkey ring kp = Some k"
    "v = \<lparr>vote_version = ni_version me + 1, contact_info_version = ci_version (ni_contact_info me)\<rparr>"
    "subslice 0 (unat (meta_size (blob_meta b))) (blob_data b) \<bind> dec txc = Some tx"
    "verify_signature ring tc tx = Some True" "tx_vote tc tx = Some (Some (k, v, last_id))"
proof -
  obtain me v addr tx where new: "my_data bt = Some me"
    "v = \<lparr>vote_version = ni_version me + 1, contact_info_version = ci_version (ni_contact_info me)\<rparr>"
    and tx: "fin_plan_new_vote ring tc kp v last_id 0 = Some tx"
    and b: "overwrite 0 (enc txc tx) (blob_data Blob_default) = Some (blob_data b)"
      "meta_size (blob_meta b) = of_nat (length (enc txc tx))"
    using created
    by (auto simp: create_new_signed_vote_blob_def new_vote_def bind_eq_Some_conv Let_def
        split: option.splits sum.splits prod.splits)
  obtain tx' k where "Transaction_new ring tc kp [] FinPlanState_id (enc (tc_instruction tc) (instruction.NewVote v)) last_id 0 = Some tx'"
    and k: "keypair_pubkey ring kp = Some k" "tx_keys tx' = [k]" "tx_userdata tx' = enc (tc_instruction tc) (instruction.NewVote v)"
      "tx_last_id tx' = last_id" "verify_signature ring tc tx' = Some True"
    by (rule Transaction_new_signed [OF assms(1)])
  then have tx': "tx' = tx" using tx by (simp add: fin_plan_new_vote_def)
  have len: "length (enc txc tx) \<le> BLOB_SIZE"
    using b(1) by (simp add: overwrite_eq_Some Blob_default_def)
  then have "unat (meta_size (blob_meta b)) = length (enc txc tx)"
    unfolding b(2) by (intro unat_of_nat_small) (simp add: BLOB_SIZE_def)
  then have "subslice 0 (unat (meta_size (blob_meta b))) (blob_data b) = Some (enc txc tx)"
    using subslice_overwrite_same [OF b(1)] by simp
  moreover have "dec txc (enc txc tx) = Some tx"
    using bincode_codec.dec_enc [OF assms(3), of tx] len by (simp add: BLOB_SIZE_def)
  moreover have "tx_vote tc tx = Some (Some (k, v, last_id))"
    using k tx' bincode_codec.dec_enc [OF assms(2), of "instruction.NewVote v"] small
    by (simp add: tx_vote_def tx_instruction_def tx_from_def get_at_def)
  ultimately show thesis using new k(1,5) tx' by (intro that [of me k v tx]) simp_all
qed


definition voter_table :: "pubkey \<Rightarrow> blockthread" where
  "voter_table k = \<lparr>bt_table = [k \<mapsto> (new_localhost k)\<lparr>ni_leader_id := k\<rparr>], bt_local = [k \<mapsto> 1],
     bt_remote = Map.empty, bt_alive = Map.empty, bt_update_index = 1, bt_id = k,
     bt_external_liveness = Map.empty, bt_scheduled_leaders = Map.empty, bt_leader_rotation_interval = 100\<rparr>"

lemma voter_table_facts:
  "bt_wf (voter_table k)" "bt_id (voter_table k) = k"
  "my_data (voter_table k) = Some ((new_localhost k)\<lparr>ni_leader_id := k\<rparr>)"
  "bt_table (voter_table k) k = Some ((new_localhost k)\<lparr>ni_leader_id := k\<rparr>)"
  "k \<noteq> Pubkey_default \<Longrightarrow> leader_data (voter_table k) = Some (Some ((new_localhost k)\<lparr>ni_leader_id := k\<rparr>))"
  by (simp_all add: voter_table_def bt_wf_def my_data_def leader_data_def new_localhost_def NodeInfo_new_def)

lemma vote_instruction_size: "length (put instruction_wire (instruction.NewVote v)) = 20"
  by (simp add: instruction_wire_def vote_wire_def iso_wire_def pair_wire_def)


end
