(* ===== verification/Ledger_Store.thy ===== *)
theory Ledger_Store
  imports Entries
begin

text \<open>
  The ledger on disk (the first half of src/ledger.rs): a \<open>data\<close> file of length-prefixed entries and
  an \<open>index\<close> file of their offsets, the writer, the sequential reader, random access, the check of
  the two files against each other and the recovery after a crash.

  A file is its bytes, and a missing file is \<open>None\<close>.  Opening a missing file, seeking or growing past
  the largest signed 64-bit offset and failing to decode are the errors of the model; the disk itself
  does not fail.  Readers hold the bytes not yet read.  Both files are opened for appending, so after
  a flush the position is the end of the file; \<open>seek\<close> on the data writer flushes it, and the index
  writer keeps up to \<open>BUF_SIZE\<close> bytes in memory.  File lengths are below the wrap-around of \<open>u64\<close>
  and are natural numbers; offsets and lengths read from the files are words, and their sums wrap.

  \<open>serialize_into\<close> and \<open>deserialize_from\<close> are the streaming form of bincode, a \<open>wire\<close> per type.
\<close>

section \<open>Streaming decoders\<close>

text \<open>A decoder reads bytes one after the other and never looks past the end of what it decodes.\<close>

locale stream_format = wire_format +
  assumes get_more: "get w bs = Some (x, r) \<Longrightarrow> get w (bs @ s) = Some (x, r @ s)"
begin

lemma get_cut:
  assumes "k < length (put w x)" and "length (put w x) < 2 ^ 63"
  shows "get w (take k (put w x)) = None"
proof (rule ccontr)
  assume "get w (take k (put w x)) \<noteq> None"
  then obtain y r where "get w (take k (put w x)) = Some (y, r)" by auto
  from get_more [OF this, of "drop k (put w x)"] get_put [OF assms(2), of "[]"]
  have "drop k (put w x) = []" by simp
  then show False using assms(1) by simp
qed

lemma get_cut_any:
  assumes "length (put w x) < 2 ^ 63"
  shows "get w (take k (put w x)) = (if length (put w x) \<le> k then Some (x, []) else None)"
  using get_cut [of k x] get_put [OF assms, of "[]"] assms by auto

end

text \<open>The formats of the development read this way.\<close>

lemma word_stream: "LENGTH('a) = 8 * n \<Longrightarrow> stream_format (word_wire n :: 'a::len word wire)"
  by (intro stream_format.intro word_wire_format stream_format_axioms.intro)
    (auto simp: word_wire_def split: if_splits)

lemma iso_stream:
  assumes "stream_format v" and "\<And>y. f (g y) = y"
  shows "stream_format (iso_wire f g v)"
proof (intro stream_format.intro iso_wire_format stream_format_axioms.intro)
  show "wire_format v" using assms(1) by (simp add: stream_format_def)
  fix bs x r s
  assume "get (iso_wire f g v) bs = Some (x, r)"
  then show "get (iso_wire f g v) (bs @ s) = Some (x, r @ s)"
    by (auto simp: iso_wire_def stream_format.get_more [OF assms(1)])
qed (rule assms(2))

lemma pair_stream:
  assumes "stream_format u" "stream_format v"
  shows "stream_format (pair_wire u v)"
proof (intro stream_format.intro pair_wire_format stream_format_axioms.intro)
  show "wire_format u" "wire_format v" using assms by (simp_all add: stream_format_def)
  fix bs x r s
  assume "get (pair_wire u v) bs = Some (x, r)"
  then obtain a r1 b where "get u bs = Some (a, r1)" "get v r1 = Some (b, r)" "x = (a, b)"
    by (auto simp: pair_wire_def bind_eq_Some_conv split: prod.splits)
  then show "get (pair_wire u v) (bs @ s) = Some (x, r @ s)"
    by (simp add: pair_wire_def stream_format.get_more [OF assms(1)] stream_format.get_more [OF assms(2)])
qed

lemma get_many_more:
  assumes "stream_format v"
  shows "get_many v n bs = Some (xs, r) \<Longrightarrow> get_many v n (bs @ s) = Some (xs, r @ s)"
  by (induction n arbitrary: bs xs)
    (auto simp: bind_eq_Some_conv stream_format.get_more [OF assms] split: prod.splits)

lemma list_stream:
  assumes "stream_format v"
  shows "stream_format (list_wire v)"
proof (intro stream_format.intro list_wire_format stream_format_axioms.intro)
  show "wire_format v" using assms by (simp add: stream_format_def)
  fix bs x r s
  assume "get (list_wire v) bs = Some (x, r)"
  then show "get (list_wire v) (bs @ s) = Some (x, r @ s)"
    by (auto simp: list_wire_def word_wire_def bind_eq_Some_conv get_many_more [OF assms] split: if_splits)
qed

lemma key_streams: "stream_format pubkey_wire" "stream_format hash_wire" "stream_format signature_wire"
  unfolding pubkey_wire_def hash_wire_def signature_wire_def
  by (intro iso_stream word_stream; simp split: pubkey.splits hash.splits signature.splits)+

lemma entry_stream: "stream_format entry_wire"
proof -
  have "stream_format transaction_wire"
    unfolding transaction_wire_def bytes_wire_def
    by (intro iso_stream pair_stream list_stream key_streams word_stream) simp_all
  then show ?thesis
    unfolding entry_wire_def by (intro iso_stream pair_stream list_stream key_streams word_stream) simp_all
qed

section \<open>Files\<close>

record ledger_files =
  index_file :: "bytes option"
  data_file :: "bytes option"

datatype ledger_error =
    NoSuchFile | BadOffset | DecodeError
  | IndexNotMultiple | GapOrOverlap nat | EntryFailed nat | GarbageAtEnd | EmptyIndex

record ledger_ext =
  le_entry :: "entry wire"
  le_u64 :: "u64 wire"

definition SIZEOF_U64 :: nat where "SIZEOF_U64 = 8"

definition open_file :: "bytes option \<Rightarrow> ledger_error + bytes" where
  "open_file f = (case f of None \<Rightarrow> Inl NoSuchFile | Some bs \<Rightarrow> Inr bs)"

text \<open>\<open>seek(SeekFrom::Start(at))\<close>: what is left to read from there.\<close>

definition seek_start :: "u64 \<Rightarrow> bytes \<Rightarrow> ledger_error + bytes" where
  "seek_start at bs = (if 2 ^ 63 \<le> unat at then Inl BadOffset else Inr (drop (unat at) bs))"

text \<open>\<open>set_len\<close>: cuts the file, or fills it up with zeros.\<close>

definition set_len :: "u64 \<Rightarrow> bytes \<Rightarrow> ledger_error + bytes" where
  "set_len n bs = (if 2 ^ 63 \<le> unat n then Inl BadOffset
     else Inr (take (unat n) bs @ replicate (unat n - length bs) 0))"

text \<open>\<open>deserialize_from(file.take(n))\<close>: the value and what is left of the file.\<close>

definition read_limited :: "'a wire \<Rightarrow> nat \<Rightarrow> bytes \<Rightarrow> ledger_error + ('a \<times> bytes)" where
  "read_limited w n bs = (case get w (take n bs) of
     None \<Rightarrow> Inl DecodeError
   | Some (x, r) \<Rightarrow> Inr (x, r @ drop n bs))"

definition bind_ok :: "'e + 'a \<Rightarrow> ('a \<Rightarrow> 'e + 'b) \<Rightarrow> 'e + 'b" where
  "bind_ok r f = (case r of Inl e \<Rightarrow> Inl e | Inr x \<Rightarrow> f x)"

lemma bind_ok_simps [simp]: "bind_ok (Inl e) f = Inl e" "bind_ok (Inr x) f = f x"
  by (simp_all add: bind_ok_def)

section \<open>Reading\<close>

definition ledger_next_entry :: "ledger_ext \<Rightarrow> bytes \<Rightarrow> ledger_error + (entry \<times> bytes)" where
  "ledger_next_entry lx bs =
     bind_ok (read_limited (le_u64 lx) SIZEOF_U64 bs) (\<lambda>(len, bs).
     read_limited (le_entry lx) (unat len) bs)"

definition entry_at :: "ledger_ext \<Rightarrow> bytes \<Rightarrow> u64 \<Rightarrow> ledger_error + entry" where
  "entry_at lx data at =
     bind_ok (seek_start at data) (\<lambda>bs.
     map_sum (\<lambda>e. e) fst (ledger_next_entry lx bs))"

definition u64_at :: "ledger_ext \<Rightarrow> bytes \<Rightarrow> u64 \<Rightarrow> ledger_error + u64" where
  "u64_at lx bs at =
     bind_ok (seek_start at bs) (\<lambda>bs.
     map_sum (\<lambda>e. e) fst (read_limited (le_u64 lx) SIZEOF_U64 bs))"

record ledger_window =
  lwin_index :: bytes
  lwin_data :: bytes

definition LedgerWindow_open :: "ledger_files \<Rightarrow> ledger_error + ledger_window" where
  "LedgerWindow_open fs =
     bind_ok (open_file (index_file fs)) (\<lambda>index.
     bind_ok (open_file (data_file fs)) (\<lambda>data.
     Inr \<lparr>lwin_index = index, lwin_data = data\<rparr>))"

definition LedgerWindow_get_entry :: "ledger_ext \<Rightarrow> ledger_window \<Rightarrow> u64 \<Rightarrow> ledger_error + entry" where
  "LedgerWindow_get_entry lx win i =
     bind_ok (u64_at lx (lwin_index win) (i * of_nat SIZEOF_U64)) (\<lambda>offset.
     entry_at lx (lwin_data win) offset)"

text \<open>The reader is the unread bytes; an error ends the iteration.\<close>

definition LedgerReader_next :: "ledger_ext \<Rightarrow> bytes \<Rightarrow> (entry \<times> bytes) option" where
  "LedgerReader_next lx bs = (case ledger_next_entry lx bs of Inr r \<Rightarrow> Some r | Inl _ \<Rightarrow> None)"

text \<open>Running the iterator to its end.\<close>

partial_function (option) collect_entries :: "ledger_ext \<Rightarrow> bytes \<Rightarrow> entry list option" where
  "collect_entries lx bs = (case LedgerReader_next lx bs of
     None \<Rightarrow> Some []
   | Some (e, bs) \<Rightarrow> Option.bind (collect_entries lx bs) (\<lambda>es. Some (e # es)))"

section \<open>Verification\<close>

function verify_index :: "ledger_ext \<Rightarrow> bytes \<Rightarrow> bytes \<Rightarrow> nat \<Rightarrow> u64 \<Rightarrow> u64 \<Rightarrow> u64 \<Rightarrow> ledger_error + u64" where
  "verify_index lx index data index_offset last_data_offset last_len data_read =
     (if index_offset < length index then
        bind_ok (u64_at lx index (of_nat index_offset)) (\<lambda>data_offset.
        if last_data_offset + last_len \<noteq> data_offset then Inl (GapOrOverlap (index_offset div SIZEOF_U64))
        else case entry_at lx data data_offset of
            Inl _ \<Rightarrow> Inl (EntryFailed (index_offset div SIZEOF_U64))
          | Inr e \<Rightarrow>
              let last_len = of_nat (length (put (le_entry lx) e)) + of_nat SIZEOF_U64
              in verify_index lx index data (index_offset + 8) data_offset last_len (data_read + last_len))
      else Inr data_read)"
  by pat_completeness auto

termination verify_index
  by (relation "measure (\<lambda>(lx, index, data, index_offset, r). length index - index_offset)") auto

declare verify_index.simps [simp del]

definition verify_ledger :: "ledger_ext \<Rightarrow> ledger_files \<Rightarrow> ledger_error + unit" where
  "verify_ledger lx fs =
     bind_ok (open_file (index_file fs)) (\<lambda>index.
     if length index mod SIZEOF_U64 \<noteq> 0 then Inl IndexNotMultiple
     else bind_ok (open_file (data_file fs)) (\<lambda>data.
     bind_ok (verify_index lx index data 0 0 0 0) (\<lambda>data_read.
     if data_read \<noteq> of_nat (length data) then Inl GarbageAtEnd else Inr ())))"

section \<open>Recovery\<close>

text \<open>The loop that drops offsets off the end of the index; it returns the two files as it left them.\<close>

function recover_loop :: "ledger_ext \<Rightarrow> bytes \<Rightarrow> bytes \<Rightarrow> (ledger_error + unit) \<times> bytes \<times> bytes" where
  "recover_loop lx index data =
     (let len = length index in
      if len < 8 then (Inl EmptyIndex, index, data)
      else case u64_at lx index (of_nat (len - SIZEOF_U64)) of
          Inl e \<Rightarrow> (Inl e, index, data)
        | Inr offset \<Rightarrow>
            (case entry_at lx data offset of
               Inr e \<Rightarrow>
                 (case set_len (offset + of_nat SIZEOF_U64 + of_nat (length (put (le_entry lx) e))) data of
                    Inl e \<Rightarrow> (Inl e, index, data)
                  | Inr data \<Rightarrow> (Inr (), index, data))
             | Inl _ \<Rightarrow> recover_loop lx (take (len - 8) index) data))"
  by pat_completeness auto

termination recover_loop
  by (relation "measure (\<lambda>(lx, index, data). length index)") auto

declare recover_loop.simps [simp del]

definition recover_ledger :: "ledger_ext \<Rightarrow> ledger_files \<Rightarrow> (ledger_error + unit) \<times> ledger_files" where
  "recover_ledger lx fs =
     (case (index_file fs, data_file fs) of
        (Some index, Some data) \<Rightarrow>
          (let len = length index;
               (r, index, data) = recover_loop lx (take (len - len mod SIZEOF_U64) index) data
           in (r, \<lparr>index_file = Some index, data_file = Some data\<rparr>))
      | _ \<Rightarrow> (Inl NoSuchFile, fs))"

definition read_ledger :: "ledger_ext \<Rightarrow> bool \<Rightarrow> ledger_files \<Rightarrow> (ledger_error + bytes) \<times> ledger_files" where
  "read_ledger lx recover fs =
     (let (r, fs) = (if recover then recover_ledger lx fs else (Inr (), fs))
      in (bind_ok r (\<lambda>_. open_file (data_file fs)), fs))"

section \<open>Writing\<close>

text \<open>A writer on the two files, with the index bytes it has not written yet.\<close>

record ledger_writer =
  lw_index :: bytes
  lw_index_buf :: bytes
  lw_data :: bytes

definition BUF_SIZE :: nat where "BUF_SIZE = 8192"

definition LedgerWriter_open :: "bool \<Rightarrow> ledger_files \<Rightarrow> ledger_error + ledger_writer" where
  "LedgerWriter_open create fs =
     (let fs = (if create then \<lparr>index_file = Some [], data_file = Some []\<rparr> else fs) in
      bind_ok (open_file (index_file fs)) (\<lambda>index.
      bind_ok (open_file (data_file fs)) (\<lambda>data.
      Inr \<lparr>lw_index = index, lw_index_buf = [], lw_data = data\<rparr>)))"

definition LedgerWriter_recover :: "ledger_ext \<Rightarrow> ledger_files \<Rightarrow> (ledger_error + ledger_writer) \<times> ledger_files" where
  "LedgerWriter_recover lx fs =
     (let (r, fs) = recover_ledger lx fs in (bind_ok r (\<lambda>_. LedgerWriter_open False fs), fs))"

definition index_flush :: "ledger_writer \<Rightarrow> ledger_writer" where
  "index_flush lw = lw\<lparr>lw_index := lw_index lw @ lw_index_buf lw, lw_index_buf := []\<rparr>"

definition index_write :: "bytes \<Rightarrow> ledger_writer \<Rightarrow> ledger_writer" where
  "index_write bs lw =
     (let lw = (if BUF_SIZE < length (lw_index_buf lw) + length bs then index_flush lw else lw)
      in lw\<lparr>lw_index_buf := lw_index_buf lw @ bs\<rparr>)"

definition write_entry_noflush :: "ledger_ext \<Rightarrow> entry \<Rightarrow> ledger_writer \<Rightarrow> ledger_writer" where
  "write_entry_noflush lx e lw =
     (let bytes = put (le_entry lx) e;
          len = of_nat (length bytes) :: u64;
          data = lw_data lw @ put (le_u64 lx) len @ bytes;
          offset = of_nat (length data) - len - of_nat SIZEOF_U64
      in index_write (put (le_u64 lx) offset) (lw\<lparr>lw_data := data\<rparr>))"

definition ledger_write_entry :: "ledger_ext \<Rightarrow> entry \<Rightarrow> ledger_writer \<Rightarrow> ledger_writer" where
  "ledger_write_entry lx e lw = index_flush (write_entry_noflush lx e lw)"

definition ledger_write_entries :: "ledger_ext \<Rightarrow> entry list \<Rightarrow> ledger_writer \<Rightarrow> ledger_writer" where
  "ledger_write_entries lx es lw = index_flush (fold (write_entry_noflush lx) es lw)"

text \<open>The files as another process sees them.\<close>

definition files_of :: "ledger_writer \<Rightarrow> ledger_files" where
  "files_of lw = \<lparr>index_file = Some (lw_index lw), data_file = Some (lw_data lw)\<rparr>"

section \<open>A ledger is a list of entries\<close>

text \<open>The bytes a list of entries is stored as: the two files are functions of the list.\<close>

definition record_of :: "ledger_ext \<Rightarrow> entry \<Rightarrow> bytes" where
  "record_of lx e = put (le_u64 lx) (of_nat (length (put (le_entry lx) e))) @ put (le_entry lx) e"

definition data_of :: "ledger_ext \<Rightarrow> entry list \<Rightarrow> bytes" where
  "data_of lx es = concat (map (record_of lx) es)"

definition offset_of :: "ledger_ext \<Rightarrow> entry list \<Rightarrow> nat \<Rightarrow> nat" where
  "offset_of lx es k = length (data_of lx (take k es))"

definition index_of :: "ledger_ext \<Rightarrow> entry list \<Rightarrow> bytes" where
  "index_of lx es = concat (map (\<lambda>k. put (le_u64 lx) (of_nat (offset_of lx es k))) [0..<length es])"

lemma uniform_take:
  "(\<And>x. length (f x) = n) \<Longrightarrow> take (n * i) (concat (map f xs)) = concat (map f (take i xs))"
  by (induction xs arbitrary: i) (simp_all add: take_Cons split: nat.split)

lemma uniform_drop:
  "(\<And>x. length (f x) = n) \<Longrightarrow> drop (n * i) (concat (map f xs)) = concat (map f (drop i xs))"
  by (induction xs arbitrary: i) (simp_all add: drop_Cons split: nat.split)

lemma uniform_length: "(\<And>x. length (f x) = n) \<Longrightarrow> length (concat (map f xs)) = n * length xs"
  by (induction xs) simp_all

lemma data_of_append [simp]: "data_of lx (es @ es') = data_of lx es @ data_of lx es'"
  and data_of_Nil [simp]: "data_of lx [] = []"
  by (simp_all add: data_of_def)

lemma data_of_split:
  "i < length es \<Longrightarrow> data_of lx es = data_of lx (take i es) @ record_of lx (es ! i) @ data_of lx (drop (Suc i) es)"
  by (subst id_take_nth_drop [of i es]) (simp_all add: data_of_def)

lemma offset_of_Suc:
  "i < length es \<Longrightarrow> offset_of lx es (Suc i) = offset_of lx es i + length (record_of lx (es ! i))"
  by (simp add: offset_of_def take_Suc_conv_app_nth data_of_def)

lemma offset_of_le: "offset_of lx es i \<le> length (data_of lx es)"
  using data_of_append [of lx "take i es" "drop i es"] by (simp add: offset_of_def)

lemma offset_of_all [simp]: "offset_of lx es (length es) = length (data_of lx es)" "offset_of lx es 0 = 0"
  by (simp_all add: offset_of_def data_of_def)

lemma take_data_of: "take (offset_of lx es i) (data_of lx es) = data_of lx (take i es)"
  using data_of_append [of lx "take i es" "drop i es"] by (simp add: offset_of_def)

text \<open>The writer keeps its files the image of the entries written.\<close>

definition writes :: "ledger_ext \<Rightarrow> ledger_writer \<Rightarrow> entry list \<Rightarrow> bool" where
  "writes lx lw es \<longleftrightarrow> lw_index lw @ lw_index_buf lw = index_of lx es \<and> lw_data lw = data_of lx es"

locale ledger_format =
  fixes lx :: ledger_ext
  assumes entries: "stream_format (le_entry lx)" and u64s: "stream_format (le_u64 lx)"
    and u64_width: "length (put (le_u64 lx) n) = 8"
begin

lemma record_length: "length (record_of lx e) = 8 + length (put (le_entry lx) e)"
  by (simp add: record_of_def u64_width)

lemma read_u64: "read_limited (le_u64 lx) SIZEOF_U64 (put (le_u64 lx) n @ r) = Inr (n, r)"
  using stream_format.get_cut_any [OF u64s, of n 8] by (simp add: read_limited_def SIZEOF_U64_def u64_width)

lemma next_entry_len:
  "ledger_next_entry lx (put (le_u64 lx) n @ bs) = read_limited (le_entry lx) (unat n) bs"
  by (simp add: ledger_next_entry_def read_u64)

text \<open>A record that is all there reads back, and one that was cut short does not.\<close>

lemma next_entry_record:
  assumes "length (record_of lx e) < 2 ^ 63"
  shows "ledger_next_entry lx (record_of lx e @ r) = Inr (e, r)"
proof -
  have "unat (of_nat (length (put (le_entry lx) e)) :: u64) = length (put (le_entry lx) e)"
    using assms by (intro unat_of_nat_small) (simp add: record_length)
  then show ?thesis
    using assms stream_format.get_cut_any [OF entries, of e "length (put (le_entry lx) e)"]
    by (simp add: record_of_def next_entry_len read_limited_def u64_width)
qed

lemma next_entry_cut:
  assumes "length (record_of lx e) < 2 ^ 63" "k < length (record_of lx e)"
  shows "ledger_next_entry lx (take k (record_of lx e)) = Inl DecodeError"
proof (cases "k < 8")
  case True
  then show ?thesis
    using stream_format.get_cut_any [OF u64s, of "of_nat (length (put (le_entry lx) e))" k]
    by (simp add: ledger_next_entry_def record_of_def read_limited_def SIZEOF_U64_def u64_width)
next
  case False
  let ?p = "put (le_entry lx) e"
  have len: "unat (of_nat (length ?p) :: u64) = length ?p"
    using assms by (intro unat_of_nat_small) (simp add: record_length)
  have "take k (record_of lx e) = put (le_u64 lx) (of_nat (length ?p)) @ take (k - 8) ?p"
    using False by (simp add: record_of_def u64_width)
  moreover have "get (le_entry lx) (take (k - 8) ?p) = None"
    using assms False stream_format.get_cut_any [OF entries, of e "k - 8"] by (simp add: record_length)
  ultimately show ?thesis
    using False assms(2)
    by (simp add: next_entry_len read_limited_def len record_length min.absorb2)
qed

lemma entry_at_data:
  assumes "length (data_of lx es) < 2 ^ 63" "i < length es"
  shows "entry_at lx (take d (data_of lx es)) (of_nat (offset_of lx es i)) =
    (if offset_of lx es (Suc i) \<le> d then Inr (es ! i) else Inl DecodeError)"
proof -
  let ?o = "offset_of lx es i" and ?r = "record_of lx (es ! i)"
  have r: "length ?r < 2 ^ 63" "?o < 2 ^ 63"
    using assms data_of_split [OF assms(2), of lx] by (simp_all add: offset_of_def)
  have off: "unat (of_nat ?o :: u64) = ?o"
    using r(2) by (intro unat_of_nat_small) simp
  have "drop ?o (take d (data_of lx es)) = take (d - ?o) (?r @ data_of lx (drop (Suc i) es))"
    unfolding data_of_split [OF assms(2), of lx] drop_take by (simp add: offset_of_def)
  moreover have "d - ?o < length ?r \<longleftrightarrow> \<not> ?o + length ?r \<le> d"
    using record_length [of "es ! i"] by linarith
  ultimately show ?thesis
    using r off next_entry_cut [OF r(1), of "d - ?o"] next_entry_record [OF r(1)]
    by (auto simp: entry_at_def seek_start_def offset_of_Suc [OF assms(2)] take_append not_le)
qed

lemma index_length: "length (index_of lx es) = 8 * length es"
  unfolding index_of_def by (subst uniform_length [where n = 8]) (simp_all add: u64_width)

lemma index_take: "take (8 * n) (index_of lx es) = index_of lx (take n es)"
proof -
  have "take (8 * n) (index_of lx es) =
      concat (map (\<lambda>k. put (le_u64 lx) (of_nat (offset_of lx es k))) (take n [0..<length es]))"
    unfolding index_of_def by (rule uniform_take) (simp add: u64_width)
  also have "take n [0..<length es] = [0..<min (length es) n]"
    by (cases "n \<le> length es") (simp_all add: min_def)
  also have "concat (map (\<lambda>k. put (le_u64 lx) (of_nat (offset_of lx es k))) [0..<min (length es) n]) =
      index_of lx (take n es)"
    unfolding index_of_def
    by (intro arg_cong [where f = concat] map_cong) (auto simp: offset_of_def min.absorb1)
  finally show ?thesis .
qed

lemma u64_at_index:
  assumes "8 * length es < 2 ^ 63" "i < n" "n \<le> length es"
  shows "u64_at lx (take (8 * n) (index_of lx es)) (of_nat (8 * i)) = Inr (of_nat (offset_of lx es i))"
proof -
  have i: "unat (of_nat (8 * i) :: u64) = 8 * i"
    using assms by (intro unat_of_nat_small) simp
  have "drop (8 * i) (take (8 * n) (index_of lx es)) =
      concat (map (\<lambda>k. put (le_u64 lx) (of_nat (offset_of lx (take n es) k))) (drop i [0..<n]))"
    unfolding index_take unfolding index_of_def
    using assms(3) by (subst uniform_drop) (simp_all add: u64_width min.absorb2)
  also have "\<dots> = put (le_u64 lx) (of_nat (offset_of lx es i)) @
      concat (map (\<lambda>k. put (le_u64 lx) (of_nat (offset_of lx (take n es) k))) [Suc i..<n])"
    using assms(2,3) upt_conv_Cons [of i n] by (simp add: drop_upt offset_of_def min.absorb1 del: upt_rec_numeral)
  finally show ?thesis
    using assms unfolding u64_at_def seek_start_def i by (simp add: read_u64)
qed

lemma index_of_snoc:
  "index_of lx (es @ [e]) = index_of lx es @ put (le_u64 lx) (of_nat (length (data_of lx es)))"
proof -
  have "map (\<lambda>k. put (le_u64 lx) (of_nat (offset_of lx (es @ [e]) k))) [0..<length es] =
      map (\<lambda>k. put (le_u64 lx) (of_nat (offset_of lx es k))) [0..<length es]"
    by (simp add: offset_of_def)
  moreover have "offset_of lx (es @ [e]) (length es) = length (data_of lx es)"
    by (simp add: offset_of_def)
  ultimately show ?thesis by (simp add: index_of_def del: map_eq_conv)
qed

lemma index_write_all: "lw_index (index_write bs lw) @ lw_index_buf (index_write bs lw) =
    lw_index lw @ lw_index_buf lw @ bs" "lw_data (index_write bs lw) = lw_data lw"
  by (simp_all add: index_write_def index_flush_def Let_def)

lemma index_flush_all [simp]: "lw_index (index_flush lw) = lw_index lw @ lw_index_buf lw"
  "lw_index_buf (index_flush lw) = []" "lw_data (index_flush lw) = lw_data lw"
  by (simp_all add: index_flush_def)

lemma write_entry_noflush_writes:
  assumes "writes lx lw es"
  shows "writes lx (write_entry_noflush lx e lw) (es @ [e])"
proof -
  have "of_nat (length (data_of lx es @ put (le_u64 lx) (of_nat (length (put (le_entry lx) e)) :: u64) @
      put (le_entry lx) e)) - of_nat (length (put (le_entry lx) e)) - of_nat SIZEOF_U64 =
      (of_nat (length (data_of lx es)) :: u64)"
    by (simp add: u64_width SIZEOF_U64_def)
  then show ?thesis
    using assms
    by (simp add: writes_def write_entry_noflush_def Let_def index_write_all index_of_snoc data_of_def
        record_of_def)
qed

lemma fold_writes:
  "writes lx lw es \<Longrightarrow> writes lx (fold (write_entry_noflush lx) es' lw) (es @ es')"
proof (induction es' arbitrary: lw es)
  case (Cons e es')
  show ?case using Cons.IH [OF write_entry_noflush_writes [OF Cons.prems, of e]] by simp
qed simp

lemma write_entries_files:
  assumes "writes lx lw es"
  shows "files_of (ledger_write_entries lx es' lw) =
    \<lparr>index_file = Some (index_of lx (es @ es')), data_file = Some (data_of lx (es @ es'))\<rparr>"
  using fold_writes [OF assms, of es'] by (simp add: ledger_write_entries_def files_of_def writes_def)

lemma open_writes:
  "LedgerWriter_open False \<lparr>index_file = Some (index_of lx es), data_file = Some (data_of lx es)\<rparr> =
     Inr \<lparr>lw_index = index_of lx es, lw_index_buf = [], lw_data = data_of lx es\<rparr>"
  "writes lx \<lparr>lw_index = index_of lx es, lw_index_buf = [], lw_data = data_of lx es\<rparr> es"
  "LedgerWriter_open True fs = Inr \<lparr>lw_index = [], lw_index_buf = [], lw_data = []\<rparr>"
  "writes lx \<lparr>lw_index = [], lw_index_buf = [], lw_data = []\<rparr> []"
  by (simp_all add: LedgerWriter_open_def open_file_def writes_def index_of_def data_of_def)

text \<open>What the readers see.\<close>

lemma collect_data:
  "length (data_of lx es) < 2 ^ 63 \<Longrightarrow> collect_entries lx (data_of lx es) = Some es"
proof (induction es)
  case Nil
  have "ledger_next_entry lx [] = Inl DecodeError"
    using stream_format.get_cut_any [OF u64s, of 0 0]
    by (simp add: ledger_next_entry_def read_limited_def u64_width)
  then show ?case
    by (subst collect_entries.simps) (simp add: data_of_def LedgerReader_next_def)
next
  case (Cons e es)
  then have "ledger_next_entry lx (data_of lx (e # es)) = Inr (e, data_of lx es)"
    using next_entry_record [of e "data_of lx es"] by (simp add: data_of_def)
  then show ?case
    using Cons by (subst collect_entries.simps) (simp add: data_of_def LedgerReader_next_def)
qed

lemma get_entry_window:
  assumes "length (data_of lx es) < 2 ^ 63" "8 * length es < 2 ^ 63" "i < length es"
  shows "LedgerWindow_get_entry lx \<lparr>lwin_index = index_of lx es, lwin_data = data_of lx es\<rparr> (of_nat i) =
    Inr (es ! i)"
proof -
  have "(of_nat i :: u64) * of_nat SIZEOF_U64 = of_nat (8 * i)" by (simp add: SIZEOF_U64_def)
  then show ?thesis
    using u64_at_index [OF assms(2,3) order_refl] entry_at_data [OF assms(1,3), of "length (data_of lx es)"]
      index_length [of es] offset_of_le [of lx es "Suc i"]
    by (simp add: LedgerWindow_get_entry_def)
qed

lemma index_bound: "length (data_of lx es) < 2 ^ 63 \<Longrightarrow> 8 * length es < 2 ^ 63"
proof -
  have "8 * length es \<le> length (data_of lx es)"
    by (induction es) (simp_all add: data_of_def record_length)
  then show "length (data_of lx es) < 2 ^ 63 \<Longrightarrow> 8 * length es < 2 ^ 63" by simp
qed

lemma verify_from:
  assumes "length (data_of lx es) < 2 ^ 63" "i \<le> length es" "a + b = of_nat (offset_of lx es i)"
  shows "verify_index lx (index_of lx es) (data_of lx es) (8 * i) a b (of_nat (offset_of lx es i)) =
    Inr (of_nat (length (data_of lx es)))"
  using assms(2,3)
proof (induction "length es - i" arbitrary: i a b)
  case 0
  then have "i = length es" by simp
  then show ?case by (subst verify_index.simps) (simp add: index_length)
next
  case (Suc k)
  then have i: "i < length es" by simp
  let ?l = "of_nat (length (put (le_entry lx) (es ! i))) + of_nat SIZEOF_U64 :: u64"
  have off: "of_nat (offset_of lx es i) + ?l = of_nat (offset_of lx es (Suc i))"
    by (simp add: offset_of_Suc [OF i] record_length SIZEOF_U64_def algebra_simps)
  have "u64_at lx (index_of lx es) (of_nat (8 * i)) = Inr (of_nat (offset_of lx es i))"
    using u64_at_index [OF index_bound [OF assms(1)] i order_refl] index_length [of es] by simp
  moreover have "entry_at lx (data_of lx es) (of_nat (offset_of lx es i)) = Inr (es ! i)"
    using entry_at_data [OF assms(1) i, of "length (data_of lx es)"] offset_of_le [of lx es "Suc i"] by simp
  moreover have "verify_index lx (index_of lx es) (data_of lx es) (8 * Suc i) (of_nat (offset_of lx es i))
      ?l (of_nat (offset_of lx es i) + ?l) = Inr (of_nat (length (data_of lx es)))"
    unfolding off using Suc.hyps(1) [of "Suc i"] Suc.hyps(2) i off by simp
  ultimately show ?case
    using i Suc.prems by (subst verify_index.simps) (simp add: index_length Let_def add.commute)
qed

lemma verify_written:
  assumes "length (data_of lx es) < 2 ^ 63"
  shows "verify_ledger lx \<lparr>index_file = Some (index_of lx es), data_file = Some (data_of lx es)\<rparr> = Inr ()"
  using verify_from [OF assms, of 0 0 0]
  by (simp add: verify_ledger_def open_file_def index_length SIZEOF_U64_def)

text \<open>Recovery after any cut: the records that are whole and whose offset is in the index stay.\<close>

lemma recover_cut:
  assumes "length (data_of lx es) < 2 ^ 63" "n \<le> length es"
    and "m \<le> n" "offset_of lx es m \<le> d" "\<forall>k. m < k \<and> k \<le> n \<longrightarrow> d < offset_of lx es k"
  shows "recover_loop lx (take (8 * n) (index_of lx es)) (take d (data_of lx es)) =
    (if m = 0 then (Inl EmptyIndex, [], take d (data_of lx es))
     else (Inr (), index_of lx (take m es), data_of lx (take m es)))"
  using assms(2-5)
proof (induction n)
  case 0
  then show ?case by (subst recover_loop.simps) simp
next
  case (Suc n)
  then have n: "n < length es" by simp
  have len: "length (take (8 * Suc n) (index_of lx es)) = 8 * Suc n"
    using Suc.prems by (simp add: index_length)
  have at: "u64_at lx (take (8 * Suc n) (index_of lx es)) (of_nat (8 * n)) = Inr (of_nat (offset_of lx es n))"
    using u64_at_index [OF index_bound [OF assms(1)], of n "Suc n"] Suc.prems by simp
  show ?case
  proof (cases "m = Suc n")
    case True
    have "of_nat (offset_of lx es n) + of_nat SIZEOF_U64 + of_nat (length (put (le_entry lx) (es ! n))) =
        (of_nat (offset_of lx es m) :: u64)"
      by (simp add: True offset_of_Suc [OF n] record_length SIZEOF_U64_def)
    moreover have "unat (of_nat (offset_of lx es m) :: u64) = offset_of lx es m" "offset_of lx es m < 2 ^ 63"
      using assms(1) offset_of_le [of lx es m] by (simp_all add: unat_of_nat_small)
    moreover have "take (offset_of lx es m) (take d (data_of lx es)) = data_of lx (take m es)"
      using Suc.prems(3) by (simp add: take_data_of min.absorb1)
    ultimately have "recover_loop lx (take (8 * Suc n) (index_of lx es)) (take d (data_of lx es)) =
        (Inr (), take (8 * Suc n) (index_of lx es), data_of lx (take m es))"
      using at entry_at_data [OF assms(1) n, of d] Suc.prems True len offset_of_le [of lx es m]
      by (subst recover_loop.simps) (simp add: Let_def SIZEOF_U64_def set_len_def)
    then show ?thesis using True by (simp only: index_take) simp
  next
    case False
    then have m: "m \<le> n" "d < offset_of lx es (Suc n)" using Suc.prems by auto
    have "recover_loop lx (take (8 * Suc n) (index_of lx es)) (take d (data_of lx es)) =
        recover_loop lx (take (8 * n) (index_of lx es)) (take d (data_of lx es))"
      using at m entry_at_data [OF assms(1) n, of d] len
      by (subst recover_loop.simps) (simp add: Let_def SIZEOF_U64_def)
    then show ?thesis using Suc.IH Suc.prems m by simp
  qed
qed

lemma recover_written:
  assumes "length (data_of lx es) < 2 ^ 63"
    and "m \<le> length es" "8 * m \<le> i" "offset_of lx es m \<le> d"
    and "m = length es \<or> i < 8 * Suc m \<or> d < offset_of lx es (Suc m)"
  shows "recover_ledger lx \<lparr>index_file = Some (take i (index_of lx es)), data_file = Some (take d (data_of lx es))\<rparr> =
    (if m = 0 then (Inl EmptyIndex, \<lparr>index_file = Some [], data_file = Some (take d (data_of lx es))\<rparr>)
     else (Inr (), \<lparr>index_file = Some (index_of lx (take m es)), data_file = Some (data_of lx (take m es))\<rparr>))"
proof -
  let ?n = "min (i div 8) (length es)"
  have "length (take i (index_of lx es)) - length (take i (index_of lx es)) mod 8 = 8 * ?n"
    by (cases "i \<le> 8 * length es") (auto simp: index_length min_def minus_mod_eq_mult_div)
  moreover have "take (8 * ?n) (take i (index_of lx es)) = take (8 * ?n) (index_of lx es)"
    by (simp add: min_def)
  moreover have "d < offset_of lx es k" if "m < k" "k \<le> ?n" for k
  proof -
    have "d < offset_of lx es (Suc m)" using that assms(2,5) by auto
    also have "offset_of lx es (Suc m) \<le> offset_of lx es k"
      using that offset_of_le [of lx "take k es" "Suc m"] by (simp add: offset_of_def min.absorb1)
    finally show ?thesis .
  qed
  moreover have "m \<le> ?n" using assms(2,3) by auto
  ultimately show ?thesis
    using recover_cut [OF assms(1), of ?n m d] assms(4)
    by (simp add: recover_ledger_def SIZEOF_U64_def Let_def)
qed

end

text \<open>bincode's documented formats are such a ledger format.\<close>

definition bincode_ledger_ext :: ledger_ext where
  "bincode_ledger_ext = \<lparr>le_entry = entry_wire, le_u64 = u64_wire\<rparr>"

interpretation bincode_ledger: ledger_format bincode_ledger_ext
  by (rule ledger_format.intro) (simp_all add: bincode_ledger_ext_def entry_stream word_stream)

section \<open>What the ledger on disk promises\<close>

text \<open>C34: entries written through one writer and then through a second one opened on the same files are
  what the sequential reader returns, in order and to the end; the two files verify against each
  other; and random access by position returns each entry.\<close>

theorem written_ledger_reads_back:
  assumes "ledger_format lx" and "LedgerWriter_open True fs = Inr lw0"
    and "LedgerWriter_open False (files_of (ledger_write_entries lx es lw0)) = Inr lw1"
    and "fs' = files_of (ledger_write_entries lx es' lw1)"
    and "length (lw_data (ledger_write_entries lx es' lw1)) < 2 ^ 63"
  shows "(\<exists>data. read_ledger lx False fs' = (Inr data, fs') \<and> collect_entries lx data = Some (es @ es')) \<and>
    verify_ledger lx fs' = Inr () \<and>
    (\<exists>win. LedgerWindow_open fs' = Inr win \<and>
      (\<forall>i < length (es @ es'). LedgerWindow_get_entry lx win (of_nat i) = Inr ((es @ es') ! i)))"
proof -
  have lw0: "writes lx lw0 []"
    using assms(2) ledger_format.open_writes(3,4) [OF assms(1)] by simp
  have lw1: "writes lx lw1 es"
    using assms(3) ledger_format.open_writes(1,2) [OF assms(1), of es]
      ledger_format.write_entries_files [OF assms(1) lw0, of es] by simp
  have fs': "fs' = \<lparr>index_file = Some (index_of lx (es @ es')), data_file = Some (data_of lx (es @ es'))\<rparr>"
    using assms(4) ledger_format.write_entries_files [OF assms(1) lw1, of es'] by simp
  then have small: "length (data_of lx (es @ es')) < 2 ^ 63"
    using assms(4,5) by (simp add: files_of_def)
  note lf = ledger_format.collect_data [OF assms(1) small] ledger_format.verify_written [OF assms(1) small]
    ledger_format.get_entry_window [OF assms(1) small ledger_format.index_bound [OF assms(1) small]]
  show ?thesis
    using lf by (simp add: fs' read_ledger_def LedgerWindow_open_def open_file_def)
qed

lemma bincode_tick_record [simp]: "length (record_of bincode_ledger_ext (new_tick n h)) = 56"
  by (simp add: bincode_ledger.record_length)
    (simp add: bincode_ledger_ext_def entry_wire_def iso_wire_def pair_wire_def hash_wire_def list_wire_def
      new_tick_def)

lemma bincode_tick_data:
  "writes bincode_ledger_ext lw es \<Longrightarrow> length (lw_data (ledger_write_entries bincode_ledger_ext [new_tick n h] lw)) =
    length (data_of bincode_ledger_ext es) + 56"
  using bincode_ledger.fold_writes [of lw es "[new_tick n h]"]
  by (simp add: ledger_write_entries_def writes_def) (simp add: data_of_def)

theorem written_ledger_witness:
  "\<exists>fs data. read_ledger bincode_ledger_ext False fs = (Inr data, fs) \<and>
    collect_entries bincode_ledger_ext data = Some [new_tick 1 (Hash 5), new_tick 2 (Hash 6)]"
proof -
  let ?lx = bincode_ledger_ext
  obtain lw0 where lw0: "LedgerWriter_open True \<lparr>index_file = None, data_file = None\<rparr> = Inr lw0" "writes ?lx lw0 []"
    using bincode_ledger.open_writes(3,4) by blast
  obtain lw1 where lw1: "LedgerWriter_open False (files_of (ledger_write_entries ?lx [new_tick 1 (Hash 5)] lw0)) = Inr lw1"
    "writes ?lx lw1 [new_tick 1 (Hash 5)]"
    using bincode_ledger.write_entries_files [OF lw0(2)] bincode_ledger.open_writes(1,2) by auto
  have "length (lw_data (ledger_write_entries ?lx [new_tick 2 (Hash 6)] lw1)) < 2 ^ 63"
    unfolding bincode_tick_data [OF lw1(2)] by (simp add: data_of_def)
  from written_ledger_reads_back [OF bincode_ledger.ledger_format_axioms lw0(1) lw1(1) refl this]
  show ?thesis by auto
qed

text \<open>C35: whatever was cut off the two files of a written ledger, recovery keeps exactly the longest run
  of entries whose offset and whose record are both complete: the files become those of a ledger
  that holds these entries, reading them back returns these entries, and when not even the first one
  is complete the recovery reports an empty ledger index.\<close>

theorem recovery_keeps_whole_entries:
  assumes "ledger_format lx" and "LedgerWriter_open True fs = Inr lw0"
    and "lw = ledger_write_entries lx es lw0" and "length (lw_data lw) < 2 ^ 63"
    and "crashed = \<lparr>index_file = Some (take i (lw_index lw)), data_file = Some (take d (lw_data lw))\<rparr>"
  shows "\<exists>m \<le> length es. 8 * m \<le> i \<and> length (lw_data (ledger_write_entries lx (take m es) lw0)) \<le> d \<and>
    (m = length es \<or> i < 8 * Suc m \<or> d < length (lw_data (ledger_write_entries lx (take (Suc m) es) lw0))) \<and>
    (if m = 0 then fst (recover_ledger lx crashed) = Inl EmptyIndex
     else recover_ledger lx crashed = (Inr (), files_of (ledger_write_entries lx (take m es) lw0)) \<and>
       (\<exists>data. fst (read_ledger lx True crashed) = Inr data \<and> collect_entries lx data = Some (take m es)))"
proof -
  have lw0: "writes lx lw0 []"
    using assms(2) ledger_format.open_writes(3,4) [OF assms(1)] by simp
  have files: "files_of (ledger_write_entries lx es' lw0) =
      \<lparr>index_file = Some (index_of lx es'), data_file = Some (data_of lx es')\<rparr>" for es'
    using ledger_format.write_entries_files [OF assms(1) lw0, of es'] by simp
  then have dat: "lw_data (ledger_write_entries lx es' lw0) = data_of lx es'"
    "lw_index (ledger_write_entries lx es' lw0) = index_of lx es'" for es'
    by (simp_all add: files_of_def)
  have small: "length (data_of lx es) < 2 ^ 63" using assms(3,4) dat by simp
  define P where "P m \<longleftrightarrow> 8 * m \<le> i \<and> offset_of lx es m \<le> d" for m
  obtain m where m: "m \<le> length es" "P m" "m = length es \<or> \<not> P (Suc m)"
  proof -
    have "P 0" by (simp add: P_def)
    define m where "m = Max {k. k \<le> length es \<and> P k}"
    have fin: "finite {k. k \<le> length es \<and> P k}" by (rule finite_subset [of _ "{..length es}"]) auto
    then have "m \<in> {k. k \<le> length es \<and> P k}" unfolding m_def using \<open>P 0\<close> by (intro Max_in) auto
    moreover have "\<not> P (Suc m)" if "m < length es"
      using Max_ge [OF fin, of "Suc m"] that by (auto simp: m_def [symmetric])
    ultimately show thesis by (intro that [of m]) auto
  qed
  have rec: "recover_ledger lx crashed =
    (if m = 0 then (Inl EmptyIndex, \<lparr>index_file = Some [], data_file = Some (take d (data_of lx es))\<rparr>)
     else (Inr (), \<lparr>index_file = Some (index_of lx (take m es)), data_file = Some (data_of lx (take m es))\<rparr>))"
    using ledger_format.recover_written [OF assms(1) small, of m i d] m
    by (auto simp: assms(3,5) dat P_def)
  have "length (data_of lx (take m es)) < 2 ^ 63"
    using small offset_of_le [of lx es m] by (simp add: offset_of_def)
  note collect = ledger_format.collect_data [OF assms(1) this]
  show ?thesis
    using m rec collect
    by (intro exI [of _ m]) (auto simp: P_def dat files offset_of_def read_ledger_def open_file_def)
qed

theorem recovery_witness:
  "\<exists>crashed data. fst (read_ledger bincode_ledger_ext True crashed) = Inr data \<and>
    collect_entries bincode_ledger_ext data = Some [new_tick 1 (Hash 5)]"
proof -
  let ?lx = bincode_ledger_ext and ?es = "[new_tick 1 (Hash 5), new_tick 2 (Hash 6)]"
  obtain lw0 where lw0: "LedgerWriter_open True \<lparr>index_file = None, data_file = None\<rparr> = Inr lw0" "writes ?lx lw0 []"
    using bincode_ledger.open_writes(3,4) by blast
  have dat: "lw_data (ledger_write_entries ?lx es lw0) = data_of ?lx es" for es
    using bincode_ledger.write_entries_files [OF lw0(2), of es] by (simp add: files_of_def)
  have len: "length (lw_data (ledger_write_entries ?lx ?es lw0)) = 112" by (simp add: dat data_of_def)
  then have "length (lw_data (ledger_write_entries ?lx ?es lw0)) < 2 ^ 63" by simp
  from recovery_keeps_whole_entries [OF bincode_ledger.ledger_format_axioms lw0(1) refl this refl, of 16 100]
  obtain m where m: "m \<le> 2" "length (data_of ?lx (take m ?es)) \<le> 100"
    "m = 2 \<or> (16::nat) < 8 * Suc m \<or> (100::nat) < length (data_of ?lx (take (Suc m) ?es))"
    "m \<noteq> 0 \<longrightarrow> (\<exists>crashed data. fst (read_ledger ?lx True crashed) = Inr data \<and>
       collect_entries ?lx data = Some (take m ?es))"
    by (auto simp: dat split: if_splits)
  consider "m = 0" | "m = 1" | "m = 2" using m(1) by linarith
  then have "m = 1" using m(2,3) by cases (simp_all add: data_of_def)
  then show ?thesis using m(4) by simp
qed

end
