(* ===== verification/Ledger_Stages.thy ===== *)
theory Ledger_Stages
  imports Recording Voting Ledger_Store "HOL-Library.Sublist"
begin

text \<open>
  The stages that write the ledger: the leader's write stage, which records what the processing stage
  sent, stops at leader rotations and votes (src/write_stage.rs); the validator's replicate stage
  (src/replicate_stage.rs); and the store stage of a node that only keeps the ledger
  (src/store_ledger_stage.rs).

  A message from a channel is a \<open>received\<close>, and the messages a following \<open>try_recv\<close> loop finds are the
  list \<open>queue\<close>.  Writes to the ledger files succeed.
\<close>

section \<open>The write stage\<close>

text \<open>The loop of \<open>find_leader_rotation_index\<close>: \<open>i\<close> entries are passed and \<open>rest\<close> of them are left.\<close>

function rotation_loop :: "blockthread \<Rightarrow> u64 \<Rightarrow> u64 \<Rightarrow> nat \<Rightarrow> nat \<Rightarrow> (nat \<times> bool) panics" where
  "rotation_loop bt interval entry_height i rest =
     (if interval = 0 then None
      else do {
        is_leader_rotation \<leftarrow>
          (if (entry_height + of_nat i) mod interval = 0 then do {
             me \<leftarrow> my_data bt;
             next_leader \<leftarrow> get_scheduled_leader (entry_height + of_nat i) bt;
             Some (next_leader \<noteq> Some (ni_id me)) }
           else Some False);
        if is_leader_rotation then Some (i, True)
        else if rest = 0 then Some (i, False)
        else let step = min (unat (interval - entry_height mod interval)) rest
             in rotation_loop bt interval entry_height (i + step) (rest - step) })"
  by pat_completeness auto

lemma interval_left: "interval \<noteq> 0 \<Longrightarrow> 0 < unat (interval - h mod interval)" for interval h :: u64
  by (metis unat_gt_0 right_minus_eq word_mod_less_divisor word_gt_0 less_irrefl)

termination rotation_loop
  by (relation "measure (\<lambda>(bt, interval, h, i, rest). rest)") (auto simp: interval_left)

declare rotation_loop.simps [simp del]

definition find_leader_rotation_index ::
    "blockthread \<Rightarrow> u64 \<Rightarrow> u64 \<Rightarrow> entry list \<Rightarrow> (entry list \<times> bool) panics" where
  "find_leader_rotation_index bt interval entry_height new_entries = do {
     (i, is_leader_rotation) \<leftarrow> rotation_loop bt interval entry_height 0 (length new_entries);
     Some (take i new_entries, is_leader_rotation) }"

record 'lib write_stage =
  ws_voting :: "'lib voting"
  ws_writer :: ledger_writer
  ws_sent :: "entry list list"
  ws_open :: bool
  ws_entry_height :: u64

text \<open>Collecting: the batches to write and the messages left in the channel.\<close>

fun gather_entries ::
    "blockthread \<Rightarrow> u64 \<Rightarrow> u64 \<Rightarrow> entry list \<Rightarrow> entry list list \<Rightarrow> nat \<Rightarrow> (entry list list \<times> entry list list) panics" where
  "gather_entries bt interval entry_height received_entries queue num_new_entries = do {
     (new_entries, is_leader_rotation) \<leftarrow>
       find_leader_rotation_index bt interval (entry_height + of_nat num_new_entries) received_entries;
     (case queue of
        [] \<Rightarrow> Some ([new_entries], [])
      | n # queue' \<Rightarrow>
          if is_leader_rotation then Some ([new_entries], queue)
          else do {
            (ventries, left) \<leftarrow> gather_entries bt interval entry_height n queue' (num_new_entries + length new_entries);
            Some (new_entries # ventries, left) }) }"

fun write_batches ::
    "ledger_ext \<Rightarrow> entry_ext \<Rightarrow> u64 \<Rightarrow> entry list list \<Rightarrow> 'lib write_stage \<Rightarrow> ((stage_error + unit) \<times> 'lib write_stage) panics" where
  "write_batches lx ee now [] ws = Some (Inr (), ws)"
| "write_batches lx ee now (entries # ventries) ws = do {
     votes \<leftarrow> block_votes ee entries;
     bt \<leftarrow> insert_votes now votes (vs_bt (ws_voting ws));
     let ws = ws\<lparr>ws_voting := (ws_voting ws)\<lparr>vs_bt := bt\<rparr>,
                 ws_writer := ledger_write_entries lx entries (ws_writer ws),
                 ws_entry_height := ws_entry_height ws + of_nat (length entries)\<rparr>;
     if entries = [] then write_batches lx ee now ventries ws
     else if \<not> ws_open ws then Some (Inl SendError, ws)
     else write_batches lx ee now ventries (ws\<lparr>ws_sent := ws_sent ws @ [entries]\<rparr>) }"

definition write_and_send_entries ::
    "ledger_ext \<Rightarrow> entry_ext \<Rightarrow> u64 \<Rightarrow> u64 \<Rightarrow> entry list received \<Rightarrow> entry list list \<Rightarrow> 'lib write_stage \<Rightarrow>
       ((stage_error + unit) \<times> 'lib write_stage \<times> entry list list) panics" where
  "write_and_send_entries lx ee now interval first queue ws =
     (case first of
        TimedOut \<Rightarrow> Some (Inl RecvTimeout, ws, queue)
      | Disconnected \<Rightarrow> Some (Inl RecvDisconnected, ws, queue)
      | Message received_entries \<Rightarrow> do {
          (ventries, left) \<leftarrow>
            gather_entries (vs_bt (ws_voting ws)) interval (ws_entry_height ws) received_entries queue 0;
          (r, ws) \<leftarrow> write_batches lx ee now ventries ws;
          Some (r, ws, left) })"

datatype write_stage_return = LeaderRotation | ChannelDisconnected

text \<open>One turn of the writer thread: its return value when it ends, the state and the channel.\<close>

definition write_stage_turn ::
    "'kp ed25519 \<Rightarrow> transaction codec \<Rightarrow> ledger_ext \<Rightarrow> entry_ext \<Rightarrow> 'kp \<Rightarrow> pubkey list \<Rightarrow> u64 \<Rightarrow> u64 \<Rightarrow>
       entry list received \<Rightarrow> entry list list \<Rightarrow> 'lib write_stage \<Rightarrow>
       (write_stage_return option \<times> 'lib write_stage \<times> entry list list) panics" where
  "write_stage_turn ring txc lx ee keypair ks now interval first queue ws =
     (if interval = 0 then None
      else do {
        rotate \<leftarrow> (if ws_entry_height ws mod interval = 0 then do {
            me \<leftarrow> my_data (vs_bt (ws_voting ws));
            scheduled_leader \<leftarrow> get_scheduled_leader (ws_entry_height ws) (vs_bt (ws_voting ws));
            Some (scheduled_leader \<noteq> Some (ni_id me)) }
          else Some False);
        if rotate then Some (Some LeaderRotation, ws, queue)
        else do {
          (r, ws, queue) \<leftarrow> write_and_send_entries lx ee now interval first queue ws;
          if r = Inl RecvDisconnected then Some (Some ChannelDisconnected, ws, queue)
          else do {
            (_, vs) \<leftarrow> send_leader_vote ring (ee_tx ee) txc ks now now keypair (ws_voting ws);
            Some (None, ws\<lparr>ws_voting := vs\<rparr>, queue) } } })"

section \<open>The replicate stage\<close>

record 'lib replicate_stage =
  rs_voting :: "'lib voting"
  rs_writer :: "ledger_writer option"

datatype replicate_error = ChannelErr stage_error | ProcessErr tp_error

text \<open>\<open>vote\<close> is whether it is time to vote.  An error of the processor is returned last, after the
  entries have been written.\<close>

definition replicate_requests ::
    "'kp ed25519 \<Rightarrow> transaction codec \<Rightarrow> ledger_ext \<Rightarrow> 'lib tp_ext \<Rightarrow> 'kp \<Rightarrow> u64 \<Rightarrow> bool \<Rightarrow>
       entry list received \<Rightarrow> entry list list \<Rightarrow> 'lib replicate_stage \<Rightarrow>
       ((replicate_error + unit) \<times> 'lib replicate_stage) panics" where
  "replicate_requests ring txc lx px keypair now vote first queue rs =
     (case first of
        TimedOut \<Rightarrow> Some (Inl (ChannelErr RecvTimeout), rs)
      | Disconnected \<Rightarrow> Some (Inl (ChannelErr RecvDisconnected), rs)
      | Message first_entries \<Rightarrow> do {
          let entries = first_entries @ concat queue;
          (st, res) \<leftarrow> process_entries px entries (vs_tp (rs_voting rs));
          let vs = (rs_voting rs)\<lparr>vs_tp := st\<rparr>;
          (sent, vs) \<leftarrow> (if vote then send_validator_vote ring (ee_tx (px_entry px)) txc now keypair vs
                        else Some (Inr (), vs));
          if sent = Inl () then Some (Inl (ChannelErr SendError), rs\<lparr>rs_voting := vs\<rparr>)
          else do {
            votes \<leftarrow> block_votes (px_entry px) entries;
            bt \<leftarrow> insert_votes now votes (vs_bt vs);
            let rs = rs\<lparr>rs_voting := vs\<lparr>vs_bt := bt\<rparr>,
                        rs_writer := map_option (ledger_write_entries lx entries) (rs_writer rs)\<rparr>;
            Some (case res of Inl e \<Rightarrow> Inl (ProcessErr e) | Inr _ \<Rightarrow> Inr (), rs) } })"

text \<open>One turn of the stage's thread.  A node votes once a second: \<open>secs\<close> is the time since the thread
  started, \<open>next_vote_secs\<close> the time at which the next vote is due.  The first component is whether the
  loop goes on.\<close>

definition replicate_turn ::
    "'kp ed25519 \<Rightarrow> transaction codec \<Rightarrow> ledger_ext \<Rightarrow> 'lib tp_ext \<Rightarrow> 'kp \<Rightarrow> u64 \<Rightarrow> u64 \<Rightarrow> entry list received \<Rightarrow>
       entry list list \<Rightarrow> u64 \<times> 'lib replicate_stage \<Rightarrow> (bool \<times> u64 \<times> 'lib replicate_stage) panics" where
  "replicate_turn ring txc lx px keypair now secs first queue = (\<lambda>(next_vote_secs, rs). do {
     let vote = next_vote_secs < secs;
     (res, rs) \<leftarrow> replicate_requests ring txc lx px keypair now vote first queue rs;
     Some (res \<noteq> Inl (ChannelErr RecvDisconnected), if vote then next_vote_secs + 1 else next_vote_secs, rs) })"

section \<open>The store stage\<close>

definition store_requests ::
    "ledger_ext \<Rightarrow> entry list received \<Rightarrow> entry list list \<Rightarrow> ledger_writer option \<Rightarrow>
       (stage_error + unit) \<times> ledger_writer option" where
  "store_requests lx first queue writer =
     (case first of
        TimedOut \<Rightarrow> (Inl RecvTimeout, writer)
      | Disconnected \<Rightarrow> (Inl RecvDisconnected, writer)
      | Message entries \<Rightarrow> (Inr (), map_option (ledger_write_entries lx (entries @ concat queue)) writer))"

definition store_turn ::
    "ledger_ext \<Rightarrow> entry list received \<Rightarrow> entry list list \<Rightarrow> ledger_writer option \<Rightarrow> bool \<times> ledger_writer option" where
  "store_turn lx first queue writer =
     (case store_requests lx first queue writer of (res, writer) \<Rightarrow> (worker_continues res, writer))"

section \<open>Where a leader stops\<close>

text \<open>The specification of the rotation index: the first height, from the current one to the end of the
  entries, at which another node is scheduled to lead.\<close>

definition rotation_due :: "blockthread \<Rightarrow> u64 \<Rightarrow> u64 \<Rightarrow> bool" where
  "rotation_due bt interval height \<longleftrightarrow> height mod interval = 0 \<and>
     (case (my_data bt, get_scheduled_leader height bt) of
        (Some me, Some l) \<Rightarrow> l \<noteq> Some (ni_id me) | _ \<Rightarrow> False)"

definition first_rotation :: "blockthread \<Rightarrow> u64 \<Rightarrow> u64 \<Rightarrow> nat \<Rightarrow> nat \<times> bool" where
  "first_rotation bt interval h n =
     (case List.find (\<lambda>i. rotation_due bt interval (h + of_nat i)) [0..<Suc n] of
        Some i \<Rightarrow> (i, True) | None \<Rightarrow> (n, False))"

lemma first_rotation_here:
  assumes "i \<le> n" "\<forall>j < i. \<not> rotation_due bt interval (h + of_nat j)" "rotation_due bt interval (h + of_nat i)"
  shows "first_rotation bt interval h n = (i, True)"
proof -
  have "List.find (\<lambda>i. rotation_due bt interval (h + of_nat i)) [0..<Suc n] = Some i"
    using assms by (auto simp: find_Some_iff simp del: upt_Suc intro!: exI [of _ i])
  then show ?thesis by (simp add: first_rotation_def)
qed

lemma first_rotation_none:
  assumes "\<forall>j \<le> n. \<not> rotation_due bt interval (h + of_nat j)"
  shows "first_rotation bt interval h n = (n, False)"
proof -
  have "List.find (\<lambda>i. rotation_due bt interval (h + of_nat i)) [0..<Suc n] = None"
    using assms by (auto simp: find_None_iff simp del: upt_Suc)
  then show ?thesis by (simp add: first_rotation_def)
qed

lemma get_scheduled_leader_wf:
  assumes "bt_wf bt"
  shows "\<exists>l. get_scheduled_leader h bt = Some l"
proof -
  obtain self where "my_data bt = Some self" using my_data_wf [OF assms] by blast
  then show ?thesis unfolding get_scheduled_leader_def by (cases "bt_scheduled_leaders bt h") simp_all
qed

text \<open>Heights at which a rotation may happen, as natural numbers.\<close>

lemma boundary_iff:
  fixes h interval :: u64
  assumes "unat h + j < 2 ^ 64"
  shows "(h + of_nat j) mod interval = 0 \<longleftrightarrow> (unat h + j) mod unat interval = 0"
proof -
  have "unat (of_nat j :: u64) = j" using assms by (intro unat_of_nat_small) simp
  then have "unat (h + of_nat j) = unat h + j" using assms by (simp add: unat_word_ariths)
  moreover have "(h + of_nat j) mod interval = 0 \<longleftrightarrow> unat ((h + of_nat j) mod interval) = 0"
    by (simp only: unat_eq_0)
  ultimately show ?thesis by (simp only: unat_mod_distrib)
qed

lemma boundary_gap:
  assumes "(H + a) mod I = 0" "a < j" "j < a + I"
  shows "(H + j) mod I \<noteq> (0 :: nat)"
proof
  assume "(H + j) mod I = 0"
  then have "I dvd (H + j) - (H + a)" using assms(1) by (intro dvd_diff_nat) auto
  then show False using assms(2,3) by (auto dest: dvd_imp_le)
qed

lemma next_boundary:
  assumes "0 < I"
  shows "(H + (I - H mod I)) mod I = (0 :: nat)"
proof -
  have "H mod I < I" using assms by simp
  then have "H mod I + (I - H mod I) = I" by simp
  moreover have "(H + (I - H mod I)) mod I = (H mod I + (I - H mod I)) mod I" by (simp only: mod_add_left_eq)
  ultimately show ?thesis by simp
qed

lemma rotation_loop_step:
  assumes "bt_wf bt" "interval \<noteq> 0"
  shows "rotation_loop bt interval h i rest =
    (if rotation_due bt interval (h + of_nat i) then Some (i, True)
     else if rest = 0 then Some (i, False)
     else let step = min (unat (interval - h mod interval)) rest
          in rotation_loop bt interval h (i + step) (rest - step))"
proof -
  obtain me where me: "my_data bt = Some me" using my_data_wf [OF assms(1)] by blast
  obtain l where l: "get_scheduled_leader (h + of_nat i) bt = Some l" using get_scheduled_leader_wf [OF assms(1)] by blast
  have "(if (h + of_nat i) mod interval = 0 then do {
             me \<leftarrow> my_data bt;
             next_leader \<leftarrow> get_scheduled_leader (h + of_nat i) bt;
             Some (next_leader \<noteq> Some (ni_id me)) }
           else Some False) = Some (rotation_due bt interval (h + of_nat i))"
    by (simp add: rotation_due_def me l)
  then show ?thesis
    unfolding rotation_loop.simps [of bt interval h i rest] using assms(2) by (simp only: if_False bind.simps)
qed

lemma interval_left_unat:
  fixes h interval :: u64
  assumes "interval \<noteq> 0"
  shows "unat (interval - h mod interval) = unat interval - unat h mod unat interval"
proof -
  have "0 < unat interval" using assms by (simp add: unat_gt_0)
  then have "unat (h mod interval) \<le> unat interval"
    unfolding unat_mod_distrib by (intro less_imp_le mod_less_divisor)
  then have "h mod interval \<le> interval" by (simp only: word_le_nat_alt)
  from unat_sub [OF this] show ?thesis by (simp only: unat_mod_distrib)
qed

lemma rotation_loop_first:
  fixes h interval :: u64
  defines "s \<equiv> unat (interval - h mod interval)" and "I \<equiv> unat interval" and "H \<equiv> unat h"
  assumes "bt_wf bt" "interval \<noteq> 0" "H + (i + rest) < 2 ^ 64"
    and "\<forall>j < i. \<not> rotation_due bt interval (h + of_nat j)"
    and "rest = 0 \<or> s = I \<and> (H + i) mod I = 0 \<or> i + rest < s + I \<and> (i = 0 \<or> s \<le> i)"
  shows "rotation_loop bt interval h i rest = Some (first_rotation bt interval h (i + rest))"
  using assms(6-8)
proof (induction rest arbitrary: i rule: less_induct)
  case (less rest)
  let ?due = "\<lambda>j. rotation_due bt interval (h + of_nat j)"
  have s: "s = I - H mod I" "0 < s"
    using interval_left [OF assms(5), of h] interval_left_unat [OF assms(5), of h] unfolding s_def I_def H_def
    by simp_all
  have no: "\<not> ?due j" if "(H + j) mod I \<noteq> 0" "j \<le> i + rest" for j
    using that boundary_iff [of h j interval] less.prems(1) by (auto simp: rotation_due_def H_def I_def)
  consider (due) "?due i" | (last) "\<not> ?due i" "rest = 0" | (go) "\<not> ?due i" "rest \<noteq> 0" by blast
  then show ?case
  proof cases
    case due
    then show ?thesis
      using first_rotation_here [OF _ less.prems(2) due, of "i + rest"] rotation_loop_step [OF assms(4,5), of h i rest] by simp
  next
    case last
    then have "\<forall>j \<le> i + rest. \<not> ?due j" using less.prems(2) by (metis add_0_right le_neq_implies_less)
    then show ?thesis using last first_rotation_none rotation_loop_step [OF assms(4,5), of h i rest] by simp
  next
    case go
    define step where "step = min s rest"
    have step: "0 < step" "step \<le> rest" "step \<le> s" using go s(2) by (simp_all add: step_def)
    have run: "rotation_loop bt interval h i rest = rotation_loop bt interval h (i + step) (rest - step)"
      using go rotation_loop_step [OF assms(4,5), of h i rest] by (simp add: step_def s_def Let_def)
    have between: "(H + j) mod I \<noteq> 0" if "i < j" "j < i + step" for j
    proof -
      have nb: "(H + s) mod I = 0" unfolding s(1) by (rule next_boundary) (use s in simp)
      consider "s = I" "(H + i) mod I = 0" | "i = 0" | "i + rest < s + I" "s \<le> i"
        using less.prems(3) go(2) by metis
      then show ?thesis
      proof cases
        case 1
        then show ?thesis using boundary_gap [OF 1(2), of j] that step by linarith
      next
        case 2
        have "s \<le> I" using s(1) by linarith
        then show ?thesis using boundary_gap [of H j I s] nb that step 2 by linarith
      next
        case 3
        then show ?thesis using boundary_gap [OF nb, of j] that step by linarith
      qed
    qed
    have "\<not> ?due j" if "j < i + step" for j
    proof (cases "j \<le> i")
      case True
      then show ?thesis using go(1) less.prems(2) by (metis le_neq_implies_less)
    next
      case False
      then show ?thesis using no [of j] between [of j] that step by linarith
    qed
    then have before: "\<forall>j < i + step. \<not> ?due j" by blast
    have reach:  "rest - step = 0 \<or> s = I \<and> (H + (i + step)) mod I = 0 \<or>
        i + step + (rest - step) < s + I \<and> (i + step = 0 \<or> s \<le> i + step)"
    proof (cases "rest \<le> s")
      case True
      then show ?thesis by (simp add: step_def)
    next
      case False
      then have eq: "step = s" by (simp add: step_def)
      from less.prems(3) go(2) consider "s = I" "(H + i) mod I = 0" | "i + rest < s + I" by metis
      then show ?thesis
      proof cases
        case 1
        then have "(H + (i + step)) mod I = 0" unfolding eq by (metis add.assoc mod_add_self2)
        then show ?thesis using 1 by blast
      next
        case 2
        then show ?thesis using eq step by linarith
      qed
    qed
    have "H + (i + step + (rest - step)) < 2 ^ 64" "rest - step < rest" "i + step + (rest - step) = i + rest"
      using less.prems(1) step by linarith+
    then show ?thesis using less.IH [of "rest - step" "i + step", OF _ _ before reach] run by metis
  qed
qed

section \<open>What is written\<close>

lemma write_entries_writes:
  assumes "ledger_format lx" "writes lx lw es"
  shows "writes lx (ledger_write_entries lx es' lw) (es @ es')"
  using ledger_format.fold_writes [OF assms, of es']
  by (simp add: writes_def ledger_write_entries_def index_flush_def)

lemma write_batches_ok:
  assumes "ledger_format lx" "write_batches lx ee now ventries ws = Some (Inr (), ws')" "writes lx (ws_writer ws) es"
  shows "ws_sent ws' = ws_sent ws @ filter (\<lambda>b. b \<noteq> []) ventries \<and>
    writes lx (ws_writer ws') (es @ concat ventries) \<and>
    ws_entry_height ws' = ws_entry_height ws + of_nat (length (concat ventries))"
  using assms(2,3)
proof (induction ventries arbitrary: ws es)
  case (Cons entries ventries)
  obtain votes bt where votes: "block_votes ee entries = Some votes"
    "insert_votes now votes (vs_bt (ws_voting ws)) = Some bt"
    using Cons.prems(1) by (auto simp: bind_eq_Some_conv)
  let ?ws = "ws\<lparr>ws_voting := (ws_voting ws)\<lparr>vs_bt := bt\<rparr>, ws_writer := ledger_write_entries lx entries (ws_writer ws),
      ws_entry_height := ws_entry_height ws + of_nat (length entries)\<rparr>"
  let ?ws2 = "if entries = [] then ?ws else ?ws\<lparr>ws_sent := ws_sent ws @ [entries]\<rparr>"
  have "write_batches lx ee now ventries ?ws2 = Some (Inr (), ws')"
    using Cons.prems(1) votes by (auto simp: Let_def split: if_splits)
  moreover have "writes lx (ws_writer ?ws2) (es @ entries)"
    using write_entries_writes [OF assms(1) Cons.prems(2), of entries] by auto
  ultimately show ?case using Cons.IH [of ?ws2 "es @ entries"] by (auto simp: add.assoc)
qed simp

lemma find_leader_rotation_prefix:
  "find_leader_rotation_index bt interval h es = Some (new, rot) \<Longrightarrow> prefix new es"
  by (auto simp: find_leader_rotation_index_def bind_eq_Some_conv take_is_prefix)

lemma rotation_loop_end:
  "rotation_loop bt interval h i rest = Some (n, False) \<Longrightarrow> n = i + rest"
proof (induction rest arbitrary: i rule: less_induct)
  case (less rest)
  let ?step = "min (unat (interval - h mod interval)) rest"
  have "interval \<noteq> 0" and "(if rest = 0 then Some (i, False)
      else rotation_loop bt interval h (i + ?step) (rest - ?step)) = Some (n, False)"
    using less.prems unfolding rotation_loop.simps [of bt interval h i rest]
    by (auto simp: bind_eq_Some_conv Let_def split: if_splits)
  then show ?case
    using less.IH [of "rest - ?step" "i + ?step"] interval_left [of interval h] by (cases "rest = 0") auto
qed

text \<open>Collecting takes whole messages until a rotation, at which the rest of the current message is dropped.\<close>

lemma find_leader_rotation_all:
  assumes "find_leader_rotation_index bt interval h es = Some (new, False)"
  shows "new = es"
proof -
  obtain i where i: "rotation_loop bt interval h 0 (length es) = Some (i, False)" "new = take i es"
    using assms by (auto simp: find_leader_rotation_index_def bind_eq_Some_conv)
  then show ?thesis using rotation_loop_end [OF i(1)] by simp
qed

lemma gather_entries_takes:
  assumes "gather_entries bt interval h received queue num = Some (ventries, left)"
  shows "prefix (concat ventries) (received @ concat queue) \<and>
    (concat ventries @ concat left = received @ concat queue \<or>
     (\<exists>h' es new. find_leader_rotation_index bt interval h' es = Some (new, True)))"
  using assms
proof (induction queue arbitrary: received num ventries)
  case Nil
  then obtain new rot where f: "find_leader_rotation_index bt interval (h + of_nat num) received = Some (new, rot)"
    "ventries = [new]" "left = []"
    by (auto simp: bind_eq_Some_conv)
  have "rot \<or> new = received"
    using f(1) find_leader_rotation_all by (cases rot) auto
  then show ?case using f find_leader_rotation_prefix [OF f(1)] by (cases rot) auto
next
  case (Cons n queue)
  obtain new rot where f: "find_leader_rotation_index bt interval (h + of_nat num) received = Some (new, rot)"
    using Cons.prems by (auto simp: bind_eq_Some_conv)
  show ?case
  proof (cases rot)
    case True
    then have "ventries = [new]" using Cons.prems f by simp
    then show ?thesis using f True find_leader_rotation_prefix [OF f(1)] by (auto simp: prefix_def)
  next
    case False
    then obtain vs where vs: "gather_entries bt interval h n queue (num + length new) = Some (vs, left)"
      "ventries = new # vs"
      using Cons.prems f by (auto simp: bind_eq_Some_conv)
    have "new = received"
      using f False find_leader_rotation_all by simp
    then show ?thesis using Cons.IH [OF vs(1)] vs(2) by simp
  qed
qed

section \<open>What the stages promise\<close>

text \<open>C14: for entries that start at a multiple of the rotation interval, or that reach at most one
  boundary of an interval, the write stage finds exactly the specified rotation index: it cuts the
  entries at the first height at which another node leads, and says whether there is one.\<close>

theorem rotation_index_is_first:
  assumes "bt_wf bt" "interval \<noteq> 0" "unat h + length es < 2 ^ 64"
    and "h mod interval = 0 \<or> length es < unat (interval - h mod interval) + unat interval"
  shows "find_leader_rotation_index bt interval h es =
    (case first_rotation bt interval h (length es) of (i, rot) \<Rightarrow> Some (take i es, rot))"
proof -
  let ?s = "unat (interval - h mod interval)"
  have "(unat h + 0) mod unat interval = 0" "?s = unat interval" if "h mod interval = 0"
    using that boundary_iff [of h 0 interval] assms(3) by simp_all
  then have "length es = 0 \<or> ?s = unat interval \<and> (unat h + 0) mod unat interval = 0 \<or>
      0 + length es < ?s + unat interval \<and> (0 = 0 \<or> ?s \<le> 0)"
    using assms(4) by (metis add_0)
  then have "rotation_loop bt interval h 0 (length es) = Some (first_rotation bt interval h (0 + length es))"
    using assms(3) by (intro rotation_loop_first assms(1,2)) simp_all
  then show ?thesis by (simp add: find_leader_rotation_index_def case_prod_beta)
qed

text \<open>A node that leads at every height but those scheduled for others.\<close>

definition leading_node :: "(u64 \<rightharpoonup> pubkey) \<Rightarrow> blockthread" where
  "leading_node leaders = (voter_table (Pubkey 3))\<lparr>bt_scheduled_leaders := leaders\<rparr>"

lemma leading_node_facts:
  "bt_wf (leading_node leaders)"
  "rotation_due (leading_node leaders) interval h \<longleftrightarrow>
     h mod interval = 0 \<and> (case leaders h of Some l \<Rightarrow> l \<noteq> Pubkey 3 | None \<Rightarrow> False)"
  by (simp_all add: leading_node_def voter_table_def bt_wf_def rotation_due_def my_data_def get_scheduled_leader_def
      new_localhost_def NodeInfo_new_def split: option.split)

theorem rotation_index_witness:
  "find_leader_rotation_index (leading_node [10 \<mapsto> Pubkey 4]) 10 8 [new_tick 1 (Hash 1), new_tick 1 (Hash 2), new_tick 1 (Hash 3)] =
    Some ([new_tick 1 (Hash 1), new_tick 1 (Hash 2)], True)"
proof -
  let ?es = "[new_tick 1 (Hash 1), new_tick 1 (Hash 2), new_tick 1 (Hash 3)]" and ?bt = "leading_node [10 \<mapsto> Pubkey 4]"
  have len: "length ?es = 3" by simp
  have "\<not> rotation_due ?bt 10 (8 + of_nat 0)" "\<not> rotation_due ?bt 10 (8 + of_nat 1)"
    by (simp_all add: leading_node_facts)
  then have "\<forall>j < 2. \<not> rotation_due ?bt 10 (8 + of_nat j)" by (metis less_2_cases One_nat_def)
  then have first: "first_rotation ?bt 10 8 3 = (2, True)"
    by (rule first_rotation_here [rotated]) (simp_all add: leading_node_facts)
  have "find_leader_rotation_index ?bt 10 8 ?es =
      (case first_rotation ?bt 10 8 (length ?es) of (i, rot) \<Rightarrow> Some (take i ?es, rot))"
    by (rule rotation_index_is_first [OF leading_node_facts(1)]) (simp_all only: len, simp_all)
  then show ?thesis unfolding len first by (simp add: numeral_2_eq_2)
qed

text \<open>The cut misses a rotation when the entries cross two boundaries and do not start at one: the
  search goes on in steps of the distance from the start to the first boundary.  Here the node leads
  from height 10 and another from height 20, and 16 entries that start at height 6 are all kept and
  no rotation is reported, where the specified index is 14.\<close>

theorem second_rotation_missed:
  assumes "bt_wf bt" "\<not> rotation_due bt 10 10" "rotation_due bt 10 20" "length es = 16"
  shows "find_leader_rotation_index bt 10 6 es = Some (es, False) \<and>
    first_rotation bt 10 6 (length es) = (14, True)"
proof
  note step = rotation_loop_step [OF assms(1), of 10 6]
  have off: "\<not> rotation_due bt 10 h" if "h mod 10 \<noteq> 0" for h
    using that by (simp add: rotation_due_def)
  have "rotation_loop bt 10 6 0 16 = rotation_loop bt 10 6 4 12" by (subst step) (simp_all add: off)
  also have "\<dots> = rotation_loop bt 10 6 8 8" using assms(2) by (subst step) (simp_all add: off)
  also have "\<dots> = rotation_loop bt 10 6 12 4" by (subst step) (simp_all add: off)
  also have "\<dots> = rotation_loop bt 10 6 16 0" by (subst step) (simp_all add: off)
  also have "\<dots> = Some (16, False)" by (subst step) (simp_all add: off)
  finally have "rotation_loop bt 10 6 0 16 = Some (16, False)" .
  then show "find_leader_rotation_index bt 10 6 es = Some (es, False)"
    using assms(4) by (simp add: find_leader_rotation_index_def)
  have "\<not> rotation_due bt 10 (6 + of_nat j)" if "j < 14" for j
  proof -
    have "(6 + j) mod 10 = 0 \<Longrightarrow> j = 4" using that by presburger
    moreover have "(6 + of_nat j :: u64) mod 10 = 0 \<longleftrightarrow> (6 + j) mod 10 = 0"
      using boundary_iff [of 6 j 10] that by simp
    ultimately have "j = 4 \<or> (6 + of_nat j :: u64) mod 10 \<noteq> 0" by metis
    moreover have "(6 + of_nat 4 :: u64) = 10" by simp
    ultimately show ?thesis using assms(2) off by metis
  qed
  then show "first_rotation bt 10 6 (length es) = (14, True)"
    using assms(3,4) by (intro first_rotation_here) auto
qed

theorem second_rotation_witness:
  "find_leader_rotation_index (leading_node [20 \<mapsto> Pubkey 4]) 10 6 (replicate 16 (new_tick 1 (Hash 1))) =
    Some (replicate 16 (new_tick 1 (Hash 1)), False)"
  using second_rotation_missed [OF leading_node_facts(1), of "[20 \<mapsto> Pubkey 4]" "replicate 16 (new_tick 1 (Hash 1))"]
  by (simp add: leading_node_facts)

text \<open>C16: what the leader writes to its ledger is what it hands to the broadcast: a turn of the write
  stage that succeeds appends to the ledger exactly the entries it sends on, and its entry height
  counts them; they are the first of the entries it received, and all of those that are not still in
  the channel unless a leader rotation was found.\<close>

theorem ledger_holds_what_is_sent:
  assumes "ledger_format lx" "writes lx (ws_writer ws) es"
    and "write_and_send_entries lx ee now interval (Message received) queue ws = Some (Inr (), ws', left)"
  shows "\<exists>new. ws_sent ws' = ws_sent ws @ new \<and> writes lx (ws_writer ws') (es @ concat new) \<and>
    ws_entry_height ws' = ws_entry_height ws + of_nat (length (concat new)) \<and>
    prefix (concat new) (received @ concat queue) \<and>
    (concat new @ concat left = received @ concat queue \<or>
     (\<exists>h es new. find_leader_rotation_index (vs_bt (ws_voting ws)) interval h es = Some (new, True)))"
proof -
  obtain ventries where v: "gather_entries (vs_bt (ws_voting ws)) interval (ws_entry_height ws) received queue 0 =
      Some (ventries, left)" "write_batches lx ee now ventries ws = Some (Inr (), ws')"
    using assms(3) by (auto simp: write_and_send_entries_def bind_eq_Some_conv)
  have "concat (filter (\<lambda>b. b \<noteq> []) ventries) = concat ventries" by (induction ventries) auto
  then show ?thesis
    using write_batches_ok [OF assms(1) v(2) assms(2)] gather_entries_takes [OF v(1)]
    by (intro exI [of _ "filter (\<lambda>b. b \<noteq> []) ventries"]) simp
qed

definition sample_write_stage :: "unit write_stage" where
  "sample_write_stage = \<lparr>ws_voting = \<lparr>vs_tp = sample_tp, vs_bt = leading_node Map.empty, vs_last_vote = 0,
       vs_last_valid_validator_timestamp = 0, vs_sent = [], vs_open = True\<rparr>,
     ws_writer = \<lparr>lw_index = [], lw_index_buf = [], lw_data = []\<rparr>, ws_sent = [], ws_open = True, ws_entry_height = 0\<rparr>"

theorem ledger_holds_witness:
  "\<exists>ws' left. write_and_send_entries bincode_ledger_ext (bincode_entry_ext (\<lambda>bs. Hash (le_word bs))) 5 100
      (Message [new_tick 1 (Hash 1)]) [] sample_write_stage = Some (Inr (), ws', left) \<and>
    (\<exists>new. ws_sent ws' = new \<and> writes bincode_ledger_ext (ws_writer ws') (concat new))"
proof -
  let ?ee = "bincode_entry_ext (\<lambda>bs. Hash (le_word bs))"
  note step = rotation_loop_step [OF leading_node_facts(1), of 100 Map.empty 0]
  have "rotation_loop (leading_node Map.empty) 100 0 0 1 = rotation_loop (leading_node Map.empty) 100 0 1 0"
    by (subst step) (simp_all add: leading_node_facts)
  also have "\<dots> = Some (1, False)" by (subst step) (simp_all add: leading_node_facts)
  finally have "find_leader_rotation_index (leading_node Map.empty) 100 0 [new_tick 1 (Hash 1)] =
      Some ([new_tick 1 (Hash 1)], False)"
    by (simp add: find_leader_rotation_index_def)
  then obtain ws' left where run: "write_and_send_entries bincode_ledger_ext ?ee 5 100
      (Message [new_tick 1 (Hash 1)]) [] sample_write_stage = Some (Inr (), ws', left)"
    by (simp add: write_and_send_entries_def sample_write_stage_def block_votes_def new_tick_def)
  have "writes bincode_ledger_ext (ws_writer sample_write_stage) []"
    using bincode_ledger.open_writes(4) by (simp add: sample_write_stage_def)
  from ledger_holds_what_is_sent [OF bincode_ledger.ledger_format_axioms this run]
  show ?thesis using run by (auto simp: sample_write_stage_def)
qed

lemma replicate_follows_leader:
  assumes "PodRecorder_new L = Some r0" "(leader_step px txc (fee_ok px) ^^ n) r0 r"
    and "solvent (tp_accounts L)" "replica L (vs_tp (rs_voting rs))"
    and "ledger_format lx" "rs_writer rs = Some lw" "writes lx lw es"
    and "first @ concat queue = concat (rec_sent r)" "block_votes (px_entry px) (concat (rec_sent r)) = Some votes"
    and "insert_votes now votes (vs_bt (rs_voting rs)) = Some bt"
  shows "\<exists>rs' lw'. replicate_requests ring txc' lx px kp now False (Message first) queue rs = Some (Inr (), rs') \<and>
    replica (rec_tp r) (vs_tp (rs_voting rs')) \<and> vs_bt (rs_voting rs') = bt \<and>
    rs_writer rs' = Some lw' \<and> writes lx lw' (es @ concat (rec_sent r))"
proof -
  have "replayed px (vs_tp (rs_voting rs)) 0 r0"
    using assms(1,3,4) by (auto simp: PodRecorder_new_def bind_eq_Some_conv replayed_def)
  then have "replayed px (vs_tp (rs_voting rs)) n r" by (rule replay.run_keeps [OF assms(2) order_refl])
  then obtain V where V: "process_entries px (concat (rec_sent r)) (vs_tp (rs_voting rs)) = Some (V, Inr ())" "replica (rec_tp r) V"
    by (auto simp: replayed_def)
  then show ?thesis
    using assms(6-10) write_entries_writes [OF assms(5,7)] by (simp add: replicate_requests_def)
qed

text \<open>A validator that receives the leader's entries, in order and however they are split into
  messages, accepts them all, ends in agreement with the leader and has appended exactly those entries
  to its ledger; the votes among the entries are counted in its table.\<close>

theorem validator_stage_follows_leader:
  assumes "PodRecorder_new L = Some r0" "(leader_step px txc (fee_ok px) ^^ n) r0 r"
    and "solvent (tp_accounts L)" "replica L (vs_tp (rs_voting rs))"
    and "ledger_format lx" "rs_writer rs = Some lw" "writes lx lw es"
    and "first @ concat queue = concat (rec_sent r)" "block_votes (px_entry px) (concat (rec_sent r)) = Some votes"
    and "insert_votes now votes (vs_bt (rs_voting rs)) = Some bt"
  shows "\<exists>rs' lw'. replicate_requests ring txc' lx px kp now False (Message first) queue rs = Some (Inr (), rs') \<and>
    replica (rec_tp r) (vs_tp (rs_voting rs')) \<and> vs_bt (rs_voting rs') = bt \<and>
    rs_writer rs' = Some lw' \<and> writes lx lw' (es @ concat (rec_sent r))"
  by (rule replicate_follows_leader [OF assms])

theorem validator_stage_witness:
  "\<exists>(r :: unit recorder) (rs' :: unit replicate_stage) lw'. replicate_requests sample_ring sample_txc bincode_ledger_ext sample_px 7 5 False
      (Message (concat (rec_sent r))) []
      \<lparr>rs_voting = \<lparr>vs_tp = sample_tp, vs_bt = leading_node Map.empty, vs_last_vote = 0,
         vs_last_valid_validator_timestamp = 0, vs_sent = [], vs_open = True\<rparr>,
       rs_writer = Some \<lparr>lw_index = [], lw_index_buf = [], lw_data = []\<rparr>\<rparr> = Some (Inr (), rs') \<and>
    replica (rec_tp r) (vs_tp (rs_voting rs')) \<and> concat (rec_sent r) \<noteq> [] \<and>
    rs_writer rs' = Some lw' \<and> writes bincode_ledger_ext lw' (concat (rec_sent r))"
proof -
  let ?rs = "\<lparr>rs_voting = \<lparr>vs_tp = sample_tp, vs_bt = leading_node Map.empty, vs_last_vote = 0,
         vs_last_valid_validator_timestamp = 0, vs_sent = [], vs_open = True\<rparr>,
       rs_writer = Some \<lparr>lw_index = [], lw_index_buf = [], lw_data = []\<rparr>\<rparr>"
  obtain r0 r e f where run: "PodRecorder_new sample_tp = Some r0"
    "(leader_step sample_px sample_txc (fee_ok sample_px) ^^ 2) r0 r"
    "concat (rec_sent r) = [e, f]" "transactions e = [sample_transfer]" "transactions f = []"
    using sample_leader_run by blast
  have solv: "solvent (tp_accounts sample_tp)" by (simp add: solvent_def sample_tp_def)
  have votes: "block_votes (px_entry sample_px) (concat (rec_sent r)) = Some []"
    using run(3-5) by (simp add: block_votes_def tx_vote_def sample_transfer_instruction)
  have "\<exists>rs' lw'. replicate_requests sample_ring sample_txc bincode_ledger_ext sample_px 7 5 False
      (Message (concat (rec_sent r))) [] ?rs = Some (Inr (), rs') \<and>
    replica (rec_tp r) (vs_tp (rs_voting rs')) \<and> vs_bt (rs_voting rs') = leading_node Map.empty \<and>
    rs_writer rs' = Some lw' \<and> writes bincode_ledger_ext lw' ([] @ concat (rec_sent r))"
    by (rule validator_stage_follows_leader [OF run(1,2) solv _ bincode_ledger.ledger_format_axioms _
          bincode_ledger.open_writes(4) _ votes]) simp_all
  then show ?thesis using run(3) by (intro exI [of _ r]) auto
qed

end
