(* ===== verification/Window.thy ===== *)
theory Window
  imports Blockthread Transaction_Processor
begin

text \<open>
  The receive window (src/window.rs): a ring of \<open>WINDOW_SIZE\<close> slots, indexed by blob index modulo the
  size.  Blobs arrive in any order; runs that continue what was consumed are turned into entries.

  Blobs are held by one owner at a time here, so a slot holds the blob itself.  The default build has
  no erasure coding, and the calls into it are not part of this model.  The loop that consumes
  contiguous blobs is a \<open>partial_function\<close>: \<open>None\<close> is a loop that never ends, \<open>Some None\<close> a panic.
\<close>

section \<open>The model\<close>

record window_slot =
  slot_data :: "blob option"
  slot_coding :: "blob option"
  slot_leader_unknown :: bool

type_synonym window = "window_slot list"

definition WindowSlot_default :: window_slot where
  "WindowSlot_default = \<lparr>slot_data = None, slot_coding = None, slot_leader_unknown = False\<rparr>"

definition blob_index :: "window_slot \<Rightarrow> u64 option panics" where
  "blob_index s = (case slot_data s of None \<Rightarrow> Some None | Some b \<Rightarrow> map_option Some (get_index b))"

definition clear_data :: "window_slot \<Rightarrow> window_slot" where
  "clear_data s = s\<lparr>slot_data := None\<rparr>"

definition slot_of :: "u64 \<Rightarrow> nat" where
  "slot_of pix = unat pix mod WINDOW_SIZE"

primrec clear_range :: "u64 list \<Rightarrow> window \<Rightarrow> (u64 list \<times> window) panics" where
  "clear_range [] w = Some ([], w)"
| "clear_range (pix # pixs) w = do {
     s \<leftarrow> get_at w (slot_of pix);
     ix \<leftarrow> blob_index s;
     if ix = Some pix then clear_range pixs w
     else do {
       (missing, w) \<leftarrow> clear_range pixs (w[slot_of pix := clear_data s]);
       Some (pix # missing, w) } }"

definition clear_slots :: "u64 \<Rightarrow> u64 \<Rightarrow> window \<Rightarrow> (u64 list \<times> window) panics" where
  "clear_slots consumed received w = clear_range (map of_nat [unat consumed ..< unat received]) w"

definition saturating_sub :: "u64 \<Rightarrow> u64 \<Rightarrow> u64" where
  "saturating_sub a b = (if b \<le> a then a - b else 0)"

definition calculate_max_repair :: "u64 \<Rightarrow> u64 \<Rightarrow> u64 \<Rightarrow> nat \<Rightarrow> bool \<Rightarrow> u64" where
  "calculate_max_repair num_peers consumed received tries is_next_leader =
     (let max_repair = (if 8 \<le> tries \<or> is_next_leader then max consumed received
            else max consumed (saturating_sub received num_peers))
      in min (consumed + of_nat WINDOW_SIZE - 1) max_repair)"

text \<open>\<open>ks\<close> walks the node table and \<open>rnd\<close> draws the peer for each request.\<close>

definition repair ::
    "protocol codec \<Rightarrow> pubkey list \<Rightarrow> (u64 \<Rightarrow> nat) \<Rightarrow> blockthread \<Rightarrow> pubkey \<Rightarrow> nat \<Rightarrow> u64 \<Rightarrow> u64 \<Rightarrow> u64 \<Rightarrow> window \<Rightarrow>
     ((socket_addr \<times> bytes) list \<times> window) panics" where
  "repair pc ks rnd bt key tries consumed received max_entry_height w =
     (let interval = bt_leader_rotation_interval bt in
      if interval = 0 then None
      else do {
        leader \<leftarrow> get_scheduled_leader (consumed + interval - consumed mod interval) bt;
        let num_peers = of_nat (length (map_values ks (bt_table bt)));
        let max_repair = (if max_entry_height = 0
          then calculate_max_repair num_peers consumed received tries (leader = Some key)
          else max_entry_height + 1);
        (idxs, w) \<leftarrow> clear_slots consumed max_repair w;
        reqs \<leftarrow> sequence_panics (map (\<lambda>pix. window_index_request pc ks (rnd pix) pix bt) idxs);
        Some (List.map_filter (\<lambda>r. case r of Inr x \<Rightarrow> Some x | Inl _ \<Rightarrow> None) reqs, w) })"

text \<open>The new blob takes the slot in any case; the result says whether it replaced one with its own index.\<close>

definition insert_blob_is_dup :: "blob \<Rightarrow> u64 \<Rightarrow> blob option \<Rightarrow> (bool \<times> blob option) panics" where
  "insert_blob_is_dup b pix window_slot =
     (case window_slot of
        None \<Rightarrow> Some (False, Some b)
      | Some old \<Rightarrow> do { ix \<leftarrow> get_index old; Some (ix = pix, Some b) })"

datatype consume_result = Stop window | Take "entry list"

definition at_my_rotation :: "blockthread \<Rightarrow> u64 \<Rightarrow> u64 \<Rightarrow> bool panics" where
  "at_my_rotation bt interval consumed =
     (if consumed = 0 then Some False
      else if interval = 0 then None
      else if consumed mod interval \<noteq> 0 then Some False
      else do {
        me \<leftarrow> my_data bt;
        leader \<leftarrow> get_scheduled_leader consumed bt;
        Some (leader = Some (ni_id me)) })"

definition consume_step :: "entry_ext \<Rightarrow> blockthread \<Rightarrow> u64 \<Rightarrow> window \<Rightarrow> u64 \<Rightarrow> consume_result panics" where
  "consume_step ee bt interval w consumed = do {
     mine \<leftarrow> at_my_rotation bt interval consumed;
     if mine then Some (Stop w)
     else do {
       s \<leftarrow> get_at w (slot_of consumed);
       (case slot_data s of
          None \<Rightarrow> Some (Stop w)
        | Some b \<Rightarrow> do {
            ix \<leftarrow> get_index b;
            if ix < consumed then Some (Stop w)
            else do {
              r \<leftarrow> reconstruct_entries_from_blobs ee [b];
              Some (case r of
                Inr es \<Rightarrow> Take es
              | Inl _ \<Rightarrow> Stop (w[slot_of consumed := s\<lparr>slot_data := None\<rparr>])) } }) } }"

partial_function (option) consume_loop ::
    "entry_ext \<Rightarrow> blockthread \<Rightarrow> u64 \<Rightarrow> window \<Rightarrow> u64 \<Rightarrow> entry list \<Rightarrow> (window \<times> u64 \<times> entry list) panics option" where
  "consume_loop ee bt interval w consumed q =
     (case consume_step ee bt interval w consumed of
        None \<Rightarrow> Some None
      | Some (Stop w') \<Rightarrow> Some (Some (w', consumed, q))
      | Some (Take es) \<Rightarrow> consume_loop ee bt interval w (consumed + 1) (q @ es))"

text \<open>Storing a blob in its slot, and whether it was a duplicate, which ends its processing.\<close>

definition store_blob :: "blob \<Rightarrow> u64 \<Rightarrow> bool \<Rightarrow> window \<Rightarrow> (bool \<times> window) panics" where
  "store_blob b pix leader_unknown w = do {
     coding \<leftarrow> is_coding b;
     s \<leftarrow> get_at w (slot_of pix);
     (dup, s) \<leftarrow> (if coding
       then map_option (\<lambda>(dup, c). (dup, s\<lparr>slot_coding := c\<rparr>)) (insert_blob_is_dup b pix (slot_coding s))
       else map_option (\<lambda>(dup, d). (dup, s\<lparr>slot_data := d\<rparr>)) (insert_blob_is_dup b pix (slot_data s)));
     Some (dup, w[slot_of pix := (if dup then s else s\<lparr>slot_leader_unknown := leader_unknown\<rparr>)]) }"

definition process_blob ::
    "entry_ext \<Rightarrow> blockthread \<Rightarrow> u64 \<Rightarrow> bool \<Rightarrow> blob \<Rightarrow> u64 \<Rightarrow> window \<Rightarrow> u64 \<Rightarrow> bool \<Rightarrow> entry list \<Rightarrow>
     (window \<times> u64 \<times> bool \<times> entry list) panics option" where
  "process_blob ee bt interval leader_unknown b pix w consumed pending q =
     (case store_blob b pix leader_unknown w of
        None \<Rightarrow> Some None
      | Some (dup, w) \<Rightarrow>
          if dup then Some (Some (w, consumed, pending, q))
          else map_option (map_option (\<lambda>(w, consumed, q). (w, consumed, True, q)))
                 (consume_loop ee bt interval w consumed q))"

definition blob_idx_in_window :: "u64 \<Rightarrow> u64 \<Rightarrow> u64 \<Rightarrow> bool \<times> u64" where
  "blob_idx_in_window pix consumed received =
     (if pix < consumed then (False, received)
      else (\<not> consumed + of_nat WINDOW_SIZE \<le> pix, max pix received))"

definition default_window :: window where
  "default_window = replicate WINDOW_SIZE WindowSlot_default"

definition index_blobs :: "pubkey codec \<Rightarrow> node_info \<Rightarrow> blob list \<Rightarrow> u64 \<Rightarrow> blob list panics" where
  "index_blobs pk me bs receive_index =
     sequence_panics (map (\<lambda>(i, b). do {
       b \<leftarrow> set_id pk (ni_id me) b;
       b \<leftarrow> set_index (receive_index + of_nat i) b;
       set_flags 0 b }) (enumerate 0 bs))"

primrec cache_blobs :: "blob list \<Rightarrow> window \<Rightarrow> window panics" where
  "cache_blobs [] w = Some w"
| "cache_blobs (b # bs) w = do {
     ix \<leftarrow> get_index b;
     s \<leftarrow> get_at w (slot_of ix);
     if slot_data s = None then cache_blobs bs (w[slot_of ix := s\<lparr>slot_data := Some b\<rparr>]) else None }"

definition initialized_window :: "pubkey codec \<Rightarrow> node_info \<Rightarrow> blob list \<Rightarrow> u64 \<Rightarrow> window panics" where
  "initialized_window pk me bs entry_height = do {
     bs' \<leftarrow> index_blobs pk me bs (entry_height - of_nat (length bs));
     cache_blobs (drop (length bs' - length default_window) bs') default_window }"

definition new_window_from_entries :: "entry_ext \<Rightarrow> entry list \<Rightarrow> u64 \<Rightarrow> node_info \<Rightarrow> window panics" where
  "new_window_from_entries ee ledger_tail entry_height me = do {
     bs \<leftarrow> block_to_blobs ee ledger_tail;
     initialized_window (ee_pubkey ee) me bs entry_height }"

section \<open>Runs of blobs\<close>

lemma WINDOW_SIZE_eq: "WINDOW_SIZE = 2048"
  by (simp add: WINDOW_SIZE_def)

lemma slot_of_nat: "i < 2 ^ 64 \<Longrightarrow> slot_of (of_nat i) = i mod 2048"
  by (simp add: slot_of_def WINDOW_SIZE_eq unat_of_nat_small)

text \<open>A data blob with an index and one entry in it.\<close>

definition carries :: "entry_ext \<Rightarrow> blob \<Rightarrow> u64 \<Rightarrow> entry \<Rightarrow> bool" where
  "carries ee b ix e \<longleftrightarrow> get_index b = Some ix \<and> is_coding b = Some False \<and>
     reconstruct_entries_from_blobs ee [b] = Some (Inr [e])"

text \<open>The window holds the blobs at the positions \<open>R\<close> of a run of \<open>n\<close> blobs from \<open>start\<close>, and no other.\<close>

definition holds_run :: "nat \<Rightarrow> nat \<Rightarrow> blob list \<Rightarrow> nat set \<Rightarrow> window \<Rightarrow> bool" where
  "holds_run start n bs R w \<longleftrightarrow> length w = 2048 \<and>
     (\<forall>j < n. slot_data (w ! ((start + j) mod 2048)) = (if j \<in> R then Some (bs ! j) else None)) \<and>
     (n < 2048 \<longrightarrow> slot_data (w ! ((start + n) mod 2048)) = None)"

lemma ring_inj:
  fixes i j start :: nat
  assumes "i < 2048" "j < 2048" "(start + i) mod 2048 = (start + j) mod 2048"
  shows "i = j"
proof (rule ccontr)
  have less: False if "i < j" "j < 2048" "(start + j) mod 2048 = (start + i) mod 2048" for i j
    using that mod_eq_dvd_iff_nat [of "start + i" "start + j" 2048] by (auto dest: dvd_imp_le)
  assume "i \<noteq> j"
  then show False using less [of i j] less [of j i] assms by linarith
qed

lemma holds_run_insert:
  assumes "holds_run start n bs R w" "n \<le> 2048" "j < n" "slot_data s = Some (bs ! j)"
  shows "holds_run start n bs (insert j R) (w[(start + j) mod 2048 := s])"
proof -
  have "(start + j) mod 2048 = (start + i) mod 2048 \<longleftrightarrow> i = j" if "i < 2048" for i
    using ring_inj [of i j start] that assms(2,3) by auto
  then show ?thesis using assms by (auto simp: holds_run_def nth_list_update)
qed

text \<open>What one look at the next slot finds.\<close>

lemma consume_step_run:
  assumes "holds_run start n bs R w" "n \<le> 2048" "start + 2048 < 2 ^ 64" "k \<le> n"
    and "\<forall>j < n. carries ee (bs ! j) (of_nat (start + j)) (es ! j)"
    and "at_my_rotation bt interval (of_nat (start + k)) = Some False"
  shows "consume_step ee bt interval w (of_nat (start + k)) =
    Some (if k < n \<and> k \<in> R then Take [es ! k] else Stop w)"
proof -
  have slot: "slot_of (of_nat (start + k)) = (start + k) mod 2048"
    using assms(2-4) by (intro slot_of_nat) simp
  have at: "get_at w ((start + k) mod 2048) = Some (w ! ((start + k) mod 2048))"
    using assms(1) by (simp add: get_at_def holds_run_def)
  show ?thesis
  proof (cases "k < n")
    case True
    then show ?thesis
      using assms(1,5,6) slot at by (auto simp: consume_step_def holds_run_def carries_def)
  next
    case False
    then have k: "k = n" using assms(4) by simp
    show ?thesis
    proof (cases "n < 2048")
      case True
      then show ?thesis using assms(1,6) slot at k by (auto simp: consume_step_def holds_run_def)
    next
      case False
      then have n: "n = 2048" using assms(2) by simp
      have "slot_data (w ! ((start + 0) mod 2048)) = (if 0 \<in> R then Some (bs ! 0) else None)"
        using assms(1) n unfolding holds_run_def by (metis zero_less_numeral)
      then have "slot_data (w ! ((start + k) mod 2048)) = (if 0 \<in> R then Some (bs ! 0) else None)"
        using k n by simp
      moreover have "get_index (bs ! 0) = Some (of_nat start)" using assms(5) n by (simp add: carries_def)
      moreover have "(of_nat start :: u64) < of_nat (start + k)"
      proof -
        have "unat (of_nat (start + k) :: u64) = start + k" "unat (of_nat start :: u64) = start"
          using assms(3) n k by (intro unat_of_nat_small; simp)+
        then show ?thesis using n k by (simp add: word_less_nat_alt del: of_nat_add)
      qed
      ultimately show ?thesis using assms(6) slot at k by (auto simp: consume_step_def)
    qed
  qed
qed

text \<open>The loop takes the whole run and ends.\<close>

lemma consume_loop_run:
  assumes "holds_run start n bs R w" "n \<le> 2048" "start + 2048 < 2 ^ 64"
    and "\<forall>j < n. carries ee (bs ! j) (of_nat (start + j)) (es ! j)" "length es = n"
    and "\<forall>j \<le> n. at_my_rotation bt interval (of_nat (start + j)) = Some False"
    and "p \<le> p'" "p' \<le> n" "{p ..< p'} \<subseteq> R" "p' = n \<or> p' \<notin> R"
  shows "consume_loop ee bt interval w (of_nat (start + p)) q =
    Some (Some (w, of_nat (start + p'), q @ drop p (take p' es)))"
  using assms(7-10)
proof (induction "p' - p" arbitrary: p q)
  case 0
  then have "p = p'" by simp
  moreover have "consume_step ee bt interval w (of_nat (start + p')) = Some (Stop w)"
    using consume_step_run [OF assms(1-3) 0(3) assms(4)] assms(6) 0 by auto
  ultimately show ?case by (subst consume_loop.simps) simp
next
  case (Suc d)
  then have p: "p < n" "p \<in> R" "p < p'" by auto
  have "consume_loop ee bt interval w (of_nat (start + Suc p)) (q @ [es ! p]) =
      Some (Some (w, of_nat (start + p'), (q @ [es ! p]) @ drop (Suc p) (take p' es)))"
    using Suc p by (intro Suc.hyps(1)) auto
  moreover have "(of_nat (start + p) :: u64) + 1 = of_nat (start + Suc p)" by simp
  moreover have "[es ! p] @ drop (Suc p) (take p' es) = drop p (take p' es)"
    using p assms(5) Suc.prems Cons_nth_drop_Suc [of p "take p' es"] by simp
  moreover have "consume_step ee bt interval w (of_nat (start + p)) = Some (Take [es ! p])"
    using consume_step_run [OF assms(1-3) less_imp_le [OF p(1)] assms(4)] assms(6) p by simp
  ultimately show ?case
    by (subst consume_loop.simps) (simp only: option.case consume_result.case append_assoc)
qed

lemma run_end_exists:
  fixes p n :: nat
  shows "p \<le> n \<Longrightarrow> \<exists>p'. p \<le> p' \<and> p' \<le> n \<and> {p ..< p'} \<subseteq> R \<and> (p' = n \<or> p' \<notin> R)"
proof (induction "n - p" arbitrary: p)
  case (Suc d)
  show ?case
  proof (cases "p \<in> R")
    case True
    have "\<exists>p'. Suc p \<le> p' \<and> p' \<le> n \<and> {Suc p ..< p'} \<subseteq> R \<and> (p' = n \<or> p' \<notin> R)"
      using Suc.hyps(2) by (intro Suc.hyps(1)) auto
    then obtain p' where p': "Suc p \<le> p'" "p' \<le> n" "{Suc p ..< p'} \<subseteq> R" "p' = n \<or> p' \<notin> R" by blast
    moreover have "{p ..< p'} = insert p {Suc p ..< p'}" using p'(1) by auto
    ultimately show ?thesis using True by (intro exI [of _ p']) auto
  qed (use Suc.prems in auto)
qed auto

lemma store_blob_run:
  assumes "holds_run start n bs R w" "n \<le> 2048" "start + 2048 < 2 ^ 64" "j < n"
    and "carries ee (bs ! j) (of_nat (start + j)) e"
  shows "\<exists>w'. store_blob (bs ! j) (of_nat (start + j)) lu w = Some (j \<in> R, w') \<and>
    holds_run start n bs (insert j R) w'"
proof -
  let ?i = "(start + j) mod 2048"
  have slot: "slot_of (of_nat (start + j)) = ?i" using assms(2-4) by (intro slot_of_nat) simp
  have at: "get_at w ?i = Some (w ! ?i)" "slot_data (w ! ?i) = (if j \<in> R then Some (bs ! j) else None)"
    using assms(1,4) by (simp_all add: get_at_def holds_run_def)
  let ?s = "(w ! ?i)\<lparr>slot_data := Some (bs ! j)\<rparr>"
  have "store_blob (bs ! j) (of_nat (start + j)) lu w =
      Some (j \<in> R, w[?i := (if j \<in> R then ?s else ?s\<lparr>slot_leader_unknown := lu\<rparr>)])"
    using assms(5) at unfolding store_blob_def slot carries_def by (simp add: insert_blob_is_dup_def)
  moreover have "holds_run start n bs (insert j R) (w[?i := (if j \<in> R then ?s else ?s\<lparr>slot_leader_unknown := lu\<rparr>)])"
    by (rule holds_run_insert [OF assms(1,2,4)]) simp
  ultimately show ?thesis by blast
qed

lemma process_blob_run:
  assumes "holds_run start n bs R w" "n \<le> 2048" "start + 2048 < 2 ^ 64"
    and "\<forall>j < n. carries ee (bs ! j) (of_nat (start + j)) (es ! j)" "length es = n"
    and "\<forall>j \<le> n. at_my_rotation bt interval (of_nat (start + j)) = Some False"
    and "j < n" "p \<le> n" "{..<p} \<subseteq> R" "p = n \<or> p \<notin> R"
  shows "\<exists>w' p' pending'. process_blob ee bt interval lu (bs ! j) (of_nat (start + j)) w (of_nat (start + p)) pending (take p es) =
      Some (Some (w', of_nat (start + p'), pending', take p' es)) \<and>
    holds_run start n bs (insert j R) w' \<and> p' \<le> n \<and> {..<p'} \<subseteq> insert j R \<and> (p' = n \<or> p' \<notin> insert j R)"
proof -
  obtain w' where w': "store_blob (bs ! j) (of_nat (start + j)) lu w = Some (j \<in> R, w')"
    "holds_run start n bs (insert j R) w'"
    using store_blob_run [OF assms(1-3,7)] assms(4,7) by blast
  show ?thesis
  proof (cases "j \<in> R")
    case True
    then have "process_blob ee bt interval lu (bs ! j) (of_nat (start + j)) w (of_nat (start + p)) pending (take p es) =
        Some (Some (w', of_nat (start + p), pending, take p es))"
      using w'(1) by (simp add: process_blob_def)
    then show ?thesis using w'(2) assms(8-10) True by (metis insert_absorb)
  next
    case False
    obtain p' where p': "p \<le> p'" "p' \<le> n" "{p ..< p'} \<subseteq> insert j R" "p' = n \<or> p' \<notin> insert j R"
      using run_end_exists [OF assms(8)] by blast
    have "take p es @ drop p (take p' es) = take p' es"
      using p'(1) by (metis append_take_drop_id min.absorb1 take_take)
    then have "process_blob ee bt interval lu (bs ! j) (of_nat (start + j)) w (of_nat (start + p)) pending (take p es) =
        Some (Some (w', of_nat (start + p'), True, take p' es))"
      using w'(1) False consume_loop_run [OF w'(2) assms(2-6) p', of "take p es"]
      by (simp add: process_blob_def del: of_nat_add)
    moreover have "{..<p'} \<subseteq> insert j R"
    proof -
      have "{..<p'} = {..<p} \<union> {p ..< p'}" using p'(1) by auto
      then show ?thesis using p'(3) assms(9) by auto
    qed
    ultimately show ?thesis using w'(2) p'(2,4) by blast
  qed
qed

text \<open>The blobs a leader makes of its entries are such a run.\<close>

lemma blobs_carry:
  assumes "entry_codecs ee" "\<forall>e \<in> set es. entry_size ee e \<le> BLOB_DATA_SIZE"
    and "to_blobs_with_id ee k start a es = Some bs"
  shows "length bs = length es \<and> (\<forall>j < length es. carries ee (bs ! j) (start + of_nat j) (es ! j))"
proof -
  have nth: "length bs = length es"
    "entry_to_blob ee (Some (start + of_nat j)) (Some k) (Some a) (es ! j) = Some (bs ! j)" if "j < length es" for j
    using sequence_panics_nth [OF assms(3) [unfolded to_blobs_with_id_def]] that
    by (simp_all add: nth_enumerate_eq)
  have "length bs = length es"
    using sequence_panics_nth [OF assms(3) [unfolded to_blobs_with_id_def]] by simp
  moreover have "carries ee (bs ! j) (start + of_nat j) (es ! j)" if j: "j < length es" for j
  proof -
    have size: "entry_size ee (es ! j) \<le> BLOB_DATA_SIZE" using assms(2) j by simp
    obtain b where b: "entry_to_blob ee (Some (start + of_nat j)) (Some k) (Some a) (es ! j) = Some b"
      "get_index b = Some (start + of_nat j)" "get_flags b = Some 0"
      "get_size b = Some (Inr (of_nat (entry_size ee (es ! j))))"
      "blob_payload b \<bind> subslice 0 (entry_size ee (es ! j)) = Some (enc (ee_entry ee) (es ! j))"
      using entry_codecs.entry_to_blob_payload [OF assms(1) size] by metis
    have "b = bs ! j" using nth(2) [OF j] b(1) by simp
    then show ?thesis
      using b entry_codecs.reconstruct_entry [OF assms(1) b(4) size b(5), of "[]"]
      by (simp add: carries_def is_coding_def BLOB_FLAG_IS_CODING_def del: reconstruct_entries_from_blobs.simps(2))
  qed
  ultimately show ?thesis by blast
qed

lemma default_window_empty: "holds_run start n bs {} default_window"
  by (simp add: holds_run_def default_window_def WINDOW_SIZE_eq WindowSlot_default_def)

end
