(* ===== verification/Window_Service.thy ===== *)
theory Window_Service
  imports Window Ledger_Store
begin

text \<open>
  The threads around the window: receiving blobs into it and asking for missing ones
  (src/window_service.rs), and the parts of src/blockthread.rs that send blobs out of it: broadcast by
  the leader, retransmission by the others, and the answers to protocol messages.

  A batch of blobs received is an argument; what would be handed to another thread or to a socket is
  part of the result.  Receivers of channels are alive.  The clock and the random draws are arguments.
\<close>

section \<open>Receiving\<close>

definition MAX_REPAIR_BACKOFF :: nat where "MAX_REPAIR_BACKOFF = 128"

text \<open>\<open>draw n\<close> is the number drawn below \<open>n\<close>.\<close>

definition repair_backoff :: "(nat \<Rightarrow> nat) \<Rightarrow> u64 \<Rightarrow> nat \<Rightarrow> u64 \<Rightarrow> bool \<times> u64 \<times> nat" where
  "repair_backoff draw last_seen tries consumed =
     (let tries = (if last_seen \<noteq> consumed then 1 else tries) + 1;
          tries = (if MAX_REPAIR_BACKOFF < tries then MAX_REPAIR_BACKOFF div 2 else tries)
      in (draw tries = 0, consumed, tries))"

text \<open>A fresh blob with the bytes of another, up to its size.\<close>

definition copy_blob :: "blob \<Rightarrow> blob panics" where
  "copy_blob b = do {
     let sz = meta_size (blob_meta b);
     src \<leftarrow> subslice 0 (unat sz) (blob_data b);
     d \<leftarrow> overwrite 0 src (blob_data Blob_default);
     Some (Blob_default\<lparr>blob_data := d, blob_meta := (blob_meta Blob_default)\<lparr>meta_size := sz\<rparr>\<rparr>) }"

definition add_block_to_retransmit_queue :: "pubkey codec \<Rightarrow> blob \<Rightarrow> pubkey \<Rightarrow> blob list \<Rightarrow> blob list panics" where
  "add_block_to_retransmit_queue pk b leader_id q = do {
     key \<leftarrow> read_id pk b;
     if key = leader_id then do { nv \<leftarrow> copy_blob b; Some (q @ [nv]) } else Some q }"

primrec queue_blobs :: "pubkey codec \<Rightarrow> pubkey \<Rightarrow> blob list \<Rightarrow> blob list \<Rightarrow> blob list panics" where
  "queue_blobs pk leader_id [] q = Some q"
| "queue_blobs pk leader_id (b # bs) q = do {
     q \<leftarrow> add_block_to_retransmit_queue pk b leader_id q;
     queue_blobs pk leader_id bs q }"

primrec queue_slots :: "pubkey codec \<Rightarrow> pubkey \<Rightarrow> window \<Rightarrow> blob list \<Rightarrow> (blob list \<times> window) panics" where
  "queue_slots pk leader_id [] q = Some (q, [])"
| "queue_slots pk leader_id (s # w) q = do {
     (q, s) \<leftarrow> (case (slot_leader_unknown s, slot_data s) of
         (True, Some b) \<Rightarrow> do {
           q \<leftarrow> add_block_to_retransmit_queue pk b leader_id q;
           Some (q, s\<lparr>slot_leader_unknown := False\<rparr>) }
       | _ \<Rightarrow> Some (q, s));
     (q, w) \<leftarrow> queue_slots pk leader_id w q;
     Some (q, s # w) }"

text \<open>The queue to send, the window and the flag of pending retransmissions.\<close>

definition retransmit_all_leader_blocks ::
    "pubkey codec \<Rightarrow> node_info option \<Rightarrow> blob list \<Rightarrow> window \<Rightarrow> bool \<Rightarrow> (blob list \<times> window \<times> bool) panics" where
  "retransmit_all_leader_blocks pk maybe_leader dq w pending =
     (case maybe_leader of
        None \<Rightarrow> Some ([], w, pending)
      | Some leader \<Rightarrow> do {
          q \<leftarrow> queue_blobs pk (ni_id leader) dq [];
          if pending then do {
            (q, w) \<leftarrow> queue_slots pk (ni_id leader) w q;
            Some (q, w, if w = [] then pending else False) }
          else Some (q, w, pending) })"

record recv_state =
  rs_window :: window
  rs_consumed :: u64
  rs_received :: u64
  rs_pending :: bool
  rs_queue :: "entry list"
  rs_done :: bool

primrec recv_blobs ::
    "entry_ext \<Rightarrow> blockthread \<Rightarrow> u64 \<Rightarrow> u64 \<Rightarrow> bool \<Rightarrow> blob list \<Rightarrow> recv_state \<Rightarrow> recv_state panics option" where
  "recv_blobs ee bt interval max_ix leader_unknown [] st = Some (Some st)"
| "recv_blobs ee bt interval max_ix leader_unknown (b # bs) st =
     (case get_index b of
        None \<Rightarrow> Some None
      | Some pix \<Rightarrow>
          let (ok, received) = blob_idx_in_window pix (rs_consumed st) (rs_received st);
              st = st\<lparr>rs_received := received\<rparr>
          in if \<not> ok \<or> max_ix \<noteq> 0 \<and> max_ix < pix then recv_blobs ee bt interval max_ix leader_unknown bs st
             else Option.bind (process_blob ee bt interval leader_unknown b pix (rs_window st) (rs_consumed st)
                 (rs_pending st) (rs_queue st))
               (\<lambda>r. case r of
                  None \<Rightarrow> Some None
                | Some (w, consumed, pending, q) \<Rightarrow>
                    recv_blobs ee bt interval max_ix leader_unknown bs
                      (st\<lparr>rs_window := w, rs_consumed := consumed, rs_pending := pending, rs_queue := q,
                          rs_done := rs_done st \<or> max_ix \<noteq> 0 \<and> consumed = max_ix + 1\<rparr>)))"

text \<open>One batch: what is retransmitted, the state, and the entries passed on.\<close>

definition recv_window ::
    "entry_ext \<Rightarrow> blockthread \<Rightarrow> u64 \<Rightarrow> u64 \<Rightarrow> blob list \<Rightarrow> recv_state \<Rightarrow>
     (blob list \<times> entry list \<times> recv_state) panics option" where
  "recv_window ee bt interval max_ix dq st =
     (case do {
        maybe_leader \<leftarrow> leader_data bt;
        (q, w, pending) \<leftarrow> retransmit_all_leader_blocks (ee_pubkey ee) maybe_leader dq (rs_window st) (rs_pending st);
        Some (maybe_leader, q, w, pending) } of
        None \<Rightarrow> Some None
      | Some (maybe_leader, q, w, pending) \<Rightarrow>
          map_option (map_option (\<lambda>st. (q, rs_queue st, st\<lparr>rs_queue := []\<rparr>)))
            (recv_blobs ee bt interval max_ix (maybe_leader = None) dq
              (st\<lparr>rs_window := w, rs_pending := pending, rs_queue := []\<rparr>)))"

section \<open>The window thread\<close>

datatype recv_event = Batch "blob list" | Timeout | Disconnected

datatype window_service_return = LeaderRotation u64

datatype service_outcome = Return "window_service_return option" | Loop

record service_state =
  ss_recv :: recv_state
  ss_last :: u64
  ss_times :: nat

record service_output =
  so_retransmit :: "blob list"
  so_entries :: "entry list"
  so_requests :: "(socket_addr \<times> bytes) list"

text \<open>The rotation check at the head of the loop uses the node's own id.\<close>

definition my_turn :: "blockthread \<Rightarrow> u64 \<Rightarrow> u64 \<Rightarrow> bool panics" where
  "my_turn bt interval consumed =
     (if consumed = 0 then Some False
      else if interval = 0 then None
      else if consumed mod interval \<noteq> 0 then Some False
      else map_option (\<lambda>leader. leader = Some (bt_id bt)) (get_scheduled_leader consumed bt))"

definition window_service_repair ::
    "protocol codec \<Rightarrow> blockthread \<Rightarrow> pubkey list \<Rightarrow> (nat \<Rightarrow> nat) \<Rightarrow> (u64 \<Rightarrow> nat) \<Rightarrow> u64 \<Rightarrow> service_state \<Rightarrow>
     ((socket_addr \<times> bytes) list \<times> service_state) panics" where
  "window_service_repair pc bt ks draw rnd max_entry_height ss =
     (let st = ss_recv ss in
      if rs_received st \<le> rs_consumed st then Some ([], ss)
      else let (go, last_seen, tries) = repair_backoff draw (ss_last ss) (ss_times ss) (rs_consumed st);
               ss = ss\<lparr>ss_last := last_seen, ss_times := tries\<rparr>
           in if \<not> go then Some ([], ss)
              else do {
                (reqs, w) \<leftarrow> repair pc ks rnd bt (bt_id bt) tries (rs_consumed st) (rs_received st)
                  max_entry_height (rs_window st);
                Some (reqs, ss\<lparr>ss_recv := st\<lparr>rs_window := w\<rparr>\<rparr>) })"

definition window_service_step ::
    "entry_ext \<Rightarrow> protocol codec \<Rightarrow> blockthread \<Rightarrow> u64 \<Rightarrow> u64 \<Rightarrow> pubkey list \<Rightarrow> (nat \<Rightarrow> nat) \<Rightarrow> (u64 \<Rightarrow> nat) \<Rightarrow>
     recv_event \<Rightarrow> service_state \<Rightarrow> (service_outcome \<times> service_output \<times> service_state) panics option" where
  "window_service_step ee pc bt interval max_entry_height ks draw rnd ev ss =
     (case my_turn bt interval (rs_consumed (ss_recv ss)) of
        None \<Rightarrow> Some None
      | Some True \<Rightarrow> Some (Some (Return (Some (LeaderRotation (rs_consumed (ss_recv ss)))),
          \<lparr>so_retransmit = [], so_entries = [], so_requests = []\<rparr>, ss))
      | Some False \<Rightarrow>
          (case ev of
             Disconnected \<Rightarrow> Some (Some (Return None, \<lparr>so_retransmit = [], so_entries = [], so_requests = []\<rparr>, ss))
           | Timeout \<Rightarrow> Some (map_option (\<lambda>(reqs, ss).
               (Loop, \<lparr>so_retransmit = [], so_entries = [], so_requests = reqs\<rparr>, ss))
               (window_service_repair pc bt ks draw rnd max_entry_height ss))
           | Batch dq \<Rightarrow> Option.bind (recv_window ee bt interval max_entry_height dq (ss_recv ss))
               (\<lambda>r. Some (Option.bind r (\<lambda>(q, es, st).
                  map_option (\<lambda>(reqs, ss). (Loop, \<lparr>so_retransmit = q, so_entries = es, so_requests = reqs\<rparr>, ss))
                    (window_service_repair pc bt ks draw rnd max_entry_height (ss\<lparr>ss_recv := st\<rparr>)))))))"

section \<open>Sending\<close>

record window_index =
  wi_data :: u64
  wi_coding :: u64

text \<open>The extra copy for the next leader of the last blob before a rotation.\<close>

definition rotation_order ::
    "blockthread \<Rightarrow> u64 \<Rightarrow> node_info \<Rightarrow> node_info list \<Rightarrow> blob option \<Rightarrow> u64 \<Rightarrow> (blob option \<times> node_info) list panics" where
  "rotation_order bt interval me table d idx =
     (let entry_height = idx + 1 in
      if interval = 0 then None
      else if entry_height mod interval \<noteq> 0 then Some []
      else do {
        next_leader_id \<leftarrow> get_scheduled_leader entry_height bt;
        Some (case next_leader_id of
            None \<Rightarrow> []
          | Some l \<Rightarrow> if l = ni_id me then []
              else (case filter (\<lambda>n. ni_id n = l) table of [] \<Rightarrow> [] | n # _ \<Rightarrow> [(d, n)])) })"

fun data_orders ::
    "blockthread \<Rightarrow> u64 \<Rightarrow> node_info \<Rightarrow> node_info list \<Rightarrow> window \<Rightarrow> nat list \<Rightarrow> nat \<Rightarrow>
     ((blob option \<times> node_info) list \<times> nat) panics" where
  "data_orders bt interval me table w [] br = Some ([], br)"
| "data_orders bt interval me table w (idx # idxs) br = do {
     s \<leftarrow> (if w = [] then None else get_at w (idx mod length w));
     extra \<leftarrow> rotation_order bt interval me table (slot_data s) (of_nat idx);
     v \<leftarrow> get_at table br;
     (rest, br) \<leftarrow> data_orders bt interval me table w idxs ((br + 1) mod length table);
     Some (extra @ (slot_data s, v) # rest, br) }"

fun coding_orders ::
    "node_info list \<Rightarrow> window \<Rightarrow> nat list \<Rightarrow> nat \<Rightarrow> (blob option \<times> node_info) list panics" where
  "coding_orders table w [] br = Some []"
| "coding_orders table w (idx # idxs) br = do {
     s \<leftarrow> (if w = [] then None else get_at w (idx mod length w));
     if slot_coding s = None then coding_orders table w idxs br
     else do {
       v \<leftarrow> get_at table br;
       rest \<leftarrow> coding_orders table w idxs ((br + 1) mod length table);
       Some ((slot_coding s, v) # rest) } }"

text \<open>The datagram of an order; \<open>unwrap\<close> of an empty slot panics, and so do the assertions.\<close>

definition order_datagram :: "node_info \<Rightarrow> blob option \<times> node_info \<Rightarrow> (bytes \<times> socket_addr) panics" where
  "order_datagram me = (\<lambda>(b, v).
     if ni_leader_id me = ni_id v then None
     else do {
       b \<leftarrow> b;
       if BLOB_SIZE < unat (meta_size (blob_meta b)) then None
       else do {
         bytes \<leftarrow> subslice 0 (unat (meta_size (blob_meta b))) (blob_data b);
         Some (bytes, ci_tx_signer (ni_contact_info v)) } })"

text \<open>The results of the sends, in order: the index moves on with each success and stops at an error.\<close>

fun count_sent :: "bool list \<Rightarrow> u64 \<Rightarrow> u64 \<Rightarrow> bool \<times> u64" where
  "count_sent [] received_index ix = (True, ix)"
| "count_sent (ok # oks) received_index ix =
     (if \<not> ok then (False, ix)
      else count_sent oks received_index (if ix < received_index then ix + 1 else ix))"

datatype broadcast_error = PeersErr blockthread_error | IOErr

definition broadcast ::
    "(bytes \<times> socket_addr \<Rightarrow> bool) \<Rightarrow> blockthread \<Rightarrow> u64 \<Rightarrow> node_info \<Rightarrow> node_info list \<Rightarrow> window \<Rightarrow> window_index \<Rightarrow> u64 \<Rightarrow>
     ((broadcast_error + unit) \<times> (bytes \<times> socket_addr) list \<times> window_index) panics" where
  "broadcast sent bt interval me table w ti received_index =
     (if table = [] then Some (Inl (PeersErr NoPeers), [], ti)
      else if received_index < wi_data ti then None
      else do {
        (orders, br) \<leftarrow> data_orders bt interval me table w [unat (wi_data ti) ..< unat received_index]
          (unat (wi_data ti) mod length table);
        coding \<leftarrow> coding_orders table w [unat (wi_coding ti) ..< unat received_index] br;
        datagrams \<leftarrow> sequence_panics (map (order_datagram me) (orders @ coding));
        let (ok, ix) = count_sent (map sent datagrams) received_index (wi_data ti);
        Some (if ok then (Inr (), datagrams, \<lparr>wi_data = ix, wi_coding = ix\<rparr>)
              else (Inl IOErr, datagrams, ti\<lparr>wi_data := ix\<rparr>)) })"

text \<open>\<open>ks\<close> walks the table.\<close>

definition retransmit ::
    "pubkey codec \<Rightarrow> (bytes \<times> socket_addr \<Rightarrow> bool) \<Rightarrow> pubkey list \<Rightarrow> blockthread \<Rightarrow> blob \<Rightarrow>
     ((broadcast_error + unit) \<times> (bytes \<times> socket_addr) list \<times> blob) panics" where
  "retransmit pk sent ks bt b = do {
     me \<leftarrow> my_data bt;
     b \<leftarrow> set_id pk (ni_id me) b;
     let orders = filter (\<lambda>v. ni_id me \<noteq> ni_id v \<and> ni_leader_id me \<noteq> ni_id v \<and>
         is_valid_address (ci_tx_signer (ni_contact_info v))) (map_values ks (bt_table bt));
     datagrams \<leftarrow> sequence_panics (map (\<lambda>v.
         if BLOB_SIZE < unat (meta_size (blob_meta b)) then None
         else do {
           bytes \<leftarrow> subslice 0 (unat (meta_size (blob_meta b))) (blob_data b);
           Some (bytes, ci_tx_signer (ni_contact_info v)) }) orders);
     Some (if list_all sent datagrams then Inr () else Inl IOErr, datagrams, b) }"

section \<open>Answering\<close>

definition is_power_of_two :: "u64 \<Rightarrow> bool" where
  "is_power_of_two n \<longleftrightarrow> n \<noteq> 0 \<and> n AND (n - 1) = 0"

definition from_window ::
    "pubkey codec \<Rightarrow> node_info \<Rightarrow> socket_addr \<Rightarrow> node_info \<Rightarrow> u64 \<Rightarrow> blob \<Rightarrow> (blob \<times> blob) panics" where
  "from_window pk from from_addr me ix b = do {
     let n = num_retransmits (blob_meta b);
     let b' = b\<lparr>blob_meta := (blob_meta b)\<lparr>num_retransmits := n + 1\<rparr>\<rparr>;
     let sender_id = (if ni_leader_id me = ni_id me \<and> (n = 0 \<or> is_power_of_two n) then ni_id me else ni_id from);
     out \<leftarrow> copy_blob b;
     out \<leftarrow> set_id pk sender_id (out\<lparr>blob_meta := Meta_set_addr from_addr (blob_meta out)\<rparr>);
     Some (out, b') }"

definition from_ledger ::
    "entry_ext \<Rightarrow> ledger_ext \<Rightarrow> socket_addr \<Rightarrow> ledger_window option \<Rightarrow> node_info \<Rightarrow> u64 \<Rightarrow> blob option panics" where
  "from_ledger ee lx from_addr ledger_window me ix =
     (case ledger_window of
        None \<Rightarrow> Some None
      | Some win \<Rightarrow>
          (case LedgerWindow_get_entry lx win ix of
             Inl _ \<Rightarrow> Some None
           | Inr e \<Rightarrow> map_option Some (entry_to_blob ee (Some ix) (Some (ni_id me)) (Some from_addr) e)))"

definition run_window_request ::
    "entry_ext \<Rightarrow> ledger_ext \<Rightarrow> node_info \<Rightarrow> socket_addr \<Rightarrow> ledger_window option \<Rightarrow> node_info \<Rightarrow> u64 \<Rightarrow> window \<Rightarrow>
     (blob option \<times> window) panics" where
  "run_window_request ee lx from from_addr ledger_window me ix w =
     (if w = [] then None
      else do {
        let pos = unat ix mod length w;
        s \<leftarrow> get_at w pos;
        (case slot_data s of
           None \<Rightarrow> map_option (\<lambda>r. (r, w)) (from_ledger ee lx from_addr ledger_window me ix)
         | Some b \<Rightarrow> do {
             blob_ix \<leftarrow> get_index b;
             if blob_ix = ix then do {
               (out, b) \<leftarrow> from_window (ee_pubkey ee) from from_addr me ix b;
               Some (Some out, w[pos := s\<lparr>slot_data := Some b\<rparr>]) }
             else map_option (\<lambda>r. (r, w)) (from_ledger ee lx from_addr ledger_window me ix) }) })"

text \<open>\<open>ks\<close> walks the table and \<open>rs\<close> the map of remote update indices.\<close>

definition handle_protocol ::
    "entry_ext \<Rightarrow> ledger_ext \<Rightarrow> protocol codec \<Rightarrow> pubkey list \<Rightarrow> pubkey list \<Rightarrow> u64 \<Rightarrow> socket_addr \<Rightarrow>
     ledger_window option \<Rightarrow> protocol \<Rightarrow> blockthread \<times> window \<Rightarrow> (blob option \<times> blockthread \<times> window) panics" where
  "handle_protocol ee lx pc ks rs now from_addr ledger_window request st =
     (let (bt, w) = st in
      case request of
        RequestUpdates version from \<Rightarrow>
          if ni_id from = bt_id bt then Some (None, bt, w)
          else do {
            let from = (if ip_unspecified (ci_ncp (ni_contact_info from))
              then from\<lparr>ni_contact_info := (ni_contact_info from)\<lparr>ci_ncp := from_addr\<rparr>\<rparr> else from);
            (from_id, ups, data) \<leftarrow> get_updates_since ks version bt;
            let liveness = List.map_filter (\<lambda>k. map_option (Pair k) (bt_remote bt k)) rs;
            let bt = update_liveness now (ni_id from) (snd (insert_node now from bt));
            if data = [] then Some (None, bt, w)
            else do {
              r \<leftarrow> to_blob pc (ReceiveUpdates from_id ups data liveness) (ci_ncp (ni_contact_info from));
              Some (Some r, bt, w) } }
      | ReceiveUpdates from update_index data external_liveness \<Rightarrow>
          Some (None, apply_updates now from update_index data external_liveness bt, w)
      | RequestWindowIndex from ix \<Rightarrow>
          if ni_id from = bt_id bt then Some (None, bt, w)
          else do {
            let bt = snd (insert_node now from bt);
            me \<leftarrow> my_data bt;
            (res, w) \<leftarrow> run_window_request ee lx from from_addr ledger_window me ix w;
            Some (res, bt, w) })"

definition handle_blob ::
    "entry_ext \<Rightarrow> ledger_ext \<Rightarrow> protocol codec \<Rightarrow> pubkey list \<Rightarrow> pubkey list \<Rightarrow> u64 \<Rightarrow>
     ledger_window option \<Rightarrow> blob \<Rightarrow> blockthread \<times> window \<Rightarrow> (blob option \<times> blockthread \<times> window) panics" where
  "handle_blob ee lx pc ks rs now ledger_window b st = do {
     bytes \<leftarrow> subslice 0 (unat (meta_size (blob_meta b))) (blob_data b);
     (case dec pc bytes of
        Some request \<Rightarrow> handle_protocol ee lx pc ks rs now (Meta_addr (blob_meta b)) ledger_window request st
      | None \<Rightarrow> Some (None, st)) }"

text \<open>One batch of requests; each is handled with its own walks and clock.\<close>

fun run_listen ::
    "entry_ext \<Rightarrow> ledger_ext \<Rightarrow> protocol codec \<Rightarrow> ledger_window option \<Rightarrow>
     (pubkey list \<times> pubkey list \<times> u64 \<times> blob) list \<Rightarrow> blockthread \<times> window \<Rightarrow> (blob list \<times> blockthread \<times> window) panics" where
  "run_listen ee lx pc ledger_window [] (bt, w) = Some ([], bt, w)"
| "run_listen ee lx pc ledger_window ((ks, rs, now, b) # reqs) (bt, w) = do {
     (resp, bt, w) \<leftarrow> handle_blob ee lx pc ks rs now ledger_window b (bt, w);
     (resps, bt, w) \<leftarrow> run_listen ee lx pc ledger_window reqs (bt, w);
     Some ((case resp of Some r \<Rightarrow> [r] | None \<Rightarrow> []) @ resps, bt, w) }"

text \<open>What the gossip thread sends.\<close>

definition run_gossip :: "protocol codec \<Rightarrow> pubkey list \<Rightarrow> (node_info list \<Rightarrow> node_info) \<Rightarrow> blockthread \<Rightarrow>
    (blockthread_error + blob) panics" where
  "run_gossip pc ks pick bt = do {
     r \<leftarrow> gossip_request ks pick bt;
     (case r of
        Inl e \<Rightarrow> Some (Inl e)
      | Inr (addr, req) \<Rightarrow> map_option Inr (to_blob pc req addr)) }"

section \<open>What the window promises\<close>

lemma unat_run: "start + 2048 < 2 ^ 64 \<Longrightarrow> j \<le> 2048 \<Longrightarrow> unat (of_nat (start + j) :: u64) = start + j"
  by (rule unat_of_nat_small) simp

lemma recv_blobs_run:
  assumes "n \<le> 2048" "start + 2 * 2048 < 2 ^ 64"
    and "\<forall>j < n. carries ee (bs ! j) (of_nat (start + j)) (es ! j)" "length es = n"
    and "\<forall>j \<le> n. at_my_rotation bt interval (of_nat (start + j)) = Some False"
    and "set arrivals \<subseteq> {..<n}" "holds_run start n bs R (rs_window st)"
    and "rs_consumed st = of_nat (start + p)" "rs_queue st = take p es"
    and "p \<le> n" "{..<p} \<subseteq> R" "p = n \<or> p \<notin> R"
  shows "\<exists>st' p'. recv_blobs ee bt interval 0 lu (map ((!) bs) arrivals) st = Some (Some st') \<and>
    rs_consumed st' = of_nat (start + p') \<and> rs_queue st' = take p' es \<and>
    p' \<le> n \<and> {..<p'} \<subseteq> R \<union> set arrivals \<and> (p' = n \<or> p' \<notin> R \<union> set arrivals)"
  using assms(6-12)
proof (induction arrivals arbitrary: R p st)
  case (Cons j arrivals)
  then have j: "j < n" by simp
  have start: "start + 2048 < 2 ^ 64" using assms(2) by simp
  let ?pix = "of_nat (start + j) :: u64" and ?c = "of_nat (start + p) :: u64"
  have idx: "get_index (bs ! j) = Some ?pix" using assms(3) j by (simp add: carries_def)
  have cmp: "?pix < ?c \<longleftrightarrow> j < p" "\<not> ?c + of_nat WINDOW_SIZE \<le> ?pix"
  proof -
    have u: "unat ?pix = start + j" "unat ?c = start + p"
      using unat_run [OF start] assms(1) j Cons.prems(5) by simp_all
    have "?c + of_nat WINDOW_SIZE = of_nat (start + p + 2048)" by (simp add: WINDOW_SIZE_eq)
    moreover have "unat (of_nat (start + p + 2048) :: u64) = start + p + 2048"
      using assms(1,2) Cons.prems(5) by (intro unat_of_nat_small) simp
    ultimately show "?pix < ?c \<longleftrightarrow> j < p" "\<not> ?c + of_nat WINDOW_SIZE \<le> ?pix"
      using u assms(1) j by (simp_all add: word_less_nat_alt word_le_nat_alt del: of_nat_add)
  qed
  show ?case
  proof (cases "j < p")
    case True
    then have "R \<union> set (j # arrivals) = R \<union> set arrivals" using Cons.prems(6) by auto
    moreover have "recv_blobs ee bt interval 0 lu (map ((!) bs) (j # arrivals)) st =
        recv_blobs ee bt interval 0 lu (map ((!) bs) arrivals) (st\<lparr>rs_received := rs_received st\<rparr>)"
      using idx cmp(1) True Cons.prems(3) by (simp add: blob_idx_in_window_def del: of_nat_add)
    ultimately show ?thesis
      using Cons.IH [of R "st\<lparr>rs_received := rs_received st\<rparr>" p] Cons.prems by simp
  next
    case False
    let ?st = "st\<lparr>rs_received := max ?pix (rs_received st)\<rparr>"
    obtain w' p' pending' where step: "process_blob ee bt interval lu (bs ! j) ?pix (rs_window st) ?c (rs_pending st) (take p es) =
        Some (Some (w', of_nat (start + p'), pending', take p' es))"
      "holds_run start n bs (insert j R) w'" "p' \<le> n" "{..<p'} \<subseteq> insert j R" "p' = n \<or> p' \<notin> insert j R"
      using process_blob_run [OF Cons.prems(2) assms(1) start assms(3-5) j Cons.prems(5-7), of lu "rs_pending st"] by blast
    let ?st' = "?st\<lparr>rs_window := w', rs_consumed := of_nat (start + p'), rs_pending := pending',
        rs_queue := take p' es, rs_done := rs_done st\<rparr>"
    have "recv_blobs ee bt interval 0 lu (map ((!) bs) (j # arrivals)) st =
        recv_blobs ee bt interval 0 lu (map ((!) bs) arrivals) ?st'"
      using idx cmp False Cons.prems(3,4) step(1) by (simp add: blob_idx_in_window_def del: of_nat_add)
    moreover have "insert j R \<union> set arrivals = R \<union> set (j # arrivals)" by auto
    ultimately show ?thesis
      using Cons.IH [of "insert j R" ?st' p'] Cons.prems(1) step(2-5) by simp
  qed
qed auto

definition sample_node :: blockthread where
  "sample_node = \<lparr>bt_table = [Pubkey 3 \<mapsto> new_localhost (Pubkey 3)], bt_local = [Pubkey 3 \<mapsto> 1],
     bt_remote = Map.empty, bt_alive = Map.empty, bt_update_index = 1, bt_id = Pubkey 3,
     bt_external_liveness = Map.empty, bt_scheduled_leaders = Map.empty, bt_leader_rotation_interval = 100\<rparr>"

text \<open>C33: the window puts a leader's entries back in order: when the blobs of up to \<open>WINDOW_SIZE\<close> entries
  arrive in any order and any number of times, receiving them ends, and what is passed on is exactly
  the entries, in order, each once, as soon as each blob has arrived at least once; before that it is
  the entries up to the first missing blob.  The node is not itself scheduled as leader meanwhile.\<close>

theorem window_delivers_in_order:
  assumes "entry_codecs ee" "\<forall>e \<in> set es. entry_size ee e \<le> BLOB_DATA_SIZE"
    and "to_blobs_with_id ee k (of_nat start) a es = Some bs"
    and "length es \<le> WINDOW_SIZE" "start + 2 * WINDOW_SIZE < 2 ^ 64"
    and "\<forall>j \<le> length es. at_my_rotation bt interval (of_nat (start + j)) = Some False"
    and "set arrivals \<subseteq> {..<length es}"
    and "st = \<lparr>rs_window = default_window, rs_consumed = of_nat start, rs_received = of_nat start,
      rs_pending = False, rs_queue = [], rs_done = False\<rparr>"
  shows "\<exists>st' p. recv_blobs ee bt interval 0 lu (map ((!) bs) arrivals) st = Some (Some st') \<and>
    rs_queue st' = take p es \<and> rs_consumed st' = of_nat (start + p) \<and> p \<le> length es \<and>
    {..<p} \<subseteq> set arrivals \<and> (p = length es \<or> p \<notin> set arrivals)"
proof -
  have "\<forall>j < length es. carries ee (bs ! j) (of_nat (start + j)) (es ! j)"
    using blobs_carry [OF assms(1-3)] by simp
  note run = recv_blobs_run [where st = st and R = "{}" and p = 0 and lu = lu, OF _ _ this refl assms(6,7)]
  have "\<exists>st' p'. recv_blobs ee bt interval 0 lu (map ((!) bs) arrivals) st = Some (Some st') \<and>
    rs_consumed st' = of_nat (start + p') \<and> rs_queue st' = take p' es \<and>
    p' \<le> length es \<and> {..<p'} \<subseteq> {} \<union> set arrivals \<and> (p' = length es \<or> p' \<notin> {} \<union> set arrivals)"
    by (rule run) (use assms(4,5,8) default_window_empty in \<open>simp_all add: WINDOW_SIZE_eq\<close>)
  then show ?thesis by auto
qed

theorem window_delivers_witness:
  "\<exists>bs st'. to_blobs_with_id (bincode_entry_ext (\<lambda>bs. Hash (le_word bs))) (Pubkey 1) 5 (SockV4 127 0 0 1 80)
      [new_tick 3 (Hash 4), new_tick 1 (Hash 5)] = Some bs \<and>
    recv_blobs (bincode_entry_ext (\<lambda>bs. Hash (le_word bs))) sample_node 100 0 True [bs ! 1, bs ! 0, bs ! 1]
      \<lparr>rs_window = default_window, rs_consumed = 5, rs_received = 5, rs_pending = False, rs_queue = [], rs_done = False\<rparr> =
      Some (Some st') \<and> rs_queue st' = [new_tick 3 (Hash 4), new_tick 1 (Hash 5)]"
proof -
  let ?ee = "bincode_entry_ext (\<lambda>bs. Hash (le_word bs))" and ?es = "[new_tick 3 (Hash 4), new_tick 1 (Hash 5)]"
  have size: "\<forall>e \<in> set ?es. entry_size ?ee e \<le> BLOB_DATA_SIZE"
    by (simp add: new_tick_def entry_wire_size BLOB_DATA_SIZE_eq)
  obtain bs where bs: "to_blobs_with_id ?ee (Pubkey 1) (of_nat 5) (SockV4 127 0 0 1 80) ?es = Some bs"
    using entry_codecs.blobs_round_trip [OF bincode_entry_codecs size, of 5 "Pubkey 1" "SockV4 127 0 0 1 80" 0]
    by (auto simp: to_blobs_with_id_def)
  have rot: "\<forall>j \<le> length ?es. at_my_rotation sample_node 100 (of_nat (5 + j)) = Some False"
  proof (intro allI impI)
    fix j
    assume "j \<le> length ?es"
    then consider "j = 0" | "j = 1" | "j = 2" by (auto simp: le_Suc_eq numeral_2_eq_2)
    then show "at_my_rotation sample_node 100 (of_nat (5 + j)) = Some False"
      by cases (simp_all add: at_my_rotation_def)
  qed
  let ?st = "\<lparr>rs_window = default_window, rs_consumed = of_nat 5, rs_received = of_nat 5, rs_pending = False,
    rs_queue = [], rs_done = False\<rparr>"
  have "\<exists>st' p. recv_blobs ?ee sample_node 100 0 True (map ((!) bs) [1, 0, 1]) ?st = Some (Some st') \<and>
    rs_queue st' = take p ?es \<and> rs_consumed st' = of_nat (5 + p) \<and> p \<le> length ?es \<and>
    {..<p} \<subseteq> set [1, 0, 1] \<and> (p = length ?es \<or> p \<notin> set [1, 0, 1])"
    by (rule window_delivers_in_order [OF bincode_entry_codecs size bs _ _ rot]) (simp_all add: WINDOW_SIZE_eq)
  then obtain st' p where run: "recv_blobs ?ee sample_node 100 0 True (map ((!) bs) [1, 0, 1]) ?st = Some (Some st')"
    "rs_queue st' = take p ?es" "p \<le> length ?es" "p = length ?es \<or> p \<notin> set [1, 0, 1]" by blast
  have "p = 2" using run(3,4) by auto
  then have "rs_queue st' = ?es" using run(2) by simp
  moreover have "map ((!) bs) [1, 0, 1] = [bs ! 1, bs ! 0, bs ! 1]" by simp
  ultimately show ?thesis
    using run(1) bs by (intro exI [of _ bs] exI [of _ st']) (simp only: of_nat_numeral)
qed

section \<open>Asking for what is missing\<close>

definition missing :: "window \<Rightarrow> u64 \<Rightarrow> bool" where
  "missing w pix \<longleftrightarrow> blob_index (w ! slot_of pix) \<noteq> Some (Some pix)"

definition window_wf :: "window \<Rightarrow> bool" where
  "window_wf w \<longleftrightarrow> length w = WINDOW_SIZE \<and> (\<forall>s \<in> set w. blob_index s \<noteq> None)"

lemma slot_of_less: "slot_of pix < WINDOW_SIZE"
  by (simp add: slot_of_def WINDOW_SIZE_eq)

lemma clear_range_spec:
  assumes "window_wf w" "distinct (map slot_of pixs)"
  shows "\<exists>w'. clear_range pixs w = Some (filter (missing w) pixs, w') \<and> length w' = WINDOW_SIZE \<and>
    (\<forall>i < WINDOW_SIZE. w' ! i =
      (if \<exists>pix \<in> set pixs. slot_of pix = i \<and> missing w pix then clear_data (w ! i) else w ! i))"
  using assms
proof (induction pixs arbitrary: w)
  case (Cons pix pixs)
  let ?i = "slot_of pix"
  have len: "?i < length w" "length w = WINDOW_SIZE" using Cons.prems(1) slot_of_less by (simp_all add: window_wf_def)
  obtain ix where ix: "blob_index (w ! ?i) = Some ix"
    using Cons.prems(1) len by (metis nth_mem not_None_eq window_wf_def)
  define v where "v = (if missing w pix then w[?i := clear_data (w ! ?i)] else w)"
  have other: "v ! slot_of p = w ! slot_of p" if "p \<in> set pixs" for p
  proof -
    have "slot_of pix \<noteq> slot_of p" using that Cons.prems(2) by auto
    then show ?thesis by (simp add: v_def)
  qed
  have "blob_index (clear_data s) = Some None" for s by (simp add: blob_index_def clear_data_def)
  then have "window_wf v"
    using Cons.prems(1) set_update_subset_insert [of w ?i "clear_data (w ! ?i)"] by (auto simp: v_def window_wf_def)
  then obtain w' where w': "clear_range pixs v = Some (filter (missing v) pixs, w')" "length w' = WINDOW_SIZE"
    "\<forall>i < WINDOW_SIZE. w' ! i =
      (if \<exists>pix \<in> set pixs. slot_of pix = i \<and> missing v pix then clear_data (v ! i) else v ! i)"
    using Cons.IH [of v] Cons.prems(2) by auto
  have miss: "missing v p \<longleftrightarrow> missing w p" if "p \<in> set pixs" for p
    using other [OF that] by (simp add: missing_def)
  then have "filter (missing v) pixs = filter (missing w) pixs" by (auto intro: filter_cong)
  then have run: "clear_range (pix # pixs) w = Some (filter (missing w) (pix # pixs), w')"
    using w'(1) ix by (cases "missing w pix") (simp_all add: get_at_Some [OF len(1)] v_def missing_def)
  have "w' ! i =
      (if \<exists>p \<in> set (pix # pixs). slot_of p = i \<and> missing w p then clear_data (w ! i) else w ! i)"
    if i: "i < WINDOW_SIZE" for i
  proof -
    have "(\<exists>p \<in> set pixs. slot_of p = i \<and> missing v p) \<longleftrightarrow> (\<exists>p \<in> set pixs. slot_of p = i \<and> missing w p)"
      using miss by blast
    then have eq: "w' ! i = (if \<exists>p \<in> set pixs. slot_of p = i \<and> missing w p then clear_data (v ! i) else v ! i)"
      using w'(3) i by simp
    show ?thesis
    proof (cases "i = ?i")
      case True
      have "slot_of pix \<notin> slot_of ` set pixs" using Cons.prems(2) by simp
      then have none: "\<not> (\<exists>p \<in> set pixs. slot_of p = i \<and> missing w p)" unfolding True by (metis image_eqI)
      then have "(\<exists>p \<in> set (pix # pixs). slot_of p = i \<and> missing w p) \<longleftrightarrow> missing w pix"
        using True by (metis list.set_intros(1) set_ConsD)
      moreover have "w' ! i = v ! i" using eq none by (simp only: if_False)
      moreover have "v ! i = (if missing w pix then clear_data (w ! i) else w ! i)" using True len by (simp add: v_def)
      ultimately show ?thesis by (simp only: if_cancel)
    next
      case False
      then have "v ! i = w ! i" by (simp add: v_def)
      moreover have "(\<exists>p \<in> set (pix # pixs). slot_of p = i \<and> missing w p) \<longleftrightarrow>
          (\<exists>p \<in> set pixs. slot_of p = i \<and> missing w p)" using False by auto
      ultimately show ?thesis using eq by (simp only: )
    qed
  qed
  then show ?case using run w'(2) by blast
qed (simp add: window_wf_def)

lemma max_repair_bounds:
  assumes "unat consumed + 2048 < 2 ^ 64"
  shows "consumed \<le> calculate_max_repair num_peers consumed received tries next_leader"
    "unat (calculate_max_repair num_peers consumed received tries next_leader) \<le> unat consumed + 2047"
proof -
  let ?m = "calculate_max_repair num_peers consumed received tries next_leader"
  have "unat (consumed + of_nat WINDOW_SIZE - 1) = unat consumed + 2047"
  proof -
    have "consumed + of_nat WINDOW_SIZE - 1 = of_nat (unat consumed + 2047)" by (simp add: WINDOW_SIZE_eq)
    then show ?thesis using assms by (simp add: unat_of_nat_small del: of_nat_add of_nat_unat)
  qed
  moreover from this have "consumed \<le> consumed + of_nat WINDOW_SIZE - 1" by (simp add: word_le_nat_alt)
  moreover have "?m \<le> consumed + of_nat WINDOW_SIZE - 1" by (simp add: calculate_max_repair_def Let_def)
  ultimately show "unat ?m \<le> unat consumed + 2047" "consumed \<le> ?m"
    by (metis word_le_nat_alt) (simp add: calculate_max_repair_def Let_def \<open>consumed \<le> consumed + of_nat WINDOW_SIZE - 1\<close>)
qed



section \<open>Answering from the ledger\<close>

lemma entry_blob_carries:
  assumes "entry_codecs ee" "entry_size ee e \<le> BLOB_DATA_SIZE"
  shows "\<exists>b. entry_to_blob ee (Some ix) (Some k) (Some a) e = Some b \<and> carries ee b ix e"
proof -
  obtain b where b: "entry_to_blob ee (Some ix) (Some k) (Some a) e = Some b" "get_index b = Some ix"
    "get_flags b = Some 0" "get_size b = Some (Inr (of_nat (entry_size ee e)))"
    "blob_payload b \<bind> subslice 0 (entry_size ee e) = Some (enc (ee_entry ee) e)"
    using entry_codecs.entry_to_blob_payload [OF assms] by metis
  then show ?thesis
    using entry_codecs.reconstruct_entry [OF assms(1) b(4) assms(2) b(5), of "[]"]
    by (simp add: carries_def is_coding_def BLOB_FLAG_IS_CODING_def del: reconstruct_entries_from_blobs.simps(2))
qed

text \<open>C36: a request for a blob that has left the window is answered from the ledger: the answer is a blob with
  the requested index that carries exactly the entry written at that position, and the window is left
  as it was.\<close>

theorem window_request_answered_from_ledger:
  assumes "entry_codecs ee" "ledger_format lx" "LedgerWriter_open True fs = Inr lw0"
    and "LedgerWindow_open (files_of (ledger_write_entries lx es lw0)) = Inr win"
    and "length (lw_data (ledger_write_entries lx es lw0)) < 2 ^ 63"
    and "i < length es" "entry_size ee (es ! i) \<le> BLOB_DATA_SIZE"
    and "w \<noteq> []" "blob_index (w ! (unat (of_nat i :: u64) mod length w)) = Some ix" "ix \<noteq> Some (of_nat i)"
  shows "\<exists>b. run_window_request ee lx from from_addr (Some win) me (of_nat i) w = Some (Some b, w) \<and>
    carries ee b (of_nat i) (es ! i)"
proof -
  have lw0: "writes lx lw0 []" using assms(3) ledger_format.open_writes(3,4) [OF assms(2)] by simp
  have files: "files_of (ledger_write_entries lx es lw0) =
      \<lparr>index_file = Some (index_of lx es), data_file = Some (data_of lx es)\<rparr>"
    using ledger_format.write_entries_files [OF assms(2) lw0, of es] by simp
  then have small: "length (data_of lx es) < 2 ^ 63" using assms(5) by (simp add: files_of_def)
  have win: "win = \<lparr>lwin_index = index_of lx es, lwin_data = data_of lx es\<rparr>"
    using assms(4) by (simp add: files LedgerWindow_open_def open_file_def)
  have entry: "LedgerWindow_get_entry lx win (of_nat i) = Inr (es ! i)"
    unfolding win by (rule ledger_format.get_entry_window [OF assms(2) small
          ledger_format.index_bound [OF assms(2) small] assms(6)])
  obtain b where b: "entry_to_blob ee (Some (of_nat i)) (Some (ni_id me)) (Some from_addr) (es ! i) = Some b"
    "carries ee b (of_nat i) (es ! i)"
    using entry_blob_carries [OF assms(1,7)] by blast
  have "from_ledger ee lx from_addr (Some win) me (of_nat i) = Some (Some b)"
    using entry b(1) by (simp add: from_ledger_def)
  moreover have "get_at w (unat (of_nat i :: u64) mod length w) = Some (w ! (unat (of_nat i :: u64) mod length w))"
    using assms(8) by (simp add: get_at_def)
  ultimately have "run_window_request ee lx from from_addr (Some win) me (of_nat i) w = Some (Some b, w)"
    using assms(8-10)
    by (auto simp: run_window_request_def blob_index_def Let_def split: option.splits if_splits)
  then show ?thesis using b(2) by blast
qed

theorem window_request_witness:
  "\<exists>win b. run_window_request (bincode_entry_ext (\<lambda>bs. Hash (le_word bs))) bincode_ledger_ext
      (new_localhost (Pubkey 4)) (SockV4 127 0 0 1 80) (Some win) (new_localhost (Pubkey 3)) 1 default_window =
      Some (Some b, default_window) \<and>
    carries (bincode_entry_ext (\<lambda>bs. Hash (le_word bs))) b 1 (new_tick 2 (Hash 6))"
proof -
  let ?lx = bincode_ledger_ext and ?es = "[new_tick 1 (Hash 5), new_tick 2 (Hash 6)]"
  obtain lw0 where lw0: "LedgerWriter_open True \<lparr>index_file = None, data_file = None\<rparr> = Inr lw0" "writes ?lx lw0 []"
    using bincode_ledger.open_writes(3,4) by blast
  have files: "files_of (ledger_write_entries ?lx ?es lw0) =
      \<lparr>index_file = Some (index_of ?lx ?es), data_file = Some (data_of ?lx ?es)\<rparr>"
    using bincode_ledger.write_entries_files [OF lw0(2), of ?es] by simp
  then obtain win where win: "LedgerWindow_open (files_of (ledger_write_entries ?lx ?es lw0)) = Inr win"
    by (simp add: LedgerWindow_open_def open_file_def)
  have "length (lw_data (ledger_write_entries ?lx ?es lw0)) < 2 ^ 63"
    using files by (simp add: files_of_def data_of_def)
  note answer = window_request_answered_from_ledger [OF bincode_entry_codecs bincode_ledger.ledger_format_axioms
      lw0(1) win this, of 1 "\<lambda>bs. Hash (le_word bs)" default_window None]
  have "blob_index (default_window ! (unat (of_nat 1 :: u64) mod length default_window)) = Some None"
    by (simp add: default_window_def WINDOW_SIZE_eq WindowSlot_default_def blob_index_def)
  moreover have "default_window \<noteq> []" by (simp add: default_window_def WINDOW_SIZE_eq)
  ultimately have "\<exists>b. run_window_request (bincode_entry_ext (\<lambda>bs. Hash (le_word bs))) ?lx
      (new_localhost (Pubkey 4)) (SockV4 127 0 0 1 80) (Some win) (new_localhost (Pubkey 3)) (of_nat 1) default_window =
      Some (Some b, default_window) \<and> carries (bincode_entry_ext (\<lambda>bs. Hash (le_word bs))) b (of_nat 1) (?es ! 1)"
    by (intro answer) (simp_all add: new_tick_def entry_wire_size BLOB_DATA_SIZE_eq)
  then show ?thesis by auto
qed

section \<open>Broadcasting\<close>

definition own_datagram :: "node_info list \<Rightarrow> window \<Rightarrow> nat \<Rightarrow> bytes \<times> socket_addr" where
  "own_datagram table w idx =
     (let b = the (slot_data (w ! (idx mod length w)))
      in (take (unat (meta_size (blob_meta b))) (blob_data b),
          ci_tx_signer (ni_contact_info (table ! (idx mod length table)))))"

text \<open>A slot whose blob can be sent.\<close>

definition ready_slot :: "window_slot \<Rightarrow> bool" where
  "ready_slot s \<longleftrightarrow> (\<exists>b. slot_data s = Some b \<and> blob_wf b \<and> unat (meta_size (blob_meta b)) \<le> BLOB_SIZE)"

lemma filter_head_in: "filter P xs = y # ys \<Longrightarrow> y \<in> set xs"
  by (simp add: filter_eq_Cons_iff) (elim exE conjE, simp)

lemma rotation_order_ready:
  assumes "bt_wf bt" "interval \<noteq> 0"
  shows "\<exists>xs. rotation_order bt interval me table d idx = Some xs \<and> (\<forall>(b, v) \<in> set xs. b = d \<and> v \<in> set table)"
proof -
  obtain self where "my_data bt = Some self" using my_data_wf [OF assms(1)] by blast
  then obtain l where l: "get_scheduled_leader (idx + 1) bt = Some (Some l)"
    unfolding get_scheduled_leader_def by (cases "bt_scheduled_leaders bt (idx + 1)") simp_all
  show ?thesis
  proof (cases "(idx + 1) mod interval \<noteq> 0 \<or> l = ni_id me \<or> filter (\<lambda>n. ni_id n = l) table = []")
    case True
    then have "rotation_order bt interval me table d idx = Some []"
      unfolding rotation_order_def Let_def using assms(2) l by auto
    then show ?thesis by simp
  next
    case False
    then obtain n ns where n: "filter (\<lambda>n. ni_id n = l) table = n # ns"
      by (cases "filter (\<lambda>n. ni_id n = l) table") simp_all
    then have "rotation_order bt interval me table d idx = Some [(d, n)]"
      unfolding rotation_order_def Let_def using assms(2) l False by simp
    then show ?thesis using filter_head_in [OF n] by simp
  qed
qed

lemma data_orders_ready:
  assumes "bt_wf bt" "interval \<noteq> 0" "table \<noteq> []" "w \<noteq> []"
  shows "\<exists>orders br'. data_orders bt interval me table w [a ..< b] (a mod length table) = Some (orders, br') \<and>
    br' < length table \<and> b - a \<le> length orders \<and>
    (\<forall>(d, v) \<in> set orders. v \<in> set table \<and> (\<exists>idx \<in> {a ..< b}. d = slot_data (w ! (idx mod length w)))) \<and>
    (\<forall>idx \<in> {a ..< b}. (slot_data (w ! (idx mod length w)), table ! (idx mod length table)) \<in> set orders)"
proof (induction "b - a" arbitrary: a)
  case 0
  then show ?case using assms(3) by simp
next
  case (Suc n)
  let ?d = "slot_data (w ! (a mod length w))"
  obtain xs where xs: "rotation_order bt interval me table ?d (of_nat a) = Some xs"
    "\<forall>(b, v) \<in> set xs. b = ?d \<and> v \<in> set table"
    using rotation_order_ready [OF assms(1,2)] by blast
  have n: "n = b - Suc a" using Suc.hyps(2) by simp
  obtain orders br' where rest: "data_orders bt interval me table w [Suc a ..< b] (Suc a mod length table) = Some (orders, br')"
    "br' < length table" "b - Suc a \<le> length orders"
    "\<forall>(d, v) \<in> set orders. v \<in> set table \<and> (\<exists>idx \<in> {Suc a ..< b}. d = slot_data (w ! (idx mod length w)))"
    "\<forall>idx \<in> {Suc a ..< b}. (slot_data (w ! (idx mod length w)), table ! (idx mod length table)) \<in> set orders"
    using Suc.hyps(1) [OF n] by (elim exE conjE) (rule that)
  let ?out = "xs @ (?d, table ! (a mod length table)) # orders"
  have ab: "[a ..< b] = a # [Suc a ..< b]" "{a ..< b} = insert a {Suc a ..< b}"
    using Suc.hyps(2) by (auto simp: upt_conv_Cons)
  have "data_orders bt interval me table w [a ..< b] (a mod length table) = Some (?out, br')"
    unfolding ab(1) using xs(1) rest(1) assms(3,4) by (simp add: get_at_def mod_Suc_eq)
  moreover have "\<forall>(d, v) \<in> set ?out. v \<in> set table \<and> (\<exists>idx \<in> {a ..< b}. d = slot_data (w ! (idx mod length w)))"
  proof -
    have "table ! (a mod length table) \<in> set table" using assms(3) by simp
    then show ?thesis unfolding ab(2) using xs(2) rest(4) by (auto split: prod.splits)
  qed
  moreover have "\<forall>idx \<in> {a ..< b}. (slot_data (w ! (idx mod length w)), table ! (idx mod length table)) \<in> set ?out"
    unfolding ab(2) using rest(5) by auto
  moreover have "b - a \<le> length ?out" using rest(3) Suc.hyps(2) by simp
  ultimately show ?case using rest(2) by blast
qed

lemma coding_orders_none:
  "w \<noteq> [] \<Longrightarrow> \<forall>s \<in> set w. slot_coding s = None \<Longrightarrow> coding_orders table w idxs br = Some []"
  by (induction idxs) (simp_all add: get_at_def)

lemma count_sent_all:
  "list_all (\<lambda>x. x) oks \<Longrightarrow> ix \<le> received \<Longrightarrow> unat received - unat ix \<le> length oks \<Longrightarrow>
    count_sent oks received ix = (True, received)"
proof (induction oks arbitrary: ix)
  case Nil
  then show ?case by (simp add: word_le_nat_alt word_unat_eq_iff)
next
  case (Cons ok oks)
  show ?case
  proof (cases "ix < received")
    case True
    moreover have "unat received < 2 ^ LENGTH(64)" by (rule unsigned_less)
    ultimately have "unat (ix + 1) = unat ix + 1" "unat ix < unat received"
      by (auto simp: word_less_nat_alt unat_word_ariths)
    then show ?thesis using Cons True by (simp add: word_le_nat_alt)
  next
    case False
    then show ?thesis using Cons by (simp add: word_le_nat_alt word_less_nat_alt)
  qed
qed

text \<open>The datagram with which the leader hands the blob at \<open>idx\<close> to its own peer of the rotation.\<close>

lemma order_datagram_ready:
  assumes "ready_slot s" "ni_leader_id me \<noteq> ni_id v"
  shows "order_datagram me (slot_data s, v) =
    Some (take (unat (meta_size (blob_meta (the (slot_data s))))) (blob_data (the (slot_data s))),
      ci_tx_signer (ni_contact_info v))"
  using assms by (auto simp: ready_slot_def order_datagram_def subslice_def blob_wf_def)

lemma broadcast_runs:
  assumes "bt_wf bt" "interval \<noteq> 0" "table \<noteq> []" "\<forall>v \<in> set table. ni_leader_id me \<noteq> ni_id v"
    and "w \<noteq> []" "\<forall>s \<in> set w. slot_coding s = None" "wi_data ti \<le> received"
    and "\<forall>idx \<in> {unat (wi_data ti) ..< unat received}. ready_slot (w ! (idx mod length w))"
  shows "\<exists>r datagrams ti'. broadcast sent bt interval me table w ti received = Some (r, datagrams, ti') \<and>
    (\<forall>idx \<in> {unat (wi_data ti) ..< unat received}. own_datagram table w idx \<in> set datagrams) \<and>
    (\<forall>d \<in> set datagrams. \<exists>idx \<in> {unat (wi_data ti) ..< unat received}. fst d = fst (own_datagram table w idx)) \<and>
    (list_all sent datagrams \<longrightarrow> r = Inr () \<and> ti' = \<lparr>wi_data = received, wi_coding = received\<rparr>)"
proof -
  let ?range = "{unat (wi_data ti) ..< unat received}"
  obtain orders br where orders: "data_orders bt interval me table w [unat (wi_data ti) ..< unat received]
        (unat (wi_data ti) mod length table) = Some (orders, br)"
    "br < length table" "unat received - unat (wi_data ti) \<le> length orders"
    "\<forall>(d, v) \<in> set orders. v \<in> set table \<and> (\<exists>idx \<in> ?range. d = slot_data (w ! (idx mod length w)))"
    "\<forall>idx \<in> ?range. (slot_data (w ! (idx mod length w)), table ! (idx mod length table)) \<in> set orders"
    using data_orders_ready [OF assms(1-3,5), of me "unat (wi_data ti)" "unat received"]
    by (elim exE conjE) (rule that)
  define datagrams where "datagrams = map (the \<circ> order_datagram me) orders"
  have "order_datagram me x \<noteq> None" if x: "x \<in> set orders" for x
  proof -
    obtain d v where dv: "x = (d, v)" by (cases x)
    then obtain idx where "idx \<in> ?range" "d = slot_data (w ! (idx mod length w))" "v \<in> set table"
      using x orders(4) by blast
    then show ?thesis using assms(4,8) dv order_datagram_ready by fastforce
  qed
  then have "sequence_panics (map (order_datagram me) orders) = Some datagrams"
    unfolding datagrams_def by (rule sequence_panics_map)
  then have run: "broadcast sent bt interval me table w ti received =
      Some (if fst (count_sent (map sent datagrams) received (wi_data ti))
        then (Inr (), datagrams, \<lparr>wi_data = snd (count_sent (map sent datagrams) received (wi_data ti)),
               wi_coding = snd (count_sent (map sent datagrams) received (wi_data ti))\<rparr>)
        else (Inl IOErr, datagrams, ti\<lparr>wi_data := snd (count_sent (map sent datagrams) received (wi_data ti))\<rparr>))"
    using assms(3,7) orders(1) coding_orders_none [OF assms(5,6)]
    by (simp add: broadcast_def case_prod_beta Let_def)
  have own: "own_datagram table w idx \<in> set datagrams" if idx: "idx \<in> ?range" for idx
  proof -
    let ?x = "(slot_data (w ! (idx mod length w)), table ! (idx mod length table))"
    have "ni_leader_id me \<noteq> ni_id (table ! (idx mod length table))" using assms(3,4) by simp
    then have "order_datagram me ?x = Some (own_datagram table w idx)"
      using order_datagram_ready assms(8) idx unfolding own_datagram_def Let_def by blast
    moreover have "?x \<in> set orders" using orders(5) idx by blast
    ultimately show ?thesis unfolding datagrams_def by force
  qed
  have copies: "\<exists>idx \<in> ?range. fst d = fst (own_datagram table w idx)" if d: "d \<in> set datagrams" for d
  proof -
    obtain b v where bv: "(b, v) \<in> set orders" "d = the (order_datagram me (b, v))"
      using d unfolding datagrams_def by auto
    then obtain idx where idx: "idx \<in> ?range" "b = slot_data (w ! (idx mod length w))" "v \<in> set table"
      using orders(4) by blast
    then have "fst d = fst (own_datagram table w idx)"
      using bv(2) assms(4,8) order_datagram_ready unfolding own_datagram_def Let_def by fastforce
    then show ?thesis using idx(1) by blast
  qed
  have "count_sent (map sent datagrams) received (wi_data ti) = (True, received)" if "list_all sent datagrams"
    using that assms(7) orders(3) by (intro count_sent_all) (simp_all add: datagrams_def list_all_iff)
  then show ?thesis unfolding run using own copies by (cases "list_all sent datagrams") auto
qed

text \<open>A broadcast by the leader does not panic and hands every blob between the transmit index and the
  received index to the peer whose turn it is, the peers being taken round robin; when every send
  succeeds, both transmit indices end at the received index, so the next broadcast starts with the first
  blob that has not been sent.\<close>

theorem broadcast_sends_each_blob:
  assumes "bt_wf bt" "interval \<noteq> 0" "table \<noteq> []" "\<forall>v \<in> set table. ni_leader_id me \<noteq> ni_id v"
    and "w \<noteq> []" "\<forall>s \<in> set w. slot_coding s = None" "wi_data ti \<le> received"
    and "\<forall>idx \<in> {unat (wi_data ti) ..< unat received}. ready_slot (w ! (idx mod length w))"
  shows "\<exists>r datagrams ti'. broadcast sent bt interval me table w ti received = Some (r, datagrams, ti') \<and>
    (\<forall>idx \<in> {unat (wi_data ti) ..< unat received}. own_datagram table w idx \<in> set datagrams) \<and>
    (list_all sent datagrams \<longrightarrow> r = Inr () \<and> ti' = \<lparr>wi_data = received, wi_coding = received\<rparr>)"
  using broadcast_runs [OF assms] by blast

theorem broadcast_sends_witness:
  "\<exists>r datagrams ti'. broadcast (\<lambda>_. True) sample_node 4 (new_localhost (Pubkey 3)) [new_localhost (Pubkey 5)]
      [\<lparr>slot_data = Some Blob_default, slot_coding = None, slot_leader_unknown = False\<rparr>]
      \<lparr>wi_data = 0, wi_coding = 0\<rparr> 1 = Some (r, datagrams, ti') \<and>
    r = Inr () \<and> ti' = \<lparr>wi_data = 1, wi_coding = 1\<rparr>"
proof -
  have node: "bt_wf sample_node"
    by (simp add: bt_wf_def sample_node_def new_localhost_def NodeInfo_new_def)
  have peer: "ni_leader_id (new_localhost (Pubkey 3)) \<noteq> ni_id (new_localhost (Pubkey 5))"
    by (simp add: new_localhost_def NodeInfo_new_def Pubkey_default_def)
  have "meta_size (blob_meta Blob_default) = 0" by (simp add: Blob_default_def Meta_default_def)
  then show ?thesis
    using broadcast_sends_each_blob [of sample_node 4 "[new_localhost (Pubkey 5)]" "new_localhost (Pubkey 3)"
        "[\<lparr>slot_data = Some Blob_default, slot_coding = None, slot_leader_unknown = False\<rparr>]"
        "\<lparr>wi_data = 0, wi_coding = 0\<rparr>" 1 "\<lambda>_. True"] node peer
    by (auto simp: ready_slot_def list_all_iff)
qed

end
