(* ===== verification/Network.thy ===== *)
theory Network
  imports Packets Channels
begin

text \<open>
  Reading and sending datagrams (src/packet.rs, src/recvmmsg.rs, src/streamer.rs).

  A socket is the list of datagrams that wait in it.  A read of an empty socket fails, with the
  timeout or with \<open>WouldBlock\<close>.  A read puts a datagram at the front of the buffer it is given and cuts
  it to the length of the buffer.  Whether a send succeeds is an argument.
\<close>

type_synonym datagram = "bytes \<times> socket_addr"

section \<open>Packets\<close>

definition NUM_RCVMMSGS :: nat where "NUM_RCVMMSGS = 16"

definition read_into :: "bytes \<Rightarrow> bytes \<Rightarrow> bytes" where
  "read_into bs buf = take (length buf) bs @ drop (length bs) buf"

definition recv_packet :: "datagram \<Rightarrow> packet \<Rightarrow> packet" where
  "recv_packet d p = \<lparr>packet_data = read_into (fst d) (packet_data p),
     packet_meta = Meta_set_addr (snd d)
       ((packet_meta p)\<lparr>meta_size := of_nat (min (length (fst d)) (length (packet_data p)))\<rparr>)\<rparr>"

text \<open>The number of datagrams read into the packets, the packets, and the socket.\<close>

definition recv_mmsg :: "datagram list \<Rightarrow> packet list \<Rightarrow> (stage_error + nat \<times> packet list) \<times> datagram list" where
  "recv_mmsg sock packets =
     (let count = min NUM_RCVMMSGS (length packets) in
      if 0 < count \<and> sock = [] then (Inl IOError, sock)
      else let npkts = min count (length sock)
           in (Inr (npkts, map2 recv_packet (take npkts sock) (take npkts packets) @ drop npkts packets),
               drop npkts sock))"

definition resize :: "nat \<Rightarrow> 'a \<Rightarrow> 'a list \<Rightarrow> 'a list" where
  "resize n x xs = (if n \<le> length xs then take n xs else xs @ replicate (n - length xs) x)"

function read_loop ::
    "packet list \<Rightarrow> nat \<Rightarrow> datagram list \<Rightarrow> (stage_error + nat) \<times> packet list \<times> datagram list" where
  "read_loop packets i sock =
     (case recv_mmsg sock (drop i packets) of
        (Inl e, sock) \<Rightarrow> (if 0 < i then Inr i else Inl e, packets, sock)
      | (Inr (npkts, rest), sock) \<Rightarrow>
          if npkts \<noteq> NUM_RCVMMSGS then (Inr (i + npkts), take i packets @ rest, sock)
          else read_loop (take i packets @ rest) (i + npkts) sock)"
  by pat_completeness auto

termination read_loop
  by (relation "measure (\<lambda>(packets, i, sock). length sock)")
    (auto simp: recv_mmsg_def NUM_RCVMMSGS_def Let_def split: if_splits)

declare read_loop.simps [simp del]

definition run_read_from ::
    "packet list \<Rightarrow> datagram list \<Rightarrow> (stage_error + nat) \<times> packet list \<times> datagram list" where
  "run_read_from packets sock = read_loop (resize NUM_PACKETS Packet_default packets) 0 sock"

definition Packets_recv_from ::
    "packet list \<Rightarrow> datagram list \<Rightarrow> (stage_error + unit) \<times> packet list \<times> datagram list" where
  "Packets_recv_from packets sock =
     (case run_read_from packets sock of
        (Inl e, packets, sock) \<Rightarrow> (Inl e, packets, sock)
      | (Inr sz, packets, sock) \<Rightarrow> (Inr (), resize sz Packet_default packets, sock))"

text \<open>Sending stops at the first failure; the datagrams that went out are returned.\<close>

fun Packets_send_to :: "(datagram \<Rightarrow> bool) \<Rightarrow> packet list \<Rightarrow> ((stage_error + unit) \<times> datagram list) panics" where
  "Packets_send_to sent [] = Some (Inr (), [])"
| "Packets_send_to sent (p # ps) = do {
     bytes \<leftarrow> subslice 0 (unat (meta_size (packet_meta p))) (packet_data p);
     let d = (bytes, Meta_addr (packet_meta p));
     if \<not> sent d then Some (Inl IOError, [])
     else do { (r, ds) \<leftarrow> Packets_send_to sent ps; Some (r, d # ds) } }"

section \<open>Blobs\<close>

definition recv_blob :: "datagram \<Rightarrow> blob \<Rightarrow> blob" where
  "recv_blob d b = \<lparr>blob_data = read_into (fst d) (blob_data b),
     blob_meta = Meta_set_addr (snd d)
       ((blob_meta b)\<lparr>meta_size := of_nat (min (length (fst d)) (length (blob_data b)))\<rparr>)\<rparr>"

fun blob_read_loop :: "nat \<Rightarrow> nat \<Rightarrow> datagram list \<Rightarrow> (stage_error + blob list) \<times> datagram list" where
  "blob_read_loop i 0 sock = (Inr [], sock)"
| "blob_read_loop i (Suc n) [] = (if 0 < i then Inr [] else Inl IOError, [])"
| "blob_read_loop i (Suc n) (d # sock) =
     (case blob_read_loop (Suc i) n sock of
        (r, sock) \<Rightarrow> (map_sum (\<lambda>e. e) ((#) (recv_blob d Blob_default)) r, sock))"

definition Blob_recv_from :: "datagram list \<Rightarrow> (stage_error + blob list) \<times> datagram list" where
  "Blob_recv_from sock = blob_read_loop 0 NUM_BLOBS sock"

fun Blob_send_to :: "(datagram \<Rightarrow> bool) \<Rightarrow> blob list \<Rightarrow> ((stage_error + unit) \<times> datagram list) panics" where
  "Blob_send_to sent [] = Some (Inr (), [])"
| "Blob_send_to sent (b # bs) = do {
     bytes \<leftarrow> subslice 0 (unat (meta_size (blob_meta b))) (blob_data b);
     let d = (bytes, Meta_addr (blob_meta b));
     if \<not> sent d then Some (Inl IOError, [])
     else do { (r, ds) \<leftarrow> Blob_send_to sent bs; Some (r, d # ds) } }"

section \<open>The streamer\<close>

text \<open>\<open>recv_loop\<close>, one turn of its inner loop: \<open>None\<close> is the exit, otherwise the packets to send on, if
  any were read.\<close>

definition recv_loop_turn ::
    "bool \<Rightarrow> packet list \<Rightarrow> datagram list \<Rightarrow> (packet list option \<times> packet list \<times> datagram list) option" where
  "recv_loop_turn exit msgs sock =
     (if exit then None
      else Some (case Packets_recv_from msgs sock of
          (Inr _, packets, sock) \<Rightarrow> (Some packets, [], sock)
        | (Inl _, packets, sock) \<Rightarrow> (None, packets, sock)))"

text \<open>One turn of the thread that \<open>responder\<close> starts: the blobs that arrive on the channel are sent; the
  first component is whether the loop goes on.\<close>

definition recv_send ::
    "(datagram \<Rightarrow> bool) \<Rightarrow> blob list received \<Rightarrow> ((stage_error + unit) \<times> datagram list) panics" where
  "recv_send sent r =
     (case recv_timeout r of
        Inl e \<Rightarrow> Some (Inl e, [])
      | Inr msgs \<Rightarrow> Blob_send_to sent msgs)"

definition responder_turn :: "(datagram \<Rightarrow> bool) \<Rightarrow> blob list received \<Rightarrow> (bool \<times> datagram list) panics" where
  "responder_turn sent r = map_option (\<lambda>(res, ds). (worker_continues res, ds)) (recv_send sent r)"

text \<open>\<open>recv_batch\<close> after its first message: the batch, its length, and the messages left.\<close>

fun batch_more :: "packet list list \<Rightarrow> nat \<Rightarrow> packet list list \<times> nat \<times> packet list list" where
  "batch_more [] len = ([], len, [])"
| "batch_more (msgs # queue) len =
     (let len = len + length msgs in
      if 100000 < len then ([msgs], len, queue)
      else case batch_more queue len of (batch, len, left) \<Rightarrow> (msgs # batch, len, left))"

definition recv_batch ::
    "packet list received \<Rightarrow> packet list list \<Rightarrow> stage_error + packet list list \<times> nat \<times> packet list list" where
  "recv_batch r queue =
     (case recv_timeout r of
        Inl e \<Rightarrow> Inl e
      | Inr msgs \<Rightarrow>
          Inr (case batch_more queue (length msgs) of (batch, len, left) \<Rightarrow> (msgs # batch, len, left)))"

definition streamer_recv_blobs :: "datagram list \<Rightarrow> (stage_error + blob list option) \<times> datagram list" where
  "streamer_recv_blobs sock =
     (case Blob_recv_from sock of
        (Inl e, sock) \<Rightarrow> (Inl e, sock)
      | (Inr dq, sock) \<Rightarrow> (Inr (if dq \<noteq> [] then Some dq else None), sock))"

text \<open>One turn of the thread that \<open>blob_receiver\<close> starts; \<open>None\<close> is the exit.  The blobs go to a channel
  whose receiver may be gone, which the thread ignores.\<close>

definition blob_receiver_turn ::
    "bool \<Rightarrow> datagram list \<Rightarrow> (blob list option \<times> datagram list) option" where
  "blob_receiver_turn exit sock =
     (if exit then None
      else Some (case streamer_recv_blobs sock of
          (Inl _, sock) \<Rightarrow> (None, sock)
        | (Inr dq, sock) \<Rightarrow> (dq, sock)))"

section \<open>What is read\<close>

lemma read_into_length [simp]: "length (read_into bs buf) = length buf"
  by (simp add: read_into_def)

lemma map2_split:
  assumes "k \<le> length xs" "k \<le> length ys"
  shows "map2 f (take k xs) (take k ys) @ map2 f (take n (drop k xs)) (drop k ys) = map2 f (take (k + n) xs) ys"
proof -
  have "zip (take (k + n) xs) ys = zip (take k xs @ take n (drop k xs)) (take k ys @ drop k ys)"
    by (simp add: take_add)
  also have "\<dots> = zip (take k xs) (take k ys) @ zip (take n (drop k xs)) (drop k ys)"
    using assms by (intro zip_append) simp
  finally show ?thesis by simp
qed

text \<open>The loop over groups of 16 reads what a single pass would.\<close>

lemma read_loop_reads:
  assumes "i \<le> length packets" "16 dvd length packets - i" "0 < i \<or> sock \<noteq> []"
  defines "n \<equiv> min (length packets - i) (length sock)"
  shows "read_loop packets i sock = (Inr (i + n),
    take i packets @ map2 recv_packet (take n sock) (drop i packets) @ drop (i + n) packets, drop n sock)"
  using assms(1-3) unfolding n_def
proof (induction "length sock" arbitrary: packets i sock rule: less_induct)
  case less
  let ?n = "min (length packets - i) (length sock)"
  show ?case
  proof (cases "16 \<le> length packets - i \<and> 16 \<le> length sock")
    case True
    let ?ps = "take i packets @ map2 recv_packet (take 16 sock) (take 16 (drop i packets)) @ drop 16 (drop i packets)"
    have mm: "recv_mmsg sock (drop i packets) = (Inr (16, map2 recv_packet (take 16 sock) (take 16 (drop i packets)) @
        drop 16 (drop i packets)), drop 16 sock)"
      using True by (auto simp: recv_mmsg_def NUM_RCVMMSGS_def Let_def min_def)
    have "i + (16 + (length packets - (16 + i))) = length packets" using True by linarith
    then have len: "length ?ps = length packets" using True less.prems(1) by simp
    have m: "min (length ?ps - (i + 16)) (length (drop 16 sock)) = ?n - 16" unfolding len using True by simp
    have dv: "16 dvd length ?ps - (i + 16)"
      unfolding len using less.prems(2) by (metis diff_diff_left dvd_diff_nat dvd_refl)
    have lt: "length (drop 16 sock) < length sock" using True by (cases sock) simp_all
    have le: "i + 16 \<le> length ?ps" unfolding len using True by linarith
    have IH: "read_loop ?ps (i + 16) (drop 16 sock) = (Inr (i + 16 + (?n - 16)),
        take (i + 16) ?ps @ map2 recv_packet (take (?n - 16) (drop 16 sock)) (drop (i + 16) ?ps) @
          drop (i + 16 + (?n - 16)) ?ps, drop (?n - 16) (drop 16 sock))"
      using less.hyps [OF lt le dv] unfolding m by simp
    have n: "i + 16 + (?n - 16) = i + ?n" "16 + (?n - 16) = ?n" using True by simp_all
    have parts: "take (i + 16) ?ps = take i packets @ map2 recv_packet (take 16 sock) (take 16 (drop i packets))"
      "drop (i + 16) ?ps = drop 16 (drop i packets)" "drop (i + ?n) ?ps = drop (i + ?n) packets"
    proof -
      have lens: "length (take i packets) = i" "length (map2 recv_packet (take 16 sock) (take 16 (drop i packets))) = 16"
        using True less.prems(1) by simp_all
      obtain m where m: "?n = 16 + m" using n(2) by metis
      show "take (i + 16) ?ps = take i packets @ map2 recv_packet (take 16 sock) (take 16 (drop i packets))"
        "drop (i + 16) ?ps = drop 16 (drop i packets)"
        using lens by (simp_all only: take_append drop_append) simp_all
      show "drop (i + ?n) ?ps = drop (i + ?n) packets"
        unfolding m using lens by (simp only: drop_append) (simp add: ac_simps)
    qed
    have "map2 recv_packet (take 16 sock) (take 16 (drop i packets)) @
        map2 recv_packet (take (?n - 16) (drop 16 sock)) (drop 16 (drop i packets)) =
        map2 recv_packet (take ?n sock) (drop i packets)"
      using map2_split [of 16 sock "drop i packets" recv_packet "?n - 16"] True n by simp
    moreover have "drop (?n - 16) (drop 16 sock) = drop ?n sock" using n(2) by (simp add: add.commute)
    moreover have "read_loop packets i sock = read_loop ?ps (i + 16) (drop 16 sock)"
      by (subst read_loop.simps) (simp add: mm NUM_RCVMMSGS_def)
    ultimately show ?thesis using IH unfolding n parts by simp
  next
    case False
    obtain k where k: "length packets - i = 16 * k" using less.prems(2) by (auto elim: dvdE)
    consider "length packets = i" | "16 \<le> length packets - i" "length sock < 16"
      using False less.prems(1) k by (cases k) auto
    then show ?thesis
    proof cases
      case 1
      then show ?thesis by (subst read_loop.simps) (simp add: recv_mmsg_def NUM_RCVMMSGS_def)
    next
      case 2
      have n: "?n = length sock" "min (min 16 (length packets - i)) (length sock) = length sock" using 2 by linarith+
      show ?thesis
      proof (cases "sock = []")
        case True
        then have "recv_mmsg sock (drop i packets) = (Inl IOError, [])"
          using 2 by (simp add: recv_mmsg_def NUM_RCVMMSGS_def)
        then show ?thesis using True less.prems(3) by (subst read_loop.simps) simp
      next
        case False
        have "recv_mmsg sock (drop i packets) = (Inr (length sock,
            map2 recv_packet sock (take (length sock) (drop i packets)) @ drop (length sock) (drop i packets)), [])"
          using False n(2) by (simp add: recv_mmsg_def NUM_RCVMMSGS_def Let_def)
        moreover have "map2 recv_packet sock (take (length sock) (drop i packets)) = map2 recv_packet sock (drop i packets)"
          using take_zip [of "length sock" sock "drop i packets"] by simp
        ultimately show ?thesis
          using 2(2) unfolding n(1) by (subst read_loop.simps) (simp add: NUM_RCVMMSGS_def add.commute)
      qed
    qed
  qed
qed

lemma NUM_PACKETS_eq: "NUM_PACKETS = 8192"
  by (simp add: NUM_PACKETS_def)

text \<open>Reading from a socket in which datagrams wait returns exactly the first of them, as many as the
  buffer of packets has room for, in order, one packet each, and leaves the others; an empty socket is
  an error.\<close>

theorem packets_read_in_order:
  "Packets_recv_from packets sock =
    (if sock = [] then (Inl IOError, resize NUM_PACKETS Packet_default packets, [])
     else (Inr (), map2 recv_packet (take NUM_PACKETS sock) (resize NUM_PACKETS Packet_default packets),
       drop NUM_PACKETS sock))"
proof (cases "sock = []")
  case True
  have "recv_mmsg [] (resize NUM_PACKETS Packet_default packets) = (Inl IOError, [])"
    by (simp add: recv_mmsg_def NUM_RCVMMSGS_def resize_def NUM_PACKETS_eq)
  then have "read_loop (resize NUM_PACKETS Packet_default packets) 0 [] =
      (Inl IOError, resize NUM_PACKETS Packet_default packets, [])"
    by (subst read_loop.simps) simp
  then show ?thesis using True by (simp add: Packets_recv_from_def run_read_from_def)
next
  case False
  let ?ps = "resize NUM_PACKETS Packet_default packets" and ?n = "min NUM_PACKETS (length sock)"
  have len: "length ?ps = NUM_PACKETS" by (simp add: resize_def)
  have "read_loop ?ps 0 sock = (Inr ?n, map2 recv_packet (take ?n sock) ?ps @ drop ?n ?ps, drop ?n sock)"
    using read_loop_reads [of 0 ?ps sock] False len by (simp add: NUM_PACKETS_eq)
  moreover have "take ?n sock = take NUM_PACKETS sock" "drop ?n sock = drop NUM_PACKETS sock"
    by (auto simp: min_def)
  moreover have "length (map2 recv_packet (take NUM_PACKETS sock) ?ps) = ?n" using len by simp
  ultimately show ?thesis
    using False by (simp add: Packets_recv_from_def run_read_from_def resize_def [of ?n])
qed

lemma blob_read_loop_reads:
  "0 < i \<or> sock \<noteq> [] \<or> n = 0 \<Longrightarrow>
    blob_read_loop i n sock = (Inr (map (\<lambda>d. recv_blob d Blob_default) (take n sock)), drop n sock)"
  by (induction i n sock rule: blob_read_loop.induct) auto

section \<open>From sender to receiver\<close>

text \<open>The bytes behind a blob's size are zero, as they are in a fresh blob.\<close>

definition zero_tail :: "blob \<Rightarrow> bool" where
  "zero_tail b \<longleftrightarrow> blob_wf b \<and> unat (meta_size (blob_meta b)) \<le> BLOB_SIZE \<and>
     drop (unat (meta_size (blob_meta b))) (blob_data b) =
       replicate (BLOB_SIZE - unat (meta_size (blob_meta b))) 0"

lemma Meta_set_addr_size [simp]: "meta_size (Meta_set_addr a m) = meta_size m"
  by (cases a) simp_all

lemma recv_blob_same:
  assumes "zero_tail b"
  shows "blob_data (recv_blob (take (unat (meta_size (blob_meta b))) (blob_data b), from) Blob_default) = blob_data b"
    and "meta_size (blob_meta (recv_blob (take (unat (meta_size (blob_meta b))) (blob_data b), from) Blob_default)) =
      meta_size (blob_meta b)"
proof -
  let ?sz = "unat (meta_size (blob_meta b))"
  have len: "length (blob_data b) = BLOB_SIZE" "?sz \<le> BLOB_SIZE"
    and tail: "drop ?sz (blob_data b) = replicate (BLOB_SIZE - ?sz) 0"
    using assms by (auto simp: zero_tail_def blob_wf_def)
  have "read_into (take ?sz (blob_data b)) (replicate BLOB_SIZE 0) = take ?sz (blob_data b) @ drop ?sz (blob_data b)"
    using len tail by (simp add: read_into_def)
  then show "blob_data (recv_blob (take ?sz (blob_data b), from) Blob_default) = blob_data b"
    by (simp add: recv_blob_def Blob_default_def)
  show "meta_size (blob_meta (recv_blob (take ?sz (blob_data b), from) Blob_default)) = meta_size (blob_meta b)"
  proof -
    have "min (length (take ?sz (blob_data b))) BLOB_SIZE = ?sz" using len by simp
    then show ?thesis by (simp add: recv_blob_def Blob_default_def)
  qed
qed

text \<open>Blobs sent with \<open>send_to\<close> arrive: when the sends succeed and the datagrams reach a socket in
  order, \<open>recv_from\<close> returns, for each of the first \<open>NUM_BLOBS\<close>, a blob with the same bytes and size.\<close>

theorem blobs_sent_are_received:
  assumes "list_all zero_tail bs" "bs \<noteq> []" "length bs \<le> NUM_BLOBS"
  shows "\<exists>ds got. Blob_send_to (\<lambda>_. True) bs = Some (Inr (), ds) \<and>
    Blob_recv_from (map (\<lambda>d. (fst d, from)) ds) = (Inr got, []) \<and>
    map blob_data got = map blob_data bs \<and>
    map (\<lambda>b. meta_size (blob_meta b)) got = map (\<lambda>b. meta_size (blob_meta b)) bs"
proof -
  let ?bytes = "\<lambda>b. take (unat (meta_size (blob_meta b))) (blob_data b)"
  have send: "Blob_send_to (\<lambda>_. True) bs = Some (Inr (), map (\<lambda>b. (?bytes b, Meta_addr (blob_meta b))) bs)"
    using assms(1)
    by (induction bs) (auto simp: zero_tail_def blob_wf_def subslice_def)
  let ?ds = "map (\<lambda>b. (?bytes b, from)) bs"
  have "Blob_recv_from ?ds = (Inr (map (\<lambda>b. recv_blob (?bytes b, from) Blob_default) bs), [])"
    using blob_read_loop_reads [of 0 ?ds NUM_BLOBS] assms(2,3)
    by (simp add: Blob_recv_from_def comp_def)
  moreover have "map blob_data (map (\<lambda>b. recv_blob (?bytes b, from) Blob_default) bs) = map blob_data bs"
    "map (\<lambda>b. meta_size (blob_meta b)) (map (\<lambda>b. recv_blob (?bytes b, from) Blob_default) bs) =
      map (\<lambda>b. meta_size (blob_meta b)) bs"
    using assms(1) recv_blob_same by (auto simp: list_all_iff)
  ultimately show ?thesis using send by (auto simp: comp_def)
qed

theorem blobs_sent_witness:
  "\<exists>ds got. Blob_send_to (\<lambda>_. True) [Blob_default] = Some (Inr (), ds) \<and>
    Blob_recv_from (map (\<lambda>d. (fst d, SockV4 127 0 0 1 80)) ds) = (Inr got, []) \<and>
    map blob_data got = [blob_data Blob_default]"
  using blobs_sent_are_received [of "[Blob_default]" "SockV4 127 0 0 1 80"]
  by (auto simp: zero_tail_def blob_wf_def Blob_default_def Meta_default_def NUM_BLOBS_def NUM_PACKETS_def
      PACKET_DATA_SIZE_def BLOB_SIZE_def)

end
