(* ===== verification/Broadcast_Stage.thy ===== *)
theory Broadcast_Stage
  imports Window_Service Network
begin

text \<open>
  The stage with which a leader broadcasts its entries (src/broadcast_stage.rs), and what reaches a
  validator's window through the network.

  The stage's state is its window, the transmit index and the receive index.  The entries waiting in
  the channel, the order in which the node table is walked and the success of each send are arguments.
\<close>

section \<open>The stage\<close>

record broadcast_stage =
  bs_window :: window
  bs_transmit :: window_index
  bs_receive_index :: u64

datatype broadcast_stage_error = StageErr stage_error | SendErr broadcast_error

text \<open>The slots of the new blobs are emptied, and then filled.\<close>

primrec take_slots :: "blob list \<Rightarrow> window \<Rightarrow> window panics" where
  "take_slots [] w = Some w"
| "take_slots (b # bs) w = do {
     ix \<leftarrow> get_index b;
     w \<leftarrow> modify_at (slot_of ix) (\<lambda>s. s\<lparr>slot_data := None, slot_coding := None\<rparr>) w;
     take_slots bs w }"

definition broadcast_chunk ::
    "entry_ext \<Rightarrow> (datagram \<Rightarrow> bool) \<Rightarrow> blockthread \<Rightarrow> u64 \<Rightarrow> node_info \<Rightarrow> node_info list \<Rightarrow> blob list \<Rightarrow>
       broadcast_stage \<Rightarrow> ((broadcast_stage_error + unit) \<times> datagram list \<times> broadcast_stage) panics" where
  "broadcast_chunk ee sent bt interval me table blobs st = do {
     blobs \<leftarrow> index_blobs (ee_pubkey ee) me blobs (bs_receive_index st);
     if length (bs_window st) < length blobs then None
     else do {
       w \<leftarrow> take_slots blobs (bs_window st);
       w \<leftarrow> cache_blobs blobs w;
       let receive_index = bs_receive_index st + of_nat (length blobs);
       (r, ds, ti) \<leftarrow> broadcast sent bt interval me table w (bs_transmit st) receive_index;
       Some (map_sum SendErr (\<lambda>u. u) r, ds,
         \<lparr>bs_window = w, bs_transmit = ti, bs_receive_index = receive_index\<rparr>) } }"

fun broadcast_chunks ::
    "entry_ext \<Rightarrow> (datagram \<Rightarrow> bool) \<Rightarrow> blockthread \<Rightarrow> u64 \<Rightarrow> node_info \<Rightarrow> node_info list \<Rightarrow> blob list list \<Rightarrow>
       broadcast_stage \<Rightarrow> ((broadcast_stage_error + unit) \<times> datagram list \<times> broadcast_stage) panics" where
  "broadcast_chunks ee sent bt interval me table [] st = Some (Inr (), [], st)"
| "broadcast_chunks ee sent bt interval me table (blobs # rest) st = do {
     (r, ds, st) \<leftarrow> broadcast_chunk ee sent bt interval me table blobs st;
     (case r of
        Inl e \<Rightarrow> Some (Inl e, ds, st)
      | Inr _ \<Rightarrow> do {
          (r, more_ds, st) \<leftarrow> broadcast_chunks ee sent bt interval me table rest st;
          Some (r, ds @ more_ds, st) }) }"

text \<open>\<open>broadcast\<close> of the stage: \<open>first\<close> is what the blocking receive brings, \<open>queue\<close> what lies ready
  behind it.\<close>

definition stage_broadcast ::
    "entry_ext \<Rightarrow> (datagram \<Rightarrow> bool) \<Rightarrow> blockthread \<Rightarrow> u64 \<Rightarrow> node_info \<Rightarrow> node_info list \<Rightarrow>
       entry list received \<Rightarrow> entry list list \<Rightarrow> broadcast_stage \<Rightarrow>
       ((broadcast_stage_error + unit) \<times> datagram list \<times> broadcast_stage) panics" where
  "stage_broadcast ee sent bt interval me table first queue st =
     (case recv_timeout first of
        Inl e \<Rightarrow> Some (Inl (StageErr e), [], st)
      | Inr entries \<Rightarrow> do {
          dq \<leftarrow> sequence_panics (map (block_to_blobs ee) (entries # queue));
          broadcast_chunks ee sent bt interval me table (chunks WINDOW_SIZE (concat dq)) st })"

datatype broadcast_stage_return = LeaderRotation | ChannelDisconnected

definition BroadcastStage_start :: "window \<Rightarrow> u64 \<Rightarrow> broadcast_stage" where
  "BroadcastStage_start w entry_height =
     \<lparr>bs_window = w, bs_transmit = \<lparr>wi_data = entry_height, wi_coding = entry_height\<rparr>,
      bs_receive_index = entry_height\<rparr>"

text \<open>One turn of the loop in \<open>run\<close>; \<open>me\<close> is the node's record from before the loop and \<open>ks\<close> walks the
  table of live nodes.\<close>

definition broadcast_stage_turn ::
    "entry_ext \<Rightarrow> (datagram \<Rightarrow> bool) \<Rightarrow> blockthread \<Rightarrow> u64 \<Rightarrow> node_info \<Rightarrow> pubkey list \<Rightarrow>
       entry list received \<Rightarrow> entry list list \<Rightarrow> broadcast_stage \<Rightarrow>
       (broadcast_stage_return option \<times> datagram list \<times> broadcast_stage) panics" where
  "broadcast_stage_turn ee sent bt interval me ks first queue st =
     (if interval = 0 then None
      else do {
        rotate \<leftarrow> (if wi_data (bs_transmit st) mod interval = 0 then do {
            self \<leftarrow> my_data bt;
            scheduled_leader \<leftarrow> get_scheduled_leader (wi_data (bs_transmit st)) bt;
            Some (scheduled_leader \<noteq> Some (ni_id self)) }
          else Some False);
        if rotate then Some (Some LeaderRotation, [], st)
        else do {
          table \<leftarrow> compute_broadcast_table ks bt;
          (r, ds, st) \<leftarrow> stage_broadcast ee sent bt interval me table first queue st;
          Some (if r = Inl (StageErr RecvDisconnected) then Some ChannelDisconnected else None, ds, st) } })"

section \<open>Blobs of entries\<close>

text \<open>A blob whose payload is an entry and zeros.\<close>

definition entry_blob :: "entry_ext \<Rightarrow> entry \<Rightarrow> blob \<Rightarrow> bool" where
  "entry_blob ee e b \<longleftrightarrow> blob_wf b \<and> entry_size ee e \<le> BLOB_DATA_SIZE \<and>
     get_size b = Some (Inr (of_nat (entry_size ee e))) \<and>
     blob_payload b = Some (enc (ee_entry ee) e @ replicate (BLOB_SIZE - 64 - entry_size ee e) 0)"

lemma entry_blob_size:
  assumes "entry_blob ee e b"
  shows "unat (meta_size (blob_meta b)) = entry_size ee e + 64" "entry_size ee e + 64 \<le> BLOB_SIZE"
proof -
  have size: "entry_size ee e \<le> 65280" using assms by (simp add: entry_blob_def BLOB_DATA_SIZE_eq)
  obtain s where "get_data_size b = Some s" "meta_size (blob_meta b) = s" "s - 64 = of_nat (entry_size ee e)"
    using assms by (auto simp: entry_blob_def get_size_def bind_eq_Some_conv BLOB_HEADER_SIZE_eq split: if_splits)
  then have "meta_size (blob_meta b) = of_nat (entry_size ee e + 64)" by (simp add: algebra_simps)
  moreover have "unat (of_nat (entry_size ee e + 64) :: u64) = entry_size ee e + 64"
    by (rule unat_of_nat_small) (use size in simp)
  ultimately show "unat (meta_size (blob_meta b)) = entry_size ee e + 64" by simp
  show "entry_size ee e + 64 \<le> BLOB_SIZE" using size by (simp add: BLOB_SIZE_def)
qed

lemma entry_blob_zero_tail:
  assumes "entry_blob ee e b"
  shows "zero_tail b"
proof -
  have wf: "length (blob_data b) = BLOB_SIZE" using assms by (simp add: entry_blob_def blob_wf_def)
  have "64 \<le> BLOB_SIZE" by (simp add: BLOB_SIZE_def)
  then have "drop 64 (blob_data b) = enc (ee_entry ee) e @ replicate (BLOB_SIZE - 64 - entry_size ee e) 0"
    using assms wf by (simp add: entry_blob_def blob_payload_def subslice_def BLOB_HEADER_SIZE_eq)
  then have "drop (entry_size ee e) (drop 64 (blob_data b)) = replicate (BLOB_SIZE - 64 - entry_size ee e) 0"
    by (simp add: entry_size_def)
  then have "drop (entry_size ee e + 64) (blob_data b) = replicate (BLOB_SIZE - (entry_size ee e + 64)) 0"
    by (simp add: add.commute)
  then show ?thesis using entry_blob_size [OF assms] wf by (simp add: zero_tail_def blob_wf_def)
qed

lemma entry_blob_carries_entry:
  assumes "entry_codecs ee" "entry_blob ee e b" "get_index b = Some ix" "get_flags b = Some 0"
  shows "carries ee b ix e"
proof -
  have "blob_payload b \<bind> subslice 0 (entry_size ee e) = Some (enc (ee_entry ee) e)"
    using assms(2) by (simp add: entry_blob_def subslice_def entry_size_def)
  then show ?thesis
    using assms entry_codecs.reconstruct_entry [OF assms(1), of b e "[]"]
    by (simp add: carries_def is_coding_def BLOB_FLAG_IS_CODING_def entry_blob_def
        del: reconstruct_entries_from_blobs.simps(2))
qed

text \<open>What a blob carries is read from its bytes and its size.\<close>

lemma carries_received:
  assumes "zero_tail b" "carries ee b ix e"
  shows "carries ee (recv_blob (take (unat (meta_size (blob_meta b))) (blob_data b), from) Blob_default) ix e"
  using assms(2) recv_blob_same [OF assms(1), of "from"]
  by (simp add: carries_def get_index_def is_coding_def get_flags_def get_size_def get_data_size_def blob_payload_def)


lemma entry_blob_indexed:
  assumes "entry_codecs ee" "entry_blob ee e b"
  shows "\<exists>b1 b2 b'. set_id (ee_pubkey ee) k b = Some b1 \<and> set_index ix b1 = Some b2 \<and> set_flags 0 b2 = Some b' \<and>
    entry_blob ee e b' \<and> get_index b' = Some ix \<and> get_flags b' = Some 0"
proof -
  note idf = id_header_field [OF entry_codecs.sender_codec [OF assms(1)]]
  have wf: "blob_wf b" using assms(2) by (simp add: entry_blob_def)
  obtain b1 where b1: "set_id (ee_pubkey ee) k b = Some b1" using header_field.set_total [OF idf wf] by blast
  note w1 = header_field.set_wf [OF idf wf b1]
  obtain b2 where b2: "set_index ix b1 = Some b2" using index_field.set_total w1 by blast
  note w2 = index_field.set_wf [OF conjunct1 [OF w1] b2]
  obtain b' where b': "set_flags 0 b2 = Some b'" using flags_field.set_total w2 by blast
  note w' = flags_field.set_wf [OF conjunct1 [OF w2] b']
  note frames = header_field.set_frame [OF idf b1] index_field.set_frame [OF b2] flags_field.set_frame [OF b']
  have "get_index b' = Some ix"
    using index_field.get_other [of b' b2] index_field.get_set [OF conjunct1 [OF w1] b2] by (simp add: frames)
  moreover have "get_flags b' = Some 0" using flags_field.get_set [OF conjunct1 [OF w2] b'] .
  moreover have "get_data_size b' = get_data_size b" by (rule data_size_field.get_other) (simp add: frames)
  then have "get_size b' = get_size b" using w1 w2 w' by (simp add: get_size_def)
  moreover have "blob_payload b' = blob_payload b"
    using w1 w2 w' wf by (simp add: blob_payload_def blob_wf_def BLOB_HEADER_SIZE_eq frames)
  ultimately have "entry_blob ee e b'" "get_index b' = Some ix" "get_flags b' = Some 0"
    using assms(2) w' by (simp_all add: entry_blob_def)
  then show ?thesis using b1 b2 b' by blast
qed

lemma index_blobs_entries:
  assumes "entry_codecs ee" "list_all2 (entry_blob ee) es bs"
  shows "\<exists>bs'. index_blobs (ee_pubkey ee) me bs ri = Some bs' \<and> list_all2 (entry_blob ee) es bs' \<and>
    (\<forall>j < length es. get_index (bs' ! j) = Some (ri + of_nat j) \<and> get_flags (bs' ! j) = Some 0)"
proof -
  let ?f = "\<lambda>(i, b). set_id (ee_pubkey ee) (ni_id me) b \<bind> (\<lambda>b. set_index (ri + of_nat i) b \<bind> set_flags 0)"
  have len: "length es = length bs" using assms(2) by (rule list_all2_lengthD)
  have each: "\<exists>b'. ?f (j, bs ! j) = Some b' \<and> entry_blob ee (es ! j) b' \<and>
      get_index b' = Some (ri + of_nat j) \<and> get_flags b' = Some 0" if "j < length bs" for j
    using entry_blob_indexed [OF assms(1), of "es ! j" "bs ! j" "ni_id me" "ri + of_nat j"] assms(2) that len
    by (auto simp: list_all2_conv_all_nth)
  define bs' where "bs' = map (the \<circ> ?f) (enumerate 0 bs)"
  have "sequence_panics (map ?f (enumerate 0 bs)) = Some bs'"
    unfolding bs'_def
  proof (rule sequence_panics_map)
    fix x assume "x \<in> set (enumerate 0 bs)"
    then have "fst x < length bs" "x = (fst x, bs ! fst x)" by (simp_all add: in_set_enumerate_eq)
    then obtain j where "x = (j, bs ! j)" "j < length bs" by blast
    then show "?f x \<noteq> None" using each [of j] by auto
  qed
  moreover have nth: "bs' ! j = the (?f (j, bs ! j))" if "j < length bs" for j
    using that by (simp add: bs'_def nth_enumerate_eq)
  have "entry_blob ee (es ! j) (bs' ! j) \<and> get_index (bs' ! j) = Some (ri + of_nat j) \<and> get_flags (bs' ! j) = Some 0"
    if "j < length bs" for j
    using each [OF that] nth [OF that] by (metis option.sel)
  moreover have "length bs' = length bs" by (simp add: bs'_def)
  ultimately show ?thesis
    using len by (auto simp: index_blobs_def list_all2_conv_all_nth intro!: exI [of _ bs'])
qed

section \<open>Filling the window\<close>

definition blob_slot :: "blob \<Rightarrow> nat" where
  "blob_slot b = slot_of (the (get_index b))"

lemma take_slots_spec:
  assumes "length w = WINDOW_SIZE" "\<forall>b \<in> set bs. get_index b \<noteq> None"
  shows "\<exists>w'. take_slots bs w = Some w' \<and> length w' = WINDOW_SIZE \<and>
    (\<forall>i < WINDOW_SIZE. w' ! i = (if i \<in> blob_slot ` set bs then (w ! i)\<lparr>slot_data := None, slot_coding := None\<rparr> else w ! i))"
  using assms
proof (induction bs arbitrary: w)
  case (Cons b bs)
  let ?clear = "\<lambda>s. s\<lparr>slot_data := None, slot_coding := None\<rparr>"
  obtain ix where ix: "get_index b = Some ix" using Cons.prems(2) by auto
  then have slot: "blob_slot b = slot_of ix" "slot_of ix < length w"
    using slot_of_less Cons.prems(1) by (simp_all add: blob_slot_def)
  let ?w = "w[slot_of ix := ?clear (w ! slot_of ix)]"
  obtain w' where w': "take_slots bs ?w = Some w'" "length w' = WINDOW_SIZE"
    "\<forall>i < WINDOW_SIZE. w' ! i = (if i \<in> blob_slot ` set bs then ?clear (?w ! i) else ?w ! i)"
    using Cons.IH [of ?w] Cons.prems by auto
  have "take_slots (b # bs) w = Some w'" using ix slot w'(1) by (simp add: modify_at_def)
  moreover have "\<forall>i < WINDOW_SIZE. w' ! i = (if i \<in> blob_slot ` set (b # bs) then ?clear (w ! i) else w ! i)"
    using w'(3) slot Cons.prems(1) by (auto simp: nth_list_update)
  ultimately show ?case using w'(2) by blast
qed simp

lemma cache_blobs_spec:
  assumes "length w = WINDOW_SIZE" "\<forall>b \<in> set bs. get_index b \<noteq> None" "distinct (map blob_slot bs)"
    and "\<forall>b \<in> set bs. slot_data (w ! blob_slot b) = None"
  shows "\<exists>w'. cache_blobs bs w = Some w' \<and> length w' = WINDOW_SIZE \<and>
    (\<forall>b \<in> set bs. w' ! blob_slot b = (w ! blob_slot b)\<lparr>slot_data := Some b\<rparr>) \<and>
    (\<forall>i < WINDOW_SIZE. i \<notin> blob_slot ` set bs \<longrightarrow> w' ! i = w ! i)"
  using assms
proof (induction bs arbitrary: w)
  case (Cons b bs)
  obtain ix where ix: "get_index b = Some ix" using Cons.prems(2) by auto
  then have slot: "blob_slot b = slot_of ix" "slot_of ix < length w"
    using slot_of_less Cons.prems(1) by (simp_all add: blob_slot_def)
  let ?s = "(w ! slot_of ix)\<lparr>slot_data := Some b\<rparr>"
  let ?w = "w[slot_of ix := ?s]"
  have other: "blob_slot c \<noteq> slot_of ix" if "c \<in> set bs" for c
    using that Cons.prems(3) slot(1) by (metis distinct.simps(2) image_eqI list.set_map list.simps(9))
  then have "\<forall>c \<in> set bs. slot_data (?w ! blob_slot c) = None"
    using Cons.prems(4) by (metis list.set_intros(2) nth_list_update_neq)
  then obtain w' where w': "cache_blobs bs ?w = Some w'" "length w' = WINDOW_SIZE"
    "\<forall>c \<in> set bs. w' ! blob_slot c = (?w ! blob_slot c)\<lparr>slot_data := Some c\<rparr>"
    "\<forall>i < WINDOW_SIZE. i \<notin> blob_slot ` set bs \<longrightarrow> w' ! i = ?w ! i"
    using Cons.IH [of ?w] Cons.prems by auto
  have "cache_blobs (b # bs) w = Some w'"
    using ix slot w'(1) Cons.prems(4) by (simp add: get_at_def)
  moreover have "w' ! slot_of ix = ?s"
    using w'(4) slot other Cons.prems(1) by (metis imageE nth_list_update_eq)
  moreover have "w' ! blob_slot c = (w ! blob_slot c)\<lparr>slot_data := Some c\<rparr>" if "c \<in> set bs" for c
    using w'(3) that other [OF that] by simp
  moreover have "w' ! i = w ! i" if "i < WINDOW_SIZE" "i \<notin> blob_slot ` set (b # bs)" for i
    using w'(4) that slot(1) by auto
  ultimately show ?case using w'(2) slot(1) by auto
qed simp

text \<open>Blobs with consecutive indices, at most a window full, have different slots; the window that holds
  them has each at the slot of its index.\<close>

lemma window_filled:
  assumes "length w = WINDOW_SIZE" "\<forall>s \<in> set w. slot_coding s = None"
    and "length bs \<le> WINDOW_SIZE" "start + length bs < 2 ^ 64"
    and "\<forall>j < length bs. get_index (bs ! j) = Some (of_nat (start + j))"
  shows "\<exists>w1 w'. take_slots bs w = Some w1 \<and> cache_blobs bs w1 = Some w' \<and> length w' = WINDOW_SIZE \<and>
    (\<forall>s \<in> set w'. slot_coding s = None) \<and>
    (\<forall>j < length bs. slot_data (w' ! ((start + j) mod WINDOW_SIZE)) = Some (bs ! j))"
proof -
  have slot: "blob_slot (bs ! j) = (start + j) mod 2048" if "j < length bs" for j
    using assms(4,5) that slot_of_nat [of "start + j"] by (simp add: blob_slot_def)
  have ix: "\<forall>b \<in> set bs. get_index b \<noteq> None" using assms(5) by (auto simp: in_set_conv_nth)
  have dist: "distinct (map blob_slot bs)"
  proof (intro distinct_conv_nth [THEN iffD2] allI impI notI)
    fix i j
    assume ij: "i < length (map blob_slot bs)" "j < length (map blob_slot bs)" "i \<noteq> j"
      "map blob_slot bs ! i = map blob_slot bs ! j"
    then have "(start + i) mod 2048 = (start + j) mod 2048" using slot by (metis length_map nth_map)
    moreover have "i < 2048" "j < 2048" using ij(1,2) assms(3) by (simp_all add: WINDOW_SIZE_eq)
    ultimately have "i = j" using ring_inj by blast
    then show False using ij(3) by simp
  qed
  obtain w1 where w1: "take_slots bs w = Some w1" "length w1 = WINDOW_SIZE"
    "\<forall>i < WINDOW_SIZE. w1 ! i = (if i \<in> blob_slot ` set bs then (w ! i)\<lparr>slot_data := None, slot_coding := None\<rparr> else w ! i)"
    using take_slots_spec [OF assms(1) ix] by blast
  have small: "blob_slot b < WINDOW_SIZE" for b by (simp add: blob_slot_def slot_of_less)
  have "\<forall>b \<in> set bs. slot_data (w1 ! blob_slot b) = None" using w1(3) small by auto
  then obtain w' where w': "cache_blobs bs w1 = Some w'" "length w' = WINDOW_SIZE"
    "\<forall>b \<in> set bs. w' ! blob_slot b = (w1 ! blob_slot b)\<lparr>slot_data := Some b\<rparr>"
    "\<forall>i < WINDOW_SIZE. i \<notin> blob_slot ` set bs \<longrightarrow> w' ! i = w1 ! i"
    using cache_blobs_spec [OF w1(2) ix dist] by blast
  have "slot_coding (w' ! i) = None" if "i < WINDOW_SIZE" for i
  proof (cases "i \<in> blob_slot ` set bs")
    case True
    then show ?thesis using w'(3) w1(3) that by auto
  next
    case False
    then show ?thesis using w'(4) w1(3) that assms(1,2) by simp
  qed
  then have "\<forall>s \<in> set w'. slot_coding s = None" using w'(2) by (auto simp: in_set_conv_nth)
  moreover have "slot_data (w' ! ((start + j) mod WINDOW_SIZE)) = Some (bs ! j)" if "j < length bs" for j
  proof -
    have "w' ! blob_slot (bs ! j) = (w1 ! blob_slot (bs ! j))\<lparr>slot_data := Some (bs ! j)\<rparr>" using w'(3) that by simp
    then show ?thesis using slot [OF that] by (simp add: WINDOW_SIZE_eq)
  qed
  ultimately show ?thesis using w1(1) w'(1,2) by blast
qed

section \<open>What is sent\<close>

text \<open>The stage between two broadcasts: everything up to height \<open>n\<close> has been sent.\<close>

definition broadcasting :: "nat \<Rightarrow> broadcast_stage \<Rightarrow> bool" where
  "broadcasting n st \<longleftrightarrow> length (bs_window st) = WINDOW_SIZE \<and> (\<forall>s \<in> set (bs_window st). slot_coding s = None) \<and>
     bs_transmit st = \<lparr>wi_data = of_nat n, wi_coding = of_nat n\<rparr> \<and> bs_receive_index st = of_nat n"

text \<open>The datagrams are those of a run of entries: the messages \<open>bl\<close>, one for each entry, and no other, of
  which each goes to the peer whose turn it is.\<close>

definition sends_run ::
    "entry_ext \<Rightarrow> node_info list \<Rightarrow> nat \<Rightarrow> entry list \<Rightarrow> bytes list \<Rightarrow> datagram list \<Rightarrow> bool" where
  "sends_run ee table start es bl ds \<longleftrightarrow> length bl = length es \<and> fst ` set ds = set bl \<and>
     (\<forall>j < length es. (\<forall>from. carries ee (recv_blob (bl ! j, from) Blob_default) (of_nat (start + j)) (es ! j)) \<and>
       (bl ! j, ci_tx_signer (ni_contact_info (table ! ((start + j) mod length table)))) \<in> set ds)"

lemma sends_run_Nil [simp]: "sends_run ee table start [] [] []"
  by (simp add: sends_run_def)

lemma sends_run_append:
  assumes "sends_run ee table start es bl ds" "sends_run ee table (start + length es) es' bl' ds'"
  shows "sends_run ee table start (es @ es') (bl @ bl') (ds @ ds')"
proof -
  have len: "length bl = length es" "length bl' = length es'" using assms by (simp_all add: sends_run_def)
  have "(\<forall>from. carries ee (recv_blob ((bl @ bl') ! j, from) Blob_default) (of_nat (start + j)) ((es @ es') ! j)) \<and>
      ((bl @ bl') ! j, ci_tx_signer (ni_contact_info (table ! ((start + j) mod length table)))) \<in> set (ds @ ds')"
    if j: "j < length (es @ es')" for j
  proof (cases "j < length es")
    case True
    then show ?thesis using assms(1) len by (simp add: sends_run_def nth_append)
  next
    case False
    then obtain i where i: "j = length es + i" "i < length es'" using j by (auto simp: nat_le_iff_add not_less)
    then have "start + j = start + length es + i" by simp
    then show ?thesis using assms(2) i len unfolding sends_run_def nth_append by (simp add: add.assoc)
  qed
  then show ?thesis using assms len by (auto simp: sends_run_def)
qed

lemma broadcast_chunk_sends:
  assumes "entry_codecs ee" "bt_wf bt" "interval \<noteq> 0" "table \<noteq> []" "\<forall>v \<in> set table. ni_leader_id me \<noteq> ni_id v"
    and "list_all2 (entry_blob ee) es bs" "length es \<le> WINDOW_SIZE" "broadcasting start st" "start + length es < 2 ^ 64"
  shows "\<exists>ds st' bl. broadcast_chunk ee (\<lambda>_. True) bt interval me table bs st = Some (Inr (), ds, st') \<and>
    broadcasting (start + length es) st' \<and> sends_run ee table start es bl ds"
proof -
  have st: "length (bs_window st) = WINDOW_SIZE" "\<forall>s \<in> set (bs_window st). slot_coding s = None"
    "bs_transmit st = \<lparr>wi_data = of_nat start, wi_coding = of_nat start\<rparr>" "bs_receive_index st = of_nat start"
    using assms(8) by (simp_all add: broadcasting_def)
  obtain bs' where bs': "index_blobs (ee_pubkey ee) me bs (of_nat start) = Some bs'" "list_all2 (entry_blob ee) es bs'"
    "\<forall>j < length es. get_index (bs' ! j) = Some (of_nat start + of_nat j) \<and> get_flags (bs' ! j) = Some 0"
    using index_blobs_entries [OF assms(1,6)] by blast
  have len: "length bs' = length es" using list_all2_lengthD [OF bs'(2)] by simp
  obtain w1 w where w: "take_slots bs' (bs_window st) = Some w1" "cache_blobs bs' w1 = Some w"
    "length w = WINDOW_SIZE" "\<forall>s \<in> set w. slot_coding s = None"
    "\<forall>j < length bs'. slot_data (w ! ((start + j) mod WINDOW_SIZE)) = Some (bs' ! j)"
    using window_filled [OF st(1,2), of bs' start] assms(7,9) bs'(3) len by auto
  let ?r = "of_nat start + of_nat (length es) :: u64"
  have un: "unat (of_nat start :: u64) = start" "unat ?r = start + length es"
    using assms(9) unat_of_nat_small [of start, where 'a = 64] unat_of_nat_small [of "start + length es", where 'a = 64]
    by simp_all
  have blob: "entry_blob ee (es ! j) (bs' ! j)" if "j < length es" for j
    using bs'(2) that by (simp add: list_all2_conv_all_nth)
  have slots: "\<exists>j < length es. idx = start + j \<and> slot_data (w ! (idx mod length w)) = Some (bs' ! j)"
    if idx: "idx \<in> {start ..< start + length es}" for idx
  proof -
    obtain j where "idx = start + j" "j < length es" using idx by (auto simp: nat_le_iff_add)
    then show ?thesis using w(3,5) len by auto
  qed
  have ready: "\<forall>idx \<in> {unat (wi_data (bs_transmit st)) ..< unat ?r}. ready_slot (w ! (idx mod length w))"
  proof
    fix idx
    assume "idx \<in> {unat (wi_data (bs_transmit st)) ..< unat ?r}"
    then have "idx \<in> {start ..< start + length es}" unfolding st(3) un by (simp add: un)
    then obtain j where j: "j < length es" "slot_data (w ! (idx mod length w)) = Some (bs' ! j)" using slots by blast
    then show "ready_slot (w ! (idx mod length w))"
      using blob [OF j(1)] entry_blob_size [OF blob [OF j(1)]] by (simp add: ready_slot_def entry_blob_def)
  qed
  have le: "wi_data (bs_transmit st) \<le> ?r" unfolding st(3) word_le_nat_alt using un by simp
  have "w \<noteq> []" using w(3) by (auto simp: WINDOW_SIZE_eq)
  then obtain r ds ti' where run: "broadcast (\<lambda>_. True) bt interval me table w (bs_transmit st) ?r = Some (r, ds, ti')"
    "\<forall>idx \<in> {start ..< start + length es}. own_datagram table w idx \<in> set ds"
    "\<forall>d \<in> set ds. \<exists>idx \<in> {start ..< start + length es}. fst d = fst (own_datagram table w idx)"
    "r = Inr ()" "ti' = \<lparr>wi_data = ?r, wi_coding = ?r\<rparr>"
    using broadcast_runs [OF assms(2-5) _ w(4) le ready, where sent = "\<lambda>_. True"] un st(3) by (auto simp: list_all_iff)
  let ?bytes = "\<lambda>b. take (unat (meta_size (blob_meta b))) (blob_data b)"
  let ?st' = "\<lparr>bs_window = w, bs_transmit = ti', bs_receive_index = ?r\<rparr>"
  have "broadcast_chunk ee (\<lambda>_. True) bt interval me table bs st = Some (Inr (), ds, ?st')"
    using bs'(1) w(1,2) run(1,4) st(1,4) len assms(7) by (simp add: broadcast_chunk_def Let_def)
  moreover have "broadcasting (start + length es) ?st'" using w(3,4) run(5) by (simp add: broadcasting_def)
  moreover have "sends_run ee table start es (map ?bytes bs') ds"
  proof -
    have own: "own_datagram table w (start + j) =
        (?bytes (bs' ! j), ci_tx_signer (ni_contact_info (table ! ((start + j) mod length table))))" if "j < length es" for j
      using w(3,5) len that by (simp add: own_datagram_def Let_def)
    have "carries ee (recv_blob (?bytes (bs' ! j), from) Blob_default) (of_nat (start + j)) (es ! j)" if "j < length es" for j "from"
      using entry_blob_carries_entry [OF assms(1) blob [OF that]] bs'(3) that
      by (intro carries_received entry_blob_zero_tail [OF blob [OF that]]) simp
    moreover have "fst ` set ds = ?bytes ` set bs'"
    proof
      show "fst ` set ds \<subseteq> ?bytes ` set bs'"
      proof
        fix x
        assume "x \<in> fst ` set ds"
        then obtain idx where "idx \<in> {start ..< start + length es}" "x = fst (own_datagram table w idx)"
          using run(3) by blast
        then obtain j where "j < length es" "x = ?bytes (bs' ! j)"
          using slots own by (metis fst_conv)
        then show "x \<in> ?bytes ` set bs'" using len by simp
      qed
      show "?bytes ` set bs' \<subseteq> fst ` set ds"
      proof
        fix x
        assume "x \<in> ?bytes ` set bs'"
        then obtain j where j: "j < length es" "x = ?bytes (bs' ! j)" using len by (auto simp: in_set_conv_nth)
        then have "own_datagram table w (start + j) \<in> set ds" using run(2) by simp
        then show "x \<in> fst ` set ds" using own [OF j(1)] j(2) by force
      qed
    qed
    moreover have "(?bytes (bs' ! j), ci_tx_signer (ni_contact_info (table ! ((start + j) mod length table)))) \<in> set ds"
      if "j < length es" for j
      using run(2) own [OF that] that by (metis atLeastLessThan_iff le_add1 nat_add_left_cancel_less)
    ultimately show ?thesis using len by (simp add: sends_run_def)
  qed
  ultimately show ?thesis by blast
qed

lemma broadcast_chunks_send:
  assumes "entry_codecs ee" "bt_wf bt" "interval \<noteq> 0" "table \<noteq> []" "\<forall>v \<in> set table. ni_leader_id me \<noteq> ni_id v"
    and "list_all2 (entry_blob ee) es bs" "broadcasting start st" "start + length es < 2 ^ 64"
  shows "\<exists>ds st' bl. broadcast_chunks ee (\<lambda>_. True) bt interval me table (chunks WINDOW_SIZE bs) st = Some (Inr (), ds, st') \<and>
    broadcasting (start + length es) st' \<and> sends_run ee table start es bl ds"
  using assms(6-8)
proof (induction "length bs" arbitrary: es bs start st rule: less_induct)
  case less
  show ?case
  proof (cases "bs = []")
    case True
    then have "es = []" using less.prems(1) by simp
    then show ?thesis using True less.prems(2) by (auto intro: exI [of _ "[]"])
  next
    case False
    let ?n = "WINDOW_SIZE"
    have pos: "0 < ?n" by (simp add: WINDOW_SIZE_eq)
    then have shorter: "length (drop ?n bs) < length bs" using False by simp
    have split: "list_all2 (entry_blob ee) (take ?n es) (take ?n bs)" "list_all2 (entry_blob ee) (drop ?n es) (drop ?n bs)"
      using less.prems(1) by (simp_all add: list_all2_takeI list_all2_dropI)
    have len: "length (take ?n es) + length (drop ?n es) = length es" by simp
    have bound: "start + length (take ?n es) < 2 ^ 64" using less.prems(3) len by linarith
    obtain ds st' bl where first: "broadcast_chunk ee (\<lambda>_. True) bt interval me table (take ?n bs) st = Some (Inr (), ds, st')"
      "broadcasting (start + length (take ?n es)) st'" "sends_run ee table start (take ?n es) bl ds"
      using broadcast_chunk_sends [OF assms(1-5) split(1) _ less.prems(2) bound] by auto
    have "start + length (take ?n es) + length (drop ?n es) < 2 ^ 64" using less.prems(3) len by linarith
    then obtain ds' st'' bl' where rest:
      "broadcast_chunks ee (\<lambda>_. True) bt interval me table (chunks ?n (drop ?n bs)) st' = Some (Inr (), ds', st'')"
      "broadcasting (start + length (take ?n es) + length (drop ?n es)) st''"
      "sends_run ee table (start + length (take ?n es)) (drop ?n es) bl' ds'"
      using less.hyps [OF shorter split(2) first(2)] by blast
    have "broadcast_chunks ee (\<lambda>_. True) bt interval me table (chunks ?n bs) st = Some (Inr (), ds @ ds', st'')"
      using False pos first(1) rest(1) by (subst chunks.simps) simp
    moreover have "start + length (take ?n es) + length (drop ?n es) = start + length es" using len by linarith
    ultimately show ?thesis
      using rest(2) sends_run_append [OF first(3) rest(3)] unfolding append_take_drop_id by metis
  qed
qed

lemma block_blobs_entries:
  assumes "entry_codecs ee" "\<forall>e \<in> set es. entry_size ee e \<le> BLOB_DATA_SIZE"
  shows "\<exists>bs. block_to_blobs ee es = Some bs \<and> list_all2 (entry_blob ee) es bs"
proof -
  let ?f = "\<lambda>(i, e). entry_to_blob ee (Some (0 + of_nat i)) (Some Pubkey_default) (Some (SockV4 0 0 0 0 0)) e"
  have each: "\<exists>b. ?f (i, e) = Some b \<and> entry_blob ee e b" if "e \<in> set es" for i e
  proof -
    have size: "entry_size ee e \<le> BLOB_DATA_SIZE" using assms(2) that by blast
    show ?thesis
      using entry_codecs.entry_to_blob_whole [OF assms(1) size, of "0 + of_nat i" Pubkey_default "SockV4 0 0 0 0 0"] size
      by (metis (no_types, lifting) case_prod_conv entry_blob_def)
  qed
  define bs where "bs = map (the \<circ> ?f) (enumerate 0 es)"
  have "sequence_panics (map ?f (enumerate 0 es)) = Some bs"
    unfolding bs_def
  proof (rule sequence_panics_map)
    fix x
    assume "x \<in> set (enumerate 0 es)"
    then have "fst x < length es" "es ! fst x = snd x" by (simp_all add: in_set_enumerate_eq)
    then have "snd x \<in> set es" "x = (fst x, snd x)" by (metis nth_mem, simp)
    then show "?f x \<noteq> None" using each [of "snd x" "fst x"] by (metis option.distinct(1))
  qed
  moreover have "entry_blob ee (es ! j) (bs ! j)" if "j < length es" for j
    using each [of "es ! j" j] that by (auto simp: bs_def nth_enumerate_eq)
  moreover have "length bs = length es" by (simp add: bs_def)
  ultimately show ?thesis by (auto simp: block_to_blobs_def to_blobs_with_id_def list_all2_conv_all_nth)
qed

lemma batches_blobs_entries:
  assumes "entry_codecs ee" "\<forall>e \<in> set (concat ess). entry_size ee e \<le> BLOB_DATA_SIZE"
  shows "\<exists>dq. sequence_panics (map (block_to_blobs ee) ess) = Some dq \<and> list_all2 (entry_blob ee) (concat ess) (concat dq)"
  using assms(2)
proof (induction ess)
  case (Cons es ess)
  obtain bs where "block_to_blobs ee es = Some bs" "list_all2 (entry_blob ee) es bs"
    using block_blobs_entries [OF assms(1)] Cons.prems by fastforce
  moreover obtain dq where "sequence_panics (map (block_to_blobs ee) ess) = Some dq" "list_all2 (entry_blob ee) (concat ess) (concat dq)"
    using Cons by auto
  ultimately show ?case by (auto intro: list_all2_appendI)
qed simp

lemma stage_broadcast_sends:
  assumes "entry_codecs ee" "bt_wf bt" "interval \<noteq> 0" "table \<noteq> []" "\<forall>v \<in> set table. ni_leader_id me \<noteq> ni_id v"
    and "es = entries @ concat queue" "\<forall>e \<in> set es. entry_size ee e \<le> BLOB_DATA_SIZE"
    and "broadcasting start st" "start + length es < 2 ^ 64"
  shows "\<exists>ds st' bl. stage_broadcast ee (\<lambda>_. True) bt interval me table (Message entries) queue st = Some (Inr (), ds, st') \<and>
    broadcasting (start + length es) st' \<and> sends_run ee table start es bl ds"
proof -
  obtain dq where "sequence_panics (map (block_to_blobs ee) (entries # queue)) = Some dq"
    "list_all2 (entry_blob ee) (concat (entries # queue)) (concat dq)"
    using batches_blobs_entries [OF assms(1), of "entries # queue"] assms(6,7) by auto
  then show ?thesis
    using broadcast_chunks_send [OF assms(1-5), of es "concat dq" start st] assms(6,8,9)
    by (simp add: stage_broadcast_def recv_timeout_def)
qed

section \<open>What arrives\<close>

lemma sends_run_distinct:
  assumes "sends_run ee table start es bl ds" "start + length es < 2 ^ 64"
  shows "distinct bl"
proof (intro distinct_conv_nth [THEN iffD2] allI impI notI)
  fix i j
  assume ij: "i < length bl" "j < length bl" "i \<noteq> j" "bl ! i = bl ! j"
  have len: "length bl = length es" using assms(1) by (simp add: sends_run_def)
  have ix: "get_index (recv_blob (bl ! k, SockV4 0 0 0 0 0) Blob_default) = Some (of_nat (start + k))" if "k < length bl" for k
    using assms(1) that len by (simp add: sends_run_def carries_def)
  have "(of_nat (start + i) :: u64) = of_nat (start + j)" using ix [OF ij(1)] ix [OF ij(2)] ij(4) by simp
  moreover have "unat (of_nat (start + k) :: u64) = start + k" if "k < length bl" for k
    by (rule unat_of_nat_small) (use assms(2) that len in simp)
  ultimately have "start + i = start + j" using ij(1,2) by metis
  then show False using ij(3) by simp
qed

lemma indices_of:
  "set ys \<subseteq> set xs \<Longrightarrow> \<exists>js. set js \<subseteq> {..<length xs} \<and> ys = map ((!) xs) js"
proof (induction ys)
  case (Cons y ys)
  then obtain j js where "j < length xs" "y = xs ! j" "set js \<subseteq> {..<length xs}" "ys = map ((!) xs) js"
    by (auto simp: in_set_conv_nth)
  then show ?case by (intro exI [of _ "j # js"]) simp
qed simp

text \<open>A fresh window takes the messages of a run in any order, any number of times, and passes on the
  entries.\<close>

lemma run_is_delivered:
  assumes "sends_run ee table start es bl ds" "length es \<le> WINDOW_SIZE" "start + 2 * WINDOW_SIZE < 2 ^ 64"
    and "\<forall>j \<le> length es. at_my_rotation bt interval (of_nat (start + j)) = Some False"
    and "set arrivals = fst ` set ds"
    and "st = \<lparr>rs_window = default_window, rs_consumed = of_nat start, rs_received = of_nat start,
      rs_pending = False, rs_queue = [], rs_done = False\<rparr>"
  shows "\<exists>st'. recv_blobs ee bt interval 0 lu (map (\<lambda>bytes. recv_blob (bytes, from) Blob_default) arrivals) st = Some (Some st') \<and>
    rs_queue st' = es \<and> rs_consumed st' = of_nat (start + length es)"
proof -
  let ?bs = "map (\<lambda>bytes. recv_blob (bytes, from) Blob_default) bl"
  have run: "length bl = length es" "set arrivals = set bl"
    "\<forall>j < length es. carries ee (?bs ! j) (of_nat (start + j)) (es ! j)"
    using assms(1,5) by (simp_all add: sends_run_def)
  obtain js where js: "set js \<subseteq> {..<length es}" "arrivals = map ((!) bl) js"
    using indices_of [of arrivals bl] run(1,2) by auto
  have dist: "distinct bl"
    by (rule sends_run_distinct [OF assms(1)]) (use assms(2,3) in \<open>simp add: WINDOW_SIZE_eq\<close>)
  have all: "j \<in> set js" if j: "j < length es" for j
  proof -
    have "bl ! j \<in> set (map ((!) bl) js)" using run(1,2) js(2) j by simp
    then obtain i where i: "i \<in> set js" "bl ! i = bl ! j" by auto
    then have "i = j" using dist js(1) j run(1) by (auto simp: nth_eq_iff_index_eq)
    then show ?thesis using i(1) by simp
  qed
  have "\<exists>st' p. recv_blobs ee bt interval 0 lu (map ((!) ?bs) js) st = Some (Some st') \<and>
    rs_consumed st' = of_nat (start + p) \<and> rs_queue st' = take p es \<and>
    p \<le> length es \<and> {..<p} \<subseteq> {} \<union> set js \<and> (p = length es \<or> p \<notin> {} \<union> set js)"
    by (rule recv_blobs_run [where p = 0, OF _ _ run(3) refl assms(4) js(1)])
      (use assms(2,3,6) default_window_empty in \<open>simp_all add: WINDOW_SIZE_eq\<close>)
  then obtain st' p where st': "recv_blobs ee bt interval 0 lu (map ((!) ?bs) js) st = Some (Some st')"
    "rs_consumed st' = of_nat (start + p)" "rs_queue st' = take p es" "p \<le> length es" "p = length es \<or> p \<notin> set js"
    by auto
  have "p = length es" using st'(4,5) all by (metis le_neq_implies_less)
  moreover have "map ((!) ?bs) js = map (\<lambda>bytes. recv_blob (bytes, from) Blob_default) arrivals"
    using js run(1) by auto
  ultimately show ?thesis using st'(1-3) by auto
qed

section \<open>What the stage promises\<close>

lemma BroadcastStage_start_broadcasting:
  "length w = WINDOW_SIZE \<Longrightarrow> \<forall>s \<in> set w. slot_coding s = None \<Longrightarrow> broadcasting n (BroadcastStage_start w (of_nat n))"
  by (simp add: broadcasting_def BroadcastStage_start_def)

lemma default_window_uncoded: "length default_window = WINDOW_SIZE" "\<forall>s \<in> set default_window. slot_coding s = None"
  by (simp_all add: default_window_def WindowSlot_default_def)

text \<open>C5: the leader broadcasts every entry it is handed.  However many entries wait and however they are
  batched, the stage does not panic, and when the sends succeed there is one message for each entry: it
  goes to the peer whose turn it is, and whoever reads it from a socket finds in it exactly that entry,
  under the index of its height.  Nothing else is sent, and the stage is left ready for the next height.\<close>

theorem broadcast_sends_entries:
  assumes "entry_codecs ee" "bt_wf bt" "interval \<noteq> 0" "table \<noteq> []" "\<forall>v \<in> set table. ni_leader_id me \<noteq> ni_id v"
    and "es = entries @ concat queue" "\<forall>e \<in> set es. entry_size ee e \<le> BLOB_DATA_SIZE"
    and "broadcasting start st" "start + length es < 2 ^ 64"
  shows "\<exists>ds st' bl. stage_broadcast ee (\<lambda>_. True) bt interval me table (Message entries) queue st = Some (Inr (), ds, st') \<and>
    length bl = length es \<and> fst ` set ds = set bl \<and>
    (\<forall>j < length es. (bl ! j, ci_tx_signer (ni_contact_info (table ! ((start + j) mod length table)))) \<in> set ds \<and>
      (\<forall>from. carries ee (recv_blob (bl ! j, from) Blob_default) (of_nat (start + j)) (es ! j))) \<and>
    broadcasting (start + length es) st'"
  using stage_broadcast_sends [OF assms] unfolding sends_run_def by blast

theorem broadcast_entries_witness:
  "\<exists>ds st' bl. stage_broadcast (bincode_entry_ext (\<lambda>bs. Hash (le_word bs))) (\<lambda>_. True) sample_node 4
      (new_localhost (Pubkey 3)) [new_localhost (Pubkey 5)] (Message [new_tick 3 (Hash 4)]) [[new_tick 1 (Hash 5)]]
      (BroadcastStage_start default_window 5) = Some (Inr (), ds, st') \<and> length bl = 2 \<and> fst ` set ds = set bl \<and>
    broadcasting 7 st'"
proof -
  let ?ee = "bincode_entry_ext (\<lambda>bs. Hash (le_word bs))" and ?es = "[new_tick 3 (Hash 4), new_tick 1 (Hash 5)]"
  have node: "bt_wf sample_node"
    by (simp add: bt_wf_def sample_node_def new_localhost_def NodeInfo_new_def)
  have peer: "\<forall>v \<in> set [new_localhost (Pubkey 5)]. ni_leader_id (new_localhost (Pubkey 3)) \<noteq> ni_id v"
    by (simp add: new_localhost_def NodeInfo_new_def Pubkey_default_def)
  have size: "\<forall>e \<in> set ?es. entry_size ?ee e \<le> BLOB_DATA_SIZE"
    by (simp add: new_tick_def entry_wire_size BLOB_DATA_SIZE_eq)
  have start: "broadcasting 5 (BroadcastStage_start default_window 5)"
    using BroadcastStage_start_broadcasting [OF default_window_uncoded, of 5] by simp
  have es: "?es = [new_tick 3 (Hash 4)] @ concat [[new_tick 1 (Hash 5)]]" by simp
  have bound: "5 + length ?es < 2 ^ 64" by simp
  have "\<exists>ds st' bl. stage_broadcast ?ee (\<lambda>_. True) sample_node 4
      (new_localhost (Pubkey 3)) [new_localhost (Pubkey 5)] (Message [new_tick 3 (Hash 4)]) [[new_tick 1 (Hash 5)]]
      (BroadcastStage_start default_window 5) = Some (Inr (), ds, st') \<and>
    length bl = length ?es \<and> fst ` set ds = set bl \<and>
    (\<forall>j < length ?es. (bl ! j, ci_tx_signer (ni_contact_info ([new_localhost (Pubkey 5)] ! ((5 + j) mod length [new_localhost (Pubkey 5)])))) \<in> set ds \<and>
      (\<forall>from. carries ?ee (recv_blob (bl ! j, from) Blob_default) (of_nat (5 + j)) (?es ! j))) \<and>
    broadcasting (5 + length ?es) st'"
    by (rule broadcast_sends_entries [OF bincode_entry_codecs node _ _ peer es size start bound]) simp_all
  then obtain ds st' bl where "stage_broadcast ?ee (\<lambda>_. True) sample_node 4
      (new_localhost (Pubkey 3)) [new_localhost (Pubkey 5)] (Message [new_tick 3 (Hash 4)]) [[new_tick 1 (Hash 5)]]
      (BroadcastStage_start default_window 5) = Some (Inr (), ds, st')"
    "length bl = length ?es" "fst ` set ds = set bl" "broadcasting (5 + length ?es) st'" by blast
  then show ?thesis by (intro exI [of _ ds] exI [of _ st'] exI [of _ bl]) simp
qed

end
