(* ===== verification/Fullnode.thy ===== *)
theory Fullnode
  imports Ledger_Stages Broadcast_Stage
begin

text \<open>
  A node: its role as leader or validator, the services it starts for it, and the change between the
  roles (src/fullnode.rs, src/tx_creator.rs, src/tx_signer.rs, src/retransmit_stage.rs).

  The services of a role are given by the state in which its stages start.  What the stages return when
  they end is an argument of the transition.  Sockets, threads and the services that only answer requests
  (src/rpu.rs, src/ncp.rs) hold no state of their own here; the ledger directory is its two files.
\<close>

section \<open>Services\<close>

datatype tx_creator_return = TxCreatorLeaderRotation

definition TxCreator_join :: "write_stage_return \<Rightarrow> tx_creator_return option" where
  "TxCreator_join r = (case r of write_stage_return.LeaderRotation \<Rightarrow> Some TxCreatorLeaderRotation | _ \<Rightarrow> None)"

datatype retransmit_stage_return = RetransmitLeaderRotation u64

definition RetransmitStage_join :: "window_service_return option \<Rightarrow> retransmit_stage_return option" where
  "RetransmitStage_join r =
     (case r of Some (window_service_return.LeaderRotation h) \<Rightarrow> Some (RetransmitLeaderRotation h) | None \<Rightarrow> None)"

datatype tx_signer_return = TxSignerLeaderRotation u64

text \<open>The retransmitter: what is waiting is drained, and each blob is sent on; \<open>ks\<close> walks the table.\<close>

fun retransmit_each ::
    "pubkey codec \<Rightarrow> (bytes \<times> socket_addr \<Rightarrow> bool) \<Rightarrow> pubkey list \<Rightarrow> blockthread \<Rightarrow> blob list \<Rightarrow>
       ((broadcast_error + unit) \<times> (bytes \<times> socket_addr) list) panics" where
  "retransmit_each pk sent ks bt [] = Some (Inr (), [])"
| "retransmit_each pk sent ks bt (b # bs) = do {
     (r, ds, _) \<leftarrow> retransmit pk sent ks bt b;
     (case r of
        Inl err \<Rightarrow> Some (Inl err, ds)
      | Inr _ \<Rightarrow> do { (r, ds') \<leftarrow> retransmit_each pk sent ks bt bs; Some (r, ds @ ds') }) }"

definition stage_retransmit ::
    "pubkey codec \<Rightarrow> (bytes \<times> socket_addr \<Rightarrow> bool) \<Rightarrow> pubkey list \<Rightarrow> blockthread \<Rightarrow> blob list received \<Rightarrow> blob list list \<Rightarrow>
       ((broadcast_stage_error + unit) \<times> (bytes \<times> socket_addr) list) panics" where
  "stage_retransmit pk sent ks bt first queue =
     (case recv_timeout first of
        Inl err \<Rightarrow> Some (Inl (StageErr err), [])
      | Inr dq \<Rightarrow> map_option (map_prod (map_sum SendErr (\<lambda>x. x)) (\<lambda>x. x)) (retransmit_each pk sent ks bt (dq @ concat queue)))"

definition retransmitter_turn ::
    "pubkey codec \<Rightarrow> (bytes \<times> socket_addr \<Rightarrow> bool) \<Rightarrow> pubkey list \<Rightarrow> blockthread \<Rightarrow> blob list received \<Rightarrow> blob list list \<Rightarrow>
       (bool \<times> (bytes \<times> socket_addr) list) panics" where
  "retransmitter_turn pk sent ks bt first queue = do {
     (r, ds) \<leftarrow> stage_retransmit pk sent ks bt first queue;
     Some (r \<noteq> Inl (StageErr RecvDisconnected), ds) }"

definition TxSigner_join :: "retransmit_stage_return option \<Rightarrow> tx_signer_return option" where
  "TxSigner_join r = (case r of Some (RetransmitLeaderRotation h) \<Rightarrow> Some (TxSignerLeaderRotation h) | None \<Rightarrow> None)"

text \<open>The stages of a leader that have a state: the recorder of the processing stage, the write stage with
  its ledger recovered, and the broadcast stage.\<close>

record 'lib leader_services =
  ls_recorder :: "'lib recorder"
  ls_write :: "'lib write_stage"
  ls_broadcast :: broadcast_stage

definition voting_start :: "'lib tp \<Rightarrow> blockthread \<Rightarrow> 'lib voting" where
  "voting_start tp bt = \<lparr>vs_tp = tp, vs_bt = bt, vs_last_vote = 0, vs_last_valid_validator_timestamp = 0,
     vs_sent = [], vs_open = True\<rparr>"

definition TxCreator_new ::
    "ledger_ext \<Rightarrow> 'lib tp \<Rightarrow> blockthread \<Rightarrow> u64 \<Rightarrow> ledger_files \<Rightarrow> ('lib recorder \<times> 'lib write_stage \<times> ledger_files) panics" where
  "TxCreator_new lx tp bt entry_height fs = do {
     r \<leftarrow> PodRecorder_new tp;
     (case LedgerWriter_recover lx fs of
        (Inl _, fs) \<Rightarrow> None
      | (Inr lw, fs) \<Rightarrow> Some (r, \<lparr>ws_voting = voting_start tp bt, ws_writer = lw, ws_sent = [], ws_open = True,
          ws_entry_height = entry_height\<rparr>, fs)) }"

record 'lib validator_services =
  vd_replicate :: "'lib replicate_stage"
  vd_window :: service_state

definition window_service_start :: "window \<Rightarrow> u64 \<Rightarrow> service_state" where
  "window_service_start w entry_height =
     \<lparr>ss_recv = \<lparr>rs_window = w, rs_consumed = entry_height, rs_received = entry_height, rs_pending = False,
        rs_queue = [], rs_done = False\<rparr>, ss_last = entry_height, ss_times = 0\<rparr>"

definition TxSigner_new ::
    "'lib tp \<Rightarrow> blockthread \<Rightarrow> window \<Rightarrow> u64 \<Rightarrow> ledger_files \<Rightarrow> 'lib validator_services panics" where
  "TxSigner_new tp bt w entry_height fs =
     (case LedgerWriter_open False fs of
        Inl _ \<Rightarrow> None
      | Inr lw \<Rightarrow> Some \<lparr>vd_replicate = \<lparr>rs_voting = voting_start tp bt, rs_writer = Some lw\<rparr>,
          vd_window = window_service_start w entry_height\<rparr>)"

section \<open>The node\<close>

datatype 'lib node_role = Leader "'lib leader_services" | Validator "'lib validator_services"

record 'lib fullnode =
  fn_role :: "'lib node_role option"
  fn_pubkey :: pubkey
  fn_tp :: "'lib tp"
  fn_bt :: blockthread
  fn_window :: window
  fn_files :: ledger_files

definition new_transaction_processor_from_ledger ::
    "ledger_ext \<Rightarrow> 'lib tp_ext \<Rightarrow> ledger_files \<Rightarrow> ('lib tp \<times> nat \<times> entry list \<times> ledger_files) panics" where
  "new_transaction_processor_from_ledger lx px fs =
     (case read_ledger lx True fs of
        (Inl _, fs) \<Rightarrow> None
      | (Inr data, fs) \<Rightarrow> do {
          entries \<leftarrow> collect_entries lx data;
          (tp, r) \<leftarrow> process_ledger px entries (tp_new_default False);
          (case r of Inl _ \<Rightarrow> None | Inr (entry_height, ledger_tail) \<Rightarrow> Some (tp, entry_height, ledger_tail, fs)) })"

definition start_leader ::
    "ledger_ext \<Rightarrow> u64 \<Rightarrow> 'lib fullnode \<Rightarrow> 'lib fullnode panics" where
  "start_leader lx entry_height fn = do {
     (r, ws, fs) \<leftarrow> TxCreator_new lx (fn_tp fn) (fn_bt fn) entry_height (fn_files fn);
     Some (fn\<lparr>fn_role := Some (Leader \<lparr>ls_recorder = r, ls_write = ws,
       ls_broadcast = BroadcastStage_start (fn_window fn) entry_height\<rparr>), fn_files := fs\<rparr>) }"

definition start_validator :: "u64 \<Rightarrow> 'lib fullnode \<Rightarrow> 'lib fullnode panics" where
  "start_validator entry_height fn = do {
     vd \<leftarrow> TxSigner_new (fn_tp fn) (fn_bt fn) (fn_window fn) entry_height (fn_files fn);
     Some (fn\<lparr>fn_role := Some (Validator vd)\<rparr>) }"

text \<open>\<open>now\<close> is the clock read by the table of nodes.\<close>

definition new_with_transaction_processor ::
    "ledger_ext \<Rightarrow> entry_ext \<Rightarrow> u64 \<Rightarrow> pubkey \<Rightarrow> 'lib tp \<Rightarrow> u64 \<Rightarrow> entry list \<Rightarrow> node_info \<Rightarrow> node_info option \<Rightarrow>
       ledger_files \<Rightarrow> u64 option \<Rightarrow> 'lib fullnode panics" where
  "new_with_transaction_processor lx ee now key tp entry_height ledger_tail node leader_info fs leader_rotation_interval = do {
     let node = (if leader_info = None then node\<lparr>ni_leader_id := ni_id node\<rparr> else node);
     window \<leftarrow> new_window_from_entries ee ledger_tail entry_height node;
     bt \<leftarrow> (case BlockThread_new node of Inl _ \<Rightarrow> None | Inr bt \<Rightarrow> Some bt);
     let bt = (case leader_rotation_interval of Some n \<Rightarrow> set_leader_rotation_interval n bt | None \<Rightarrow> bt);
     let fn = \<lparr>fn_role = None, fn_pubkey = key, fn_tp = tp, fn_bt = bt, fn_window = window, fn_files = fs\<rparr>;
     (case leader_info of
        Some l \<Rightarrow> start_validator entry_height (fn\<lparr>fn_bt := snd (insert_node now l bt)\<rparr>)
      | None \<Rightarrow> start_leader lx entry_height fn) }"

definition Fullnode_new ::
    "ledger_ext \<Rightarrow> 'lib tp_ext \<Rightarrow> u64 \<Rightarrow> pubkey \<Rightarrow> node_info \<Rightarrow> socket_addr option \<Rightarrow> ledger_files \<Rightarrow> u64 option \<Rightarrow>
       'lib fullnode panics" where
  "Fullnode_new lx px now key node leader_addr fs leader_rotation_interval = do {
     (tp, entry_height, ledger_tail, fs) \<leftarrow> new_transaction_processor_from_ledger lx px fs;
     new_with_transaction_processor lx (px_entry px) now key tp (of_nat entry_height) ledger_tail node
       (map_option new_entry_point leader_addr) fs leader_rotation_interval }"

definition leader_to_validator :: "ledger_ext \<Rightarrow> 'lib tp_ext \<Rightarrow> u64 \<Rightarrow> 'lib fullnode \<Rightarrow> 'lib fullnode panics" where
  "leader_to_validator lx px now fn = do {
     (tp, entry_height, _, fs) \<leftarrow> new_transaction_processor_from_ledger lx px (fn_files fn);
     scheduled_leader \<leftarrow> get_scheduled_leader (of_nat entry_height) (fn_bt fn);
     bt \<leftarrow> (case scheduled_leader of None \<Rightarrow> Some (fn_bt fn) | Some leader_id \<Rightarrow> set_leader now leader_id (fn_bt fn));
     start_validator (of_nat entry_height) (fn\<lparr>fn_tp := tp, fn_bt := bt, fn_files := fs\<rparr>) }"

definition validator_to_leader :: "ledger_ext \<Rightarrow> u64 \<Rightarrow> u64 \<Rightarrow> 'lib fullnode \<Rightarrow> 'lib fullnode panics" where
  "validator_to_leader lx now entry_height fn = do {
     bt \<leftarrow> set_leader now (fn_pubkey fn) (fn_bt fn);
     start_leader lx entry_height (fn\<lparr>fn_bt := bt\<rparr>) }"

datatype fullnode_return = FullnodeLeaderRotation

text \<open>What the services of a role leave in the state they share with the node when they have ended.  A
  writer that is dropped writes out its buffer.\<close>

definition leave_role :: "'lib fullnode \<Rightarrow> 'lib fullnode" where
  "leave_role fn =
     (case fn_role fn of
        Some (Leader ls) \<Rightarrow> fn\<lparr>fn_role := None, fn_tp := rec_tp (ls_recorder ls), fn_bt := vs_bt (ws_voting (ls_write ls)),
          fn_window := bs_window (ls_broadcast ls), fn_files := files_of (index_flush (ws_writer (ls_write ls)))\<rparr>
      | Some (Validator vd) \<Rightarrow> fn\<lparr>fn_role := None, fn_tp := vs_tp (rs_voting (vd_replicate vd)),
          fn_bt := vs_bt (rs_voting (vd_replicate vd)), fn_window := rs_window (ss_recv (vd_window vd)),
          fn_files := (case rs_writer (vd_replicate vd) of None \<Rightarrow> fn_files fn | Some lw \<Rightarrow> files_of (index_flush lw))\<rparr>
      | None \<Rightarrow> fn)"

text \<open>\<open>leader_end\<close> and \<open>validator_end\<close> are what the write stage and the window service returned.\<close>

definition handle_role_transition ::
    "ledger_ext \<Rightarrow> 'lib tp_ext \<Rightarrow> u64 \<Rightarrow> write_stage_return \<Rightarrow> window_service_return option \<Rightarrow> 'lib fullnode \<Rightarrow>
       (fullnode_return option \<times> 'lib fullnode) panics" where
  "handle_role_transition lx px now leader_end validator_end fn =
     (case fn_role fn of
        Some (Leader _) \<Rightarrow>
          (case TxCreator_join leader_end of
             Some TxCreatorLeaderRotation \<Rightarrow> do {
               fn \<leftarrow> leader_to_validator lx px now (leave_role fn);
               Some (Some FullnodeLeaderRotation, fn) }
           | None \<Rightarrow> Some (None, leave_role fn))
      | Some (Validator _) \<Rightarrow>
          (case TxSigner_join (RetransmitStage_join validator_end) of
             Some (TxSignerLeaderRotation entry_height) \<Rightarrow> do {
               fn \<leftarrow> validator_to_leader lx now entry_height (leave_role fn);
               Some (Some FullnodeLeaderRotation, fn) }
           | None \<Rightarrow> Some (None, leave_role fn))
      | None \<Rightarrow> Some (None, fn))"

definition fullnode_join ::
    "write_stage_return \<Rightarrow> window_service_return option \<Rightarrow> 'lib fullnode \<Rightarrow> fullnode_return option" where
  "fullnode_join leader_end validator_end fn =
     (case fn_role fn of
        Some (Validator _) \<Rightarrow>
          (case TxSigner_join (RetransmitStage_join validator_end) of
             Some (TxSignerLeaderRotation _) \<Rightarrow> Some FullnodeLeaderRotation | None \<Rightarrow> None)
      | Some (Leader _) \<Rightarrow>
          (case TxCreator_join leader_end of Some TxCreatorLeaderRotation \<Rightarrow> Some FullnodeLeaderRotation | None \<Rightarrow> None)
      | None \<Rightarrow> None)"

definition fn_set_scheduled_leader :: "pubkey \<Rightarrow> u64 \<Rightarrow> 'lib fullnode \<Rightarrow> 'lib fullnode" where
  "fn_set_scheduled_leader leader_id entry_height fn = fn\<lparr>fn_bt := set_scheduled_leader entry_height leader_id (fn_bt fn)\<rparr>"


section \<open>Replaying a ledger\<close>

lemma map_sum_eq_Inr: "map_sum f g x = Inr y \<longleftrightarrow> (\<exists>z. x = Inr z \<and> y = g z)"
  by (cases x) auto

lemma not_Inl_unit: "(\<forall>err. r \<noteq> Inl err) \<longleftrightarrow> r = Inr ()"
  by (cases r) auto

lemma process_entries_tail_ok:
  "(\<exists>t i. process_entries_tail px es tail idx st = Some (st', t, i, Inr n)) \<longleftrightarrow>
     n = length es \<and> process_entries px es st = Some (st', Inr ())"
proof (induction es arbitrary: st tail idx n)
  case (Cons e es)
  show ?case
  proof (cases "process_entry px e st")
    case (Some p)
    obtain st1 r where p: "p = (st1, r)" by (cases p)
    let ?t = "if idx < length tail then tail[idx := e] else tail @ [e]" and ?i = "(idx + 1) mod WINDOW_SIZE"
    show ?thesis
    proof (cases r)
      case (Inr u)
      have "(\<exists>t i. process_entries_tail px (e # es) tail idx st = Some (st', t, i, Inr n)) \<longleftrightarrow>
          (\<exists>m. n = Suc m \<and> (\<exists>t i. process_entries_tail px es ?t ?i st1 = Some (st', t, i, Inr m)))"
        using Some p Inr by (auto simp: bind_eq_Some_conv map_sum_eq_Inr Let_def)
      then show ?thesis using Some p Inr unfolding Cons.IH by auto
    qed (use Some p in \<open>auto simp: Let_def\<close>)
  qed (simp add: Let_def)
qed auto


lemma process_entries_Cons_ok:
  "process_entries px (e # es) st = Some (st', Inr ()) \<longleftrightarrow>
     (\<exists>st1. process_entry px e st = Some (st1, Inr ()) \<and> process_entries px es st1 = Some (st', Inr ()))"
proof (cases "process_entry px e st")
  case (Some p)
  obtain st1 r where "p = (st1, r)" by (cases p)
  then show ?thesis using Some by (cases r) auto
qed simp

lemma process_entries_append_ok:
  "process_entries px (es @ fs) st = Some (st', Inr ()) \<longleftrightarrow>
     (\<exists>st1. process_entries px es st = Some (st1, Inr ()) \<and> process_entries px fs st1 = Some (st', Inr ()))"
proof (induction es arbitrary: st)
  case (Cons e es)
  show ?case unfolding append_Cons process_entries_Cons_ok Cons.IH by blast
qed simp

lemma process_block_list_step:
  assumes "b \<noteq> []"
  shows "(\<exists>t i. process_block_list px h (b # blocks) c tail idx st = Some (st', t, i, Inr n)) \<longleftrightarrow>
      block_verify (px_entry px) b h \<and> (\<exists>st1 m t1 i1. process_entries_tail px b tail idx st = Some (st1, t1, i1, Inr m) \<and>
        (\<exists>t i. process_block_list px (entry_id (last b)) blocks (c + m) t1 i1 st1 = Some (st', t, i, Inr n)))"
proof (cases "process_entries_tail px b tail idx st")
  case (Some p)
  obtain st1 t1 i1 r where "p = (st1, t1, i1, r)" by (cases p)
  then show ?thesis using Some assms by (cases r) auto
qed (simp add: assms)

lemma process_block_list_ok:
  assumes "\<forall>b \<in> set blocks. b \<noteq> []"
  shows "(\<exists>t i. process_block_list px h blocks c tail idx st = Some (st', t, i, Inr n)) \<longleftrightarrow>
     n = c + length (concat blocks) \<and> block_verify (px_entry px) (concat blocks) h \<and>
     process_entries px (concat blocks) st = Some (st', Inr ())"
  using assms
proof (induction blocks arbitrary: h c tail idx st)
  case (Cons b blocks)
  have "(\<exists>t i. process_block_list px h (b # blocks) c tail idx st = Some (st', t, i, Inr n)) \<longleftrightarrow>
      block_verify (px_entry px) b h \<and> (\<exists>st1 m t1 i1. process_entries_tail px b tail idx st = Some (st1, t1, i1, Inr m) \<and>
        (\<exists>t i. process_block_list px (entry_id (last b)) blocks (c + m) t1 i1 st1 = Some (st', t, i, Inr n)))"
    by (rule process_block_list_step) (use Cons.prems in simp)
  also have "\<dots> \<longleftrightarrow> block_verify (px_entry px) b h \<and> (\<exists>st1 m. (\<exists>t1 i1. process_entries_tail px b tail idx st = Some (st1, t1, i1, Inr m)) \<and>
        n = c + m + length (concat blocks) \<and> block_verify (px_entry px) (concat blocks) (entry_id (last b)) \<and>
        process_entries px (concat blocks) st1 = Some (st', Inr ()))"
    using Cons.IH Cons.prems by simp
  also have "\<dots> \<longleftrightarrow> n = c + length (concat (b # blocks)) \<and> block_verify (px_entry px) (concat (b # blocks)) h \<and>
     process_entries px (concat (b # blocks)) st = Some (st', Inr ())"
    using Cons.prems unfolding process_entries_tail_ok by (auto simp: block_verify_append process_entries_append_ok)
  finally show ?case .
qed auto

lemma process_blocks_ok:
  "(\<exists>t i. process_blocks px h es tail idx st = Some (st', t, i, Inr n)) \<longleftrightarrow>
     n = idx + length es \<and> block_verify (px_entry px) es h \<and> process_entries px es st = Some (st', Inr ())"
  unfolding process_blocks_def
  by (subst process_block_list_ok) (auto simp: VERIFY_BLOCK_SIZE_def concat_chunks dest: chunks_nonempty)

text \<open>A ledger that replays can be extended by entries that continue its chain and that its state accepts.\<close>

lemma process_entries_last_id:
  assumes "process_entries px es st = Some (st', Inr ())"
  shows "tp_last_id st' = (if es = [] then tp_last_id st else Some (entry_id (last es)))"
  using assms
proof (induction es arbitrary: st)
  case (Cons e es)
  then obtain st1 where 1: "process_entry px e st = Some (st1, Inr ())" "process_entries px es st1 = Some (st', Inr ())"
    unfolding process_entries_Cons_ok by blast
  then have "tp_last_id st1 = Some (entry_id e)"
    by (auto simp: process_entry_def bind_eq_Some_conv not_Inl_unit split: sum.splits if_splits)
  then show ?case using Cons.IH [OF 1(2)] by auto
qed simp

lemma process_ledger_extends:
  assumes "process_ledger px es st = Some (L, Inr (h, tail))"
    and "block_verify (px_entry px) fs (entry_id (last es))" "process_entries px fs L = Some (V, Inr ())"
  shows "h = length es" "tp_last_id L = Some (entry_id (last es))"
    and "\<exists>tail. process_ledger px (es @ fs) st = Some (V, Inr (length (es @ fs), tail))"
proof -
  obtain e0 e1 rest where es: "es = e0 # e1 # rest" using assms(1) by (auto simp: process_ledger_def split: list.splits)
  obtain tx inst where 1: "get_at (transactions e1) 0 = Some tx" "SystemProgram_check_id (tx_program_id tx)"
    "dec (tc_system (ee_tx (px_entry px))) (tx_userdata tx) = Some inst"
    using assms(1) by (auto simp: es process_ledger_def bind_eq_Some_conv split: if_splits)
  then obtain deposit where "inst = Move deposit"
    using assms(1) by (cases inst) (simp_all add: es process_ledger_def)
  then obtain k0 where tx: "get_at (transactions e1) 0 = Some tx" "SystemProgram_check_id (tx_program_id tx)"
    "dec (tc_system (ee_tx (px_entry px))) (tx_userdata tx) = Some (Move deposit)" "get_at (tx_keys tx) 0 = Some k0"
    using assms(1) 1 by (auto simp: es process_ledger_def bind_eq_Some_conv)
  define st0 where "st0 = register_entry_id px (entry_id e1) (register_entry_id px (entry_id e0)
    (st\<lparr>tp_accounts := (tp_accounts st)(k0 \<mapsto> (entry_or_default (tp_accounts st) k0)\<lparr>tokens := tokens (entry_or_default (tp_accounts st) k0) + deposit\<rparr>)\<rparr>))"
  have run: "process_ledger px (e0 # e1 # more) st = do {
      (st, tail, tail_idx, r) \<leftarrow> process_blocks px (entry_id e1) more [e0, e1] 2 st0;
      (case r of Inl err \<Rightarrow> Some (st, Inl err)
       | Inr entry_count \<Rightarrow> Some (st, Inr (entry_count, if length tail = WINDOW_SIZE then rotate tail_idx tail else tail))) }" for more
    using tx by (simp add: process_ledger_def st0_def Let_def)
  have ok: "(\<exists>t. process_ledger px (e0 # e1 # more) st = Some (V, Inr (n, t))) \<longleftrightarrow>
      n = 2 + length more \<and> block_verify (px_entry px) more (entry_id e1) \<and> process_entries px more st0 = Some (V, Inr ())" for more n V
    unfolding process_blocks_ok [symmetric, where tail = "[e0, e1]"]
  proof (cases "process_blocks px (entry_id e1) more [e0, e1] 2 st0")
    case (Some p)
    obtain st1 t1 i1 r where "p = (st1, t1, i1, r)" by (cases p)
    then show "(\<exists>t. process_ledger px (e0 # e1 # more) st = Some (V, Inr (n, t))) \<longleftrightarrow>
        (\<exists>t i. process_blocks px (entry_id e1) more [e0, e1] 2 st0 = Some (V, t, i, Inr n))"
      using Some by (cases r) (auto simp: run)
  qed (simp add: run)
  have L: "h = 2 + length rest" "block_verify (px_entry px) rest (entry_id e1)" "process_entries px rest st0 = Some (L, Inr ())"
    using assms(1) ok [of rest L h] by (auto simp: es)
  show "h = length es" using L(1) by (simp add: es)
  show "tp_last_id L = Some (entry_id (last es))"
    using process_entries_last_id [OF L(3)] by (simp add: es st0_def)
  have "\<exists>t. process_ledger px (e0 # e1 # rest @ fs) st = Some (V, Inr (2 + length (rest @ fs), t))"
    using ok [of "rest @ fs" V] L(2,3) assms(2,3) by (auto simp: block_verify_append process_entries_append_ok es)
  then show "\<exists>tail. process_ledger px (es @ fs) st = Some (V, Inr (length (es @ fs), tail))" by (simp add: es)
qed

lemma sample_transfer_size:
  assumes "transactions e = [sample_transfer] \<or> transactions e = []"
  shows "entry_size (px_entry sample_px) e \<le> BLOB_DATA_SIZE"
proof (cases e)
  case (fields n h txs)
  have "length (put transaction_wire sample_transfer) \<le> 1000"
    by (simp add: transaction_wire_def iso_wire_def pair_wire_def list_wire_def sample_transfer_def sample_system_tx_def
        signature_wire_def pubkey_wire_def hash_wire_def bytes_wire_def system_program_wire_def tagged_def length_concat comp_def sum_list_triv)
  then show ?thesis using assms fields by (auto simp: sample_px_def entry_wire_size BLOB_DATA_SIZE_eq)
qed

section \<open>Changing roles\<close>

lemma leader_step_any:
  assumes "(leader_step px txc ok ^^ n) r0 r"
  shows "(leader_step px txc (\<lambda>_. True) ^^ n) r0 r"
proof -
  have "leader_step px txc (\<lambda>_. True) r r'" if "leader_step px txc ok r r'" for r r'
    using that
    by (cases rule: leader_step.cases)
      (auto intro: leader_step.intros simp: brings_only_def list_all_iff split: received.splits option.splits)
  then show ?thesis using relpowp_mono [of "leader_step px txc ok"] assms by blast
qed

text \<open>The processor rebuilt from a ledger that holds what the leader recorded agrees with the leader's.\<close>

lemma ledger_rebuilds_leader:
  fixes L :: "'lib tp"
  assumes "process_ledger px es (tp_new_default False) = Some (L, Inr (h, tail))"
    and "PodRecorder_new L = Some r0" "(leader_step px txc (fee_ok px) ^^ n) r0 r" "n < 2 ^ 64" "solvent (tp_accounts L)"
    and "ledger_format lx" "ledger = es @ concat (rec_sent r)" "length (data_of lx ledger) < 2 ^ 63"
    and "fs = \<lparr>index_file = Some (index_of lx ledger), data_file = Some (data_of lx ledger)\<rparr>"
  shows "\<exists>V tail. new_transaction_processor_from_ledger lx px fs = Some (V, length ledger, tail, fs) \<and> replica (rec_tp r) V"
proof -
  have "replayed px L 0 r0"
    using assms(2,5) by (auto simp: PodRecorder_new_def bind_eq_Some_conv replayed_def)
  then have "replayed px L n r" by (rule replay.run_keeps [OF assms(3) order_refl])
  then obtain V where V: "process_entries px (concat (rec_sent r)) L = Some (V, Inr ())" "replica (rec_tp r) V"
    by (auto simp: replayed_def)
  have last: "tp_last_id L = Some (entry_id (last es))"
    using process_ledger_extends(2) [OF assms(1), of "[]"] by simp
  then have "r0 = \<lparr>rec_pod = Pod_new (entry_id (last es)), rec_tp = L, rec_sent = [], rec_open = True\<rparr>"
    using assms(2) by (auto simp: PodRecorder_new_def bind_eq_Some_conv)
  then have "chained px (entry_id (last es)) 0 r0" using last by (simp add: chained_def Pod_new_def last_entry_id_def)
  then have "chained px (entry_id (last es)) n r" using chain.run_keeps [OF leader_step_any [OF assms(3)]] assms(4) by simp
  then have "block_verify (px_entry px) (concat (rec_sent r)) (entry_id (last es))" by (simp add: chained_def)
  then obtain t where t: "process_ledger px ledger (tp_new_default False) = Some (V, Inr (length ledger, t))"
    using process_ledger_extends(3) [OF assms(1) _ V(1)] assms(7) by blast
  then have "ledger \<noteq> []" by (auto simp: process_ledger_def)
  then have "recover_ledger lx fs = (Inr (), fs)"
    using ledger_format.recover_written [OF assms(6,8), of "length ledger" "8 * length ledger" "length (data_of lx ledger)"]
      ledger_format.index_length [OF assms(6), of ledger] by (simp add: assms(9))
  then show ?thesis
    using t V(2) ledger_format.collect_data [OF assms(6,8)]
    by (auto simp: new_transaction_processor_from_ledger_def read_ledger_def open_file_def assms(9))
qed


definition sample_ledger :: "entry list" where
  "sample_ledger = [\<lparr>num_hashes = 0, entry_id = Hash 0, transactions = []\<rparr>,
     \<lparr>num_hashes = 0, entry_id = Hash 1, transactions = [sample_transfer]\<rparr>]"

lemma sample_ledger_processed:
  "\<exists>L. process_ledger sample_px sample_ledger (tp_new_default False) = Some (L, Inr (2, sample_ledger)) \<and>
    tp_last_id L = Some (Hash 1) \<and> solvent (tp_accounts L)"
proof -
  have "dec (tc_system (ee_tx (px_entry sample_px))) (tx_userdata sample_transfer) = Some (Move 4)"
    using sample_move unfolding sample_transfer_def is_move_def by blast
  moreover have "tx_keys sample_transfer = [Pubkey 21, Pubkey 22]" "tx_program_id sample_transfer = SystemProgram_id"
    by (simp_all add: sample_transfer_def sample_system_tx_def)
  ultimately show ?thesis
    by (simp add: process_ledger_def sample_ledger_def process_blocks_def WINDOW_SIZE_eq get_at_def
        SystemProgram_check_id_iff solvent_def tp_new_default_def tp_default_def entry_or_default_def Account_default_def Let_def)
qed

text \<open>A leader that has ticked once since it started from this ledger.\<close>

definition sample_leader :: "unit recorder \<Rightarrow> entry list \<Rightarrow> unit fullnode" where
  "sample_leader r es =
     (let lw = \<lparr>lw_index = index_of bincode_ledger_ext es, lw_index_buf = [], lw_data = data_of bincode_ledger_ext es\<rparr>;
          fs = files_of lw in
      \<lparr>fn_role = Some (Leader \<lparr>ls_recorder = r, ls_write = \<lparr>ws_voting = voting_start (rec_tp r) sample_node,
         ws_writer = lw, ws_sent = [], ws_open = True, ws_entry_height = of_nat (length es)\<rparr>,
         ls_broadcast = BroadcastStage_start default_window (of_nat (length es))\<rparr>),
       fn_pubkey = Pubkey 3, fn_tp = rec_tp r, fn_bt = sample_node, fn_window = default_window, fn_files = fs\<rparr>)"


end
