(* ===== verification/Sigverify.thy ===== *)
theory Sigverify
  imports Recording Network
begin

text \<open>
  Checking signatures in front of the leader's processing stage (src/sigverify.rs,
  src/sigverify_stage.rs).

  The check works on the raw bytes of a packet, at the offsets where the encoding of a transaction has
  its signature, its first key and the data signed.  What makes this right is the layout of the
  encoding, which \<open>signed_layout\<close> states and the bincode encoding has.  Ed25519 is a parameter, and so is
  the kernel that checks many packets on a graphics card.
\<close>

section \<open>Packets\<close>

definition SIGNED_DATA_OFFSET :: nat where "SIGNED_DATA_OFFSET = 64"
definition SIG_OFFSET :: nat where "SIG_OFFSET = 0"
definition PUB_KEY_OFFSET :: nat where "PUB_KEY_OFFSET = 64 + 8"
definition TX_OFFSET :: nat where "TX_OFFSET = 0"

definition verify_packet :: "'kp ed25519 \<Rightarrow> packet \<Rightarrow> u8 panics" where
  "verify_packet ring packet =
     (let msg_start = TX_OFFSET + SIGNED_DATA_OFFSET;
          sig_start = TX_OFFSET + SIG_OFFSET;
          sig_end = sig_start + 64;
          pubkey_start = TX_OFFSET + PUB_KEY_OFFSET;
          pubkey_end = pubkey_start + 32;
          msg_end = unat (meta_size (packet_meta packet))
      in if msg_end \<le> msg_start then Some 0
         else do {
           key \<leftarrow> subslice pubkey_start pubkey_end (packet_data packet);
           msg \<leftarrow> subslice msg_start msg_end (packet_data packet);
           sig \<leftarrow> subslice sig_start sig_end (packet_data packet);
           Some (if verify_bytes ring key msg sig then 1 else 0) })"

definition verify_packet_disabled :: "packet \<Rightarrow> u8" where
  "verify_packet_disabled _ = 1"

definition batch_size :: "packet list list \<Rightarrow> nat" where
  "batch_size batches = sum_list (map length batches)"

definition ed25519_verify_cpu :: "'kp ed25519 \<Rightarrow> packet list list \<Rightarrow> u8 list list panics" where
  "ed25519_verify_cpu ring batches =
     sequence_panics (map (\<lambda>p. sequence_panics (map (verify_packet ring) p)) batches)"

definition ed25519_verify :: "'kp ed25519 \<Rightarrow> packet list list \<Rightarrow> u8 list list panics" where
  "ed25519_verify ring batches = ed25519_verify_cpu ring batches"

definition ed25519_verify_disabled :: "packet list list \<Rightarrow> u8 list list" where
  "ed25519_verify_disabled batches = map (map verify_packet_disabled) batches"

text \<open>The results of the graphics card, one byte for each packet, are dealt out to the batches.\<close>

fun deal_out :: "nat list \<Rightarrow> u8 list \<Rightarrow> u8 list list" where
  "deal_out [] out = []"
| "deal_out (n # ns) out = take n out # deal_out ns (drop n out)"

definition ed25519_verify_cuda ::
    "'kp ed25519 \<Rightarrow> (packet list list \<Rightarrow> u8 list) \<Rightarrow> packet list list \<Rightarrow> u8 list list panics" where
  "ed25519_verify_cuda ring ed25519_verify_many batches =
     (if batch_size batches < 64 then ed25519_verify_cpu ring batches
      else Some (deal_out (map length batches) (ed25519_verify_many batches)))"

section \<open>The stage\<close>

definition verify_batch ::
    "'kp ed25519 \<Rightarrow> packet list list \<Rightarrow> bool \<Rightarrow> (packet list \<times> u8 list) list panics" where
  "verify_batch ring batch sigverify_disabled =
     map_option (zip batch)
       (if sigverify_disabled then Some (ed25519_verify_disabled batch) else ed25519_verify ring batch)"

text \<open>One turn: what is sent on, if anything, and the packets left in the channel.  \<open>alive\<close> is whether
  the receiver of the verified packets is still there.\<close>

definition verifier ::
    "'kp ed25519 \<Rightarrow> bool \<Rightarrow> bool \<Rightarrow> packet list received \<Rightarrow> packet list list \<Rightarrow>
       ((stage_error + (packet list \<times> u8 list) list) \<times> packet list list) panics" where
  "verifier ring sigverify_disabled alive r queue =
     (case recv_batch r queue of
        Inl e \<Rightarrow> Some (Inl e, queue)
      | Inr (batch, len, left) \<Rightarrow> do {
          verified_batch \<leftarrow> verify_batch ring batch sigverify_disabled;
          Some (if alive then Inr verified_batch else Inl SendError, left) })"

definition verifier_continues :: "stage_error + 'a \<Rightarrow> bool" where
  "verifier_continues r \<longleftrightarrow> (case r of Inl RecvDisconnected \<Rightarrow> False | Inl SendError \<Rightarrow> False | _ \<Rightarrow> True)"

section \<open>The layout of a transaction\<close>

locale signed_layout =
  fixes txc :: "transaction codec" and tc :: tx_ext
  assumes enc_layout: "enc txc tx = signature_as_ref (tx_signature tx) @ get_sign_data tc tx"
    and keys_layout: "enc (tc_keys tc) ks = le_bytes 8 (of_nat (length ks) :: u64) @ concat (map pubkey_as_ref ks)"
    and program_layout: "enc (tc_pubkey tc) k = pubkey_as_ref k"
    and dec_layout: "dec txc bs = Some tx \<Longrightarrow> \<exists>rest. bs = enc txc tx @ rest"
begin

lemma signature_bytes: "length (signature_as_ref s) = 64"
  by (cases s) simp

lemma key_bytes: "length (pubkey_as_ref k) = 32"
  by (cases k) simp

text \<open>The bytes at the offset of the first key: the key, or the program id when there is no key.\<close>

lemma key_at_offset:
  "subslice 72 104 (enc txc tx @ rest) = Some (pubkey_as_ref (case tx_keys tx of k # _ \<Rightarrow> k | [] \<Rightarrow> tx_program_id tx))"
proof -
  obtain tail where tail: "enc txc tx @ rest = (signature_as_ref (tx_signature tx) @ le_bytes 8 (of_nat (length (tx_keys tx)) :: u64)) @
      pubkey_as_ref (case tx_keys tx of k # _ \<Rightarrow> k | [] \<Rightarrow> tx_program_id tx) @ tail"
    by (cases "tx_keys tx") (simp_all add: enc_layout get_sign_data_def keys_layout program_layout)
  show ?thesis
    unfolding tail by (simp add: subslice_def signature_bytes key_bytes)
qed

lemma signature_at_offset: "subslice 0 64 (enc txc tx @ rest) = Some (signature_as_ref (tx_signature tx))"
  by (simp add: enc_layout subslice_def signature_bytes)

lemma data_at_offset:
  "64 \<le> n \<Longrightarrow> n \<le> length (enc txc tx @ rest) \<Longrightarrow> length (enc txc tx) \<le> n \<Longrightarrow>
    subslice 64 n (enc txc tx @ rest) = Some (get_sign_data tc tx @ take (n - length (enc txc tx)) rest)"
  by (simp add: enc_layout subslice_def signature_bytes)

lemma enc_long: "104 \<le> length (enc txc tx)"
proof -
  have "length (get_sign_data tc tx) \<ge> 8 + 32"
    by (cases "tx_keys tx") (simp_all add: get_sign_data_def keys_layout program_layout key_bytes)
  then show ?thesis by (simp add: enc_layout signature_bytes)
qed

text \<open>The check of a packet that begins with a transaction: it is the check of the transaction's signature
  over the data to sign and whatever follows in the packet.\<close>

lemma verify_packet_eq:
  assumes "subslice 0 (unat (meta_size (packet_meta p))) (packet_data p) = Some (enc txc tx @ rest)"
  shows "verify_packet ring p = Some (if Signature_verify ring (tx_signature tx)
      (pubkey_as_ref (case tx_keys tx of k # _ \<Rightarrow> k | [] \<Rightarrow> tx_program_id tx)) (get_sign_data tc tx @ rest) then 1 else 0)"
proof -
  let ?n = "unat (meta_size (packet_meta p))"
  obtain more where data: "packet_data p = enc txc tx @ rest @ more" and n: "?n = length (enc txc tx @ rest)"
  proof (rule that)
    have cut: "enc txc tx @ rest = take ?n (packet_data p)" "?n \<le> length (packet_data p)"
      using assms by (simp_all add: subslice_def split: if_splits)
    show "packet_data p = enc txc tx @ rest @ drop ?n (packet_data p)"
      using cut(1) append_take_drop_id [of ?n "packet_data p"] by (metis append_assoc)
    show "?n = length (enc txc tx @ rest)" using cut(2) unfolding cut(1) by simp
  qed
  have big: "104 \<le> ?n" using n enc_long [of tx] by simp
  have "subslice 64 ?n (packet_data p) = Some (get_sign_data tc tx @ rest)"
    using data_at_offset [of ?n tx "rest @ more"] big n unfolding data by simp
  then show ?thesis
    using key_at_offset [of tx "rest @ more"] signature_at_offset [of tx "rest @ more"] big unfolding data [symmetric]
    by (simp add: verify_packet_def Let_def TX_OFFSET_def SIG_OFFSET_def SIGNED_DATA_OFFSET_def PUB_KEY_OFFSET_def Signature_verify_def)
qed

end

section \<open>The bincode layout\<close>

text \<open>Every value has one encoding: what decodes begins with the encoding of the result.\<close>

definition canonical :: "'a wire \<Rightarrow> bool" where
  "canonical w \<longleftrightarrow> (\<forall>bs x r. get w bs = Some (x, r) \<longrightarrow> bs = put w x @ r)"

lemma canonical_word: "LENGTH('a) = 8 * n \<Longrightarrow> canonical (word_wire n :: 'a::len word wire)"
proof -
  assume n: "LENGTH('a) = 8 * n"
  have "le_bytes n (le_word (take n bs) :: 'a word) = take n bs" if "n \<le> length bs" for bs
    using le_bytes_le_word [of "take n bs", where 'a = 'a] n that by simp
  then show ?thesis by (auto simp: canonical_def word_wire_def split: if_splits)
qed

lemma canonical_iso: "canonical w \<Longrightarrow> (\<And>x. g (f x) = x) \<Longrightarrow> canonical (iso_wire f g w)"
  by (auto simp: canonical_def iso_wire_def)

lemma canonical_pair: "canonical v \<Longrightarrow> canonical w \<Longrightarrow> canonical (pair_wire v w)"
  by (auto simp: canonical_def pair_wire_def bind_eq_Some_conv)

lemma get_many_canonical:
  assumes "canonical w" "get_many w n bs = Some (xs, r)"
  shows "bs = concat (map (put w) xs) @ r \<and> length xs = n"
  using assms(2)
proof (induction n arbitrary: bs xs)
  case (Suc n)
  then show ?case using assms(1) by (auto simp: canonical_def bind_eq_Some_conv)
qed simp

lemma canonical_list: "canonical w \<Longrightarrow> canonical (list_wire w)"
proof -
  assume w: "canonical w"
  have "bs = put (list_wire w) xs @ r" if g: "get (list_wire w) bs = Some (xs, r)" for bs xs r
  proof -
    obtain n r' where n: "get u64_wire bs = Some (n, r')" "get_many w (unat n) r' = Some (xs, r)"
      using g by (auto simp: list_wire_def bind_eq_Some_conv)
    have "bs = le_bytes 8 n @ r'" using n(1) canonical_word [where 'a = 64 and n = 8] by (auto simp: canonical_def)
    then show ?thesis using get_many_canonical [OF w n(2)] by (auto simp: list_wire_def)
  qed
  then show "canonical (list_wire w)" by (simp add: canonical_def)
qed

lemma canonical_transaction: "canonical transaction_wire"
proof -
  have words: "canonical (word_wire 32 :: 256 word wire)" "canonical (word_wire 64 :: 512 word wire)"
    "canonical u64_wire" "canonical u8_wire" by (rule canonical_word, simp)+
  have "canonical pubkey_wire" "canonical hash_wire" "canonical signature_wire" "canonical bytes_wire"
    unfolding pubkey_wire_def hash_wire_def signature_wire_def bytes_wire_def
    by (intro canonical_iso canonical_list words; simp)+
  then show ?thesis
    unfolding transaction_wire_def by (intro canonical_iso canonical_pair canonical_list words) (auto)
qed

interpretation bincode_signed: signed_layout "codec_of transaction_wire" bincode_tx_ext
proof
  have refs: "put pubkey_wire k = pubkey_as_ref k" "put signature_wire s = signature_as_ref s" for k s
    by (cases k; cases s; simp add: pubkey_wire_def signature_wire_def iso_wire_def)+
  show "enc (codec_of transaction_wire) tx = signature_as_ref (tx_signature tx) @ get_sign_data bincode_tx_ext tx" for tx
    by (simp add: transaction_wire_def iso_wire_def pair_wire_def get_sign_data_def bincode_tx_ext_def refs)
  show "enc (tc_keys bincode_tx_ext) ks = le_bytes 8 (of_nat (length ks) :: u64) @ concat (map pubkey_as_ref ks)" for ks
    by (simp add: bincode_tx_ext_def list_wire_def refs [abs_def])
  show "enc (tc_pubkey bincode_tx_ext) k = pubkey_as_ref k" for k by (simp add: bincode_tx_ext_def refs)
  show "\<exists>rest. bs = enc (codec_of transaction_wire) tx @ rest" if "dec (codec_of transaction_wire) bs = Some tx" for bs tx
    using that canonical_transaction by (auto simp: canonical_def)
qed

section \<open>What the stage promises\<close>

text \<open>C6: the check on the raw bytes is the check of the transaction: for a packet that holds the encoding
  of a transaction with at least one key, the byte that \<open>verify_packet\<close> returns is what
  \<open>Transaction::verify_signature\<close> returns.\<close>

theorem packet_check_is_signature_check:
  assumes "signed_layout txc tc" "tx_keys tx \<noteq> []"
    and "subslice 0 (unat (meta_size (packet_meta p))) (packet_data p) = Some (enc txc tx)"
  shows "\<exists>ok. verify_signature ring tc tx = Some ok \<and> verify_packet ring p = Some (if ok then 1 else 0)"
proof -
  obtain k ks where "tx_keys tx = k # ks" using assms(2) by (cases "tx_keys tx") simp_all
  then show ?thesis
    using signed_layout.verify_packet_eq [OF assms(1), of p tx "[]" ring] assms(3)
    by (simp add: verify_signature_def tx_from_def get_at_def)
qed

text \<open>The signer of a transaction has signed its data, possibly with more bytes behind them: decoding
  ignores what follows a transaction in its packet, and the check covers it.\<close>

definition first_key_signed :: "'kp ed25519 \<Rightarrow> tx_ext \<Rightarrow> transaction \<Rightarrow> bool" where
  "first_key_signed ring tc tx \<longleftrightarrow> (\<forall>k ks. tx_keys tx = k # ks \<longrightarrow>
     (\<exists>rest. Signature_verify ring (tx_signature tx) (pubkey_as_ref k) (get_sign_data tc tx @ rest)))"

lemma verified_packet_signed:
  assumes "signed_layout txc tc" "verify_packet ring p = Some v" "v \<noteq> 0"
    and "subslice 0 (unat (meta_size (packet_meta p))) (packet_data p) = Some bytes" "dec txc bytes = Some tx"
  shows "first_key_signed ring tc tx"
proof -
  obtain rest where rest: "bytes = enc txc tx @ rest" using signed_layout.dec_layout [OF assms(1,5)] by blast
  have "v = (if Signature_verify ring (tx_signature tx)
      (pubkey_as_ref (case tx_keys tx of k # _ \<Rightarrow> k | [] \<Rightarrow> tx_program_id tx)) (get_sign_data tc tx @ rest) then 1 else 0)"
    using signed_layout.verify_packet_eq [OF assms(1) assms(4) [unfolded rest], of ring] assms(2) by simp
  then show ?thesis using assms(3) by (auto simp: first_key_signed_def split: if_splits)
qed

lemma verified_batch_signed:
  assumes "signed_layout txc tc" "sequence_panics (map (verify_packet ring) msgs) = Some vers"
    and "deserialize_transactions txc msgs = Some reqs"
  shows "list_all (first_key_signed ring tc) (verified_transactions px reqs vers)"
proof -
  have len: "length vers = length msgs" "length reqs = length msgs"
    using sequence_panics_nth [OF assms(2)] sequence_panics_nth [OF assms(3) [unfolded deserialize_transactions_def]] by simp_all
  have "first_key_signed ring tc tx"
    if i: "i < length msgs" "reqs ! i = Some (tx, a)" "vers ! i \<noteq> 0" for i tx a
  proof -
    have v: "verify_packet ring (msgs ! i) = Some (vers ! i)" using sequence_panics_nth [OF assms(2)] i(1) by simp
    have "(subslice 0 (unat (meta_size (packet_meta (msgs ! i)))) (packet_data (msgs ! i)) \<bind>
        (\<lambda>bytes. Some (map_option (\<lambda>req. (req, Meta_addr (packet_meta (msgs ! i)))) (dec txc bytes)))) = Some (Some (tx, a))"
      using sequence_panics_nth [OF assms(3) [unfolded deserialize_transactions_def]] i by simp
    then obtain bytes where "subslice 0 (unat (meta_size (packet_meta (msgs ! i)))) (packet_data (msgs ! i)) = Some bytes"
      "dec txc bytes = Some tx" by (auto simp: bind_eq_Some_conv)
    then show ?thesis using verified_packet_signed [OF assms(1) v i(3)] by blast
  qed
  then show ?thesis
    using len by (auto simp: verified_transactions_def list_all_iff map_filter_def set_zip split: option.splits if_splits)
      (metis (no_types, lifting))
qed


text \<open>A transaction without keys has its program id where the check looks for the first key.\<close>

lemma keyless_panics: "tx_keys tx = [] \<Longrightarrow> process_transactions px (tx # txs) st = None"
  by (simp add: process_transactions_def load_account_def get_at_def)

lemma keyless_packet_verifies:
  assumes "ed25519_contract ring" "signed_layout txc tc" "keypair_pubkey ring kp = Some k"
    and "tx_sign ring tc kp \<lparr>tx_signature = Signature_default, tx_keys = [], tx_program_id = k, tx_last_id = l,
      tx_fee = f, tx_userdata = u\<rparr> = Some tx"
    and "subslice 0 (unat (meta_size (packet_meta p))) (packet_data p) = Some (enc txc tx)"
  shows "verify_packet ring p = Some 1"
proof -
  let ?tx0 = "\<lparr>tx_signature = Signature_default, tx_keys = [], tx_program_id = k, tx_last_id = l, tx_fee = f, tx_userdata = u\<rparr>"
  obtain s where s: "tx = ?tx0\<lparr>tx_signature := s\<rparr>" "signature_as_ref s = sign_bytes ring kp (get_sign_data tc ?tx0)"
    using tx_sign_Some [OF assms(1), of tc kp ?tx0] assms(4) by auto
  have data: "get_sign_data tc tx = get_sign_data tc ?tx0" unfolding s(1) by (simp add: get_sign_data_def)
  have "pubkey_as_ref k = public_key_bytes ring kp"
    using keypair_pubkey_bytes [OF assms(1), of kp] assms(3) by auto
  then have "Signature_verify ring (tx_signature tx) (pubkey_as_ref k) (get_sign_data tc tx)"
    using assms(1) s(2) unfolding data Signature_verify_def s(1)
    by (simp add: ed25519_contract_def get_sign_data_def)
  then show ?thesis
    using signed_layout.verify_packet_eq [OF assms(2), of p tx "[]" ring] assms(5) s(1) by simp
qed

text \<open>C8: anyone can stop a leader.  A transaction with no keys at all, whose program id is a key one
  holds and that is signed with it, passes the check of its packet; the processing stage then panics on
  it, because it looks at the transaction's first key.\<close>

theorem keyless_transaction_crashes_leader:
  assumes "ed25519_contract ring" "signed_layout txc (ee_tx (px_entry px))" "entry_codecs (px_entry px)"
    and "keypair_pubkey ring kp = Some k"
    and "tx_sign ring (ee_tx (px_entry px)) kp \<lparr>tx_signature = Signature_default, tx_keys = [], tx_program_id = k,
      tx_last_id = l, tx_fee = f, tx_userdata = u\<rparr> = Some tx"
    and "subslice 0 (unat (meta_size (packet_meta p))) (packet_data p) = Some (enc txc tx)" "dec txc (enc txc tx) = Some tx"
    and "verify_plan (ee_tx (px_entry px)) tx"
  shows "\<exists>verified. verify_batch ring [[p]] False = Some verified \<and> process_packets px txc (Message verified) r = Some None"
proof -
  have "verify_batch ring [[p]] False = Some [([p], [1])]"
    using keyless_packet_verifies [OF assms(1,2,4-6)] by (simp add: verify_batch_def ed25519_verify_def ed25519_verify_cpu_def)
  moreover have "deserialize_transactions txc [p] = Some [Some (tx, Meta_addr (packet_meta p))]"
    using assms(6,7) by (simp add: deserialize_transactions_def)
  moreover have "verified_transactions px [Some (tx, Meta_addr (packet_meta p))] [1] = [tx]"
    using assms(8) by (simp add: verified_transactions_def List.map_filter_simps)
  moreover obtain n where n: "num_will_fit (px_entry px) [tx] = Some n" "0 < n" "n \<le> length [tx]"
    using num_will_fit_progress [OF assms(3), of "[tx]"] by blast
  then have "num_will_fit (px_entry px) [tx] = Some 1" by (simp add: le_Suc_eq)
  moreover have keys: "tx_keys tx = []"
    using tx_sign_Some [OF assms(1)] assms(5) by (auto simp: tx_sign_def bind_eq_Some_conv)
  moreover have "process_chunk px [tx] r = None"
    by (simp add: process_chunk_def keyless_panics [OF keys])
  then have "stage_process_transactions px [tx] r = Some None"
    using calculation(4) by (subst stage_process_transactions.simps) simp
  ultimately show ?thesis by (auto simp: process_packets_def)
qed

section \<open>Samples\<close>

lemma packet_of_holds:
  assumes "packet_of c x = Some p" "length (enc c x) < 2 ^ 64"
  shows "subslice 0 (unat (meta_size (packet_meta p))) (packet_data p) = Some (enc c x)"
  using assms
  by (auto simp: packet_of_def bind_eq_Some_conv overwrite_def subslice_def unat_of_nat_small split: if_splits)

lemma packet_of_fits: "length (enc c x) \<le> PACKET_DATA_SIZE \<Longrightarrow> \<exists>p. packet_of c x = Some p"
  by (simp add: packet_of_def overwrite_def Packet_default_def)

theorem packet_check_witness:
  "\<exists>p ok. packet_of (codec_of transaction_wire) sample_transfer = Some p \<and>
    verify_signature sample_ring bincode_tx_ext sample_transfer = Some ok \<and>
    verify_packet sample_ring p = Some (if ok then 1 else 0)"
proof -
  have len: "length (put transaction_wire sample_transfer) \<le> 512"
    by (simp add: transaction_wire_def iso_wire_def pair_wire_def list_wire_def sample_transfer_def sample_system_tx_def
        signature_wire_def pubkey_wire_def hash_wire_def bytes_wire_def system_program_wire_def tagged_def length_concat comp_def sum_list_triv)
  then obtain p where p: "packet_of (codec_of transaction_wire) sample_transfer = Some p"
    using packet_of_fits [of "codec_of transaction_wire" sample_transfer] by (auto simp: PACKET_DATA_SIZE_def)
  have "length (enc (codec_of transaction_wire) sample_transfer) < 2 ^ 64" using len by simp
  from packet_check_is_signature_check [OF bincode_signed.signed_layout_axioms _ packet_of_holds [OF p this], of sample_ring]
  show ?thesis using p by (auto simp: sample_transfer_def sample_system_tx_def)
qed


theorem keyless_witness:
  "\<exists>p verified. verify_batch sample_ring [[p]] False = Some verified \<and>
    process_packets sample_px (codec_of transaction_wire) (Message verified)
      \<lparr>rec_pod = Pod_new (Hash 0), rec_tp = sample_tp, rec_sent = [], rec_open = True\<rparr> = Some None"
proof -
  let ?c = "codec_of transaction_wire"
  obtain k where k: "keypair_pubkey sample_ring 9 = Some k"
    using keypair_pubkey_bytes [OF sample_ring_contract] by blast
  let ?tx0 = "\<lparr>tx_signature = Signature_default, tx_keys = [], tx_program_id = k, tx_last_id = Hash 0, tx_fee = 0, tx_userdata = []\<rparr>"
  obtain s where s: "tx_sign sample_ring bincode_tx_ext 9 ?tx0 = Some (?tx0\<lparr>tx_signature := s\<rparr>)"
    using tx_sign_Some [OF sample_ring_contract] by blast
  let ?tx = "?tx0\<lparr>tx_signature := s\<rparr>"
  have len: "length (put transaction_wire ?tx) \<le> 512"
    by (cases k; cases s; simp add: transaction_wire_def iso_wire_def pair_wire_def list_wire_def signature_wire_def
        pubkey_wire_def hash_wire_def bytes_wire_def)
  then obtain p where p: "packet_of ?c ?tx = Some p"
    using packet_of_fits [of ?c ?tx] by (auto simp: PACKET_DATA_SIZE_def)
  have short: "length (enc ?c ?tx) < 2 ^ 64" "length (put transaction_wire ?tx) < 2 ^ 63" using len by simp_all
  have dec: "dec ?c (enc ?c ?tx) = Some ?tx"
    using wire_format.get_put [OF transaction_wire_format short(2), of "[]"] by simp
  have px: "ee_tx (px_entry sample_px) = bincode_tx_ext" "entry_codecs (px_entry sample_px)"
    by (simp_all add: sample_px_def bincode_entry_codecs)
  have plan: "verify_plan bincode_tx_ext ?tx"
    by (simp add: verify_plan_def tx_instruction_def bincode_tx_ext_def instruction_wire_def word_wire_def)
  show ?thesis
    using keyless_transaction_crashes_leader [OF sample_ring_contract bincode_signed.signed_layout_axioms [folded px(1)] px(2) k
        s [folded px(1)] packet_of_holds [OF p short(1)] dec plan [folded px(1)]] by blast
qed

end
