(* ===== verification/Erasure.thy ===== *)
theory Erasure
  imports Window
begin

text \<open>
  Erasure coding of blobs (src/erasure.rs), which the feature \<open>erasure\<close> adds to the window: every
  \<open>NUM_DATA\<close> data blobs get \<open>NUM_CODING\<close> coding blobs, and up to that many lost blobs of a block can be
  computed from the others.

  The C library jerasure is a parameter: its encoder, its decoder and its division in a Galois field,
  with the arguments the code passes.  A blob that several owners share is written back to its slot.
\<close>

section \<open>The model\<close>

type_synonym i32 = "32 word"

definition NUM_DATA :: nat where "NUM_DATA = 16"
definition NUM_CODING :: nat where "NUM_CODING = 4"
definition ERASURE_SET_SIZE :: nat where "ERASURE_SET_SIZE = NUM_DATA + NUM_CODING"
definition JERASURE_ALIGN :: u64 where "JERASURE_ALIGN = 4"
definition ERASURE_W :: i32 where "ERASURE_W = 32"

datatype erasure_error = NotEnoughBlocksToDecode | ErasureDecodeError | EncodeError | InvalidBlockSize

text \<open>The decoder returns a code and leaves its result in the blocks.\<close>

record jerasure =
  jerasure_matrix_encode :: "i32 \<Rightarrow> i32 \<Rightarrow> i32 \<Rightarrow> i32 list \<Rightarrow> bytes list \<Rightarrow> bytes list \<Rightarrow> i32 \<Rightarrow> bytes list"
  jerasure_matrix_decode :: "i32 \<Rightarrow> i32 \<Rightarrow> i32 \<Rightarrow> i32 list \<Rightarrow> i32 \<Rightarrow> i32 list \<Rightarrow> bytes list \<Rightarrow> bytes list \<Rightarrow> i32 \<Rightarrow>
    i32 \<times> bytes list \<times> bytes list"
  galois_single_divide :: "i32 \<Rightarrow> i32 \<Rightarrow> i32 \<Rightarrow> i32"

definition get_matrix :: "jerasure \<Rightarrow> i32 \<Rightarrow> i32 \<Rightarrow> i32 \<Rightarrow> i32 list" where
  "get_matrix je m k w =
     concat (map (\<lambda>i. map (\<lambda>j. galois_single_divide je 1 (of_int i XOR (m + of_int j)) w) [0..sint k - 1]) [0..sint m - 1])"

definition generate_coding_blocks :: "jerasure \<Rightarrow> bytes list \<Rightarrow> bytes list \<Rightarrow> erasure_error + bytes list" where
  "generate_coding_blocks je coding data =
     (case data of
        [] \<Rightarrow> Inr coding
      | first # _ \<Rightarrow>
          (let k = of_nat (length data); m = of_nat (length coding); block_len = of_nat (length first);
               matrix = get_matrix je m k ERASURE_W
           in if \<not> list_all (\<lambda>block. block_len = (of_nat (length block) :: i32)) data then Inl InvalidBlockSize
              else if \<not> list_all (\<lambda>block. block_len = (of_nat (length block) :: i32)) coding then Inl InvalidBlockSize
              else Inr (jerasure_matrix_encode je k m ERASURE_W matrix data coding block_len)))"

text \<open>The trace of the first recovered block reads its first eight bytes whether or not it is printed.\<close>

definition decode_blocks ::
    "jerasure \<Rightarrow> bytes list \<Rightarrow> bytes list \<Rightarrow> i32 list \<Rightarrow> ((erasure_error + unit) \<times> bytes list \<times> bytes list) panics" where
  "decode_blocks je data coding erasures =
     (case data of
        [] \<Rightarrow> Some (Inr (), data, coding)
      | first # _ \<Rightarrow>
          (let block_len = length first;
               matrix = get_matrix je (of_nat (length coding)) (of_nat (length data)) ERASURE_W
           in if \<not> list_all (\<lambda>x. length x = block_len) coding then Some (Inl InvalidBlockSize, data, coding)
              else if \<not> list_all (\<lambda>x. length x = block_len) data then Some (Inl InvalidBlockSize, data, coding)
              else (case jerasure_matrix_decode je (of_nat (length data)) (of_nat (length coding)) ERASURE_W matrix 0
                      erasures data coding (of_nat block_len) of
                (ret, data, coding) \<Rightarrow> do {
                  e \<leftarrow> get_at erasures 0;
                  block \<leftarrow> (if sint e < 0 then None else get_at data (nat (sint e)));
                  _ \<leftarrow> subslice 0 8 block;
                  Some (if sint ret < 0 then Inl ErasureDecodeError else Inr (), data, coding) })))"

text \<open>\<open>for i in a..e { data[i] = 0 }\<close>\<close>

definition zero_range :: "nat \<Rightarrow> nat \<Rightarrow> bytes \<Rightarrow> bytes panics" where
  "zero_range a e d = (if a < e then overwrite a (replicate (e - a) 0) d else Some d)"

text \<open>The loops over a range of the window: \<open>i % window.len()\<close> is the slot of \<open>i\<close>.\<close>

primrec each_slot ::
    "(nat \<Rightarrow> window_slot \<Rightarrow> ('r \<times> window_slot) panics) \<Rightarrow> nat list \<Rightarrow> window \<Rightarrow> ('r list \<times> window) panics" where
  "each_slot f [] w = Some ([], w)"
| "each_slot f (i # is) w = do {
     s \<leftarrow> get_at w (i mod length w);
     (r, s) \<leftarrow> f i s;
     (rs, w) \<leftarrow> each_slot f is (w[i mod length w := s]);
     Some (r # rs, w) }"

definition data_size_of :: "nat \<Rightarrow> window_slot \<Rightarrow> (u64 option \<times> window_slot) panics" where
  "data_size_of i s = Some (map_option (\<lambda>b. meta_size (blob_meta b)) (slot_data s), s)"

definition zero_data_tail :: "nat \<Rightarrow> nat \<Rightarrow> window_slot \<Rightarrow> (bytes option \<times> window_slot) panics" where
  "zero_data_tail max_data_size i s =
     (case slot_data s of
        None \<Rightarrow> Some (None, s)
      | Some b \<Rightarrow> do {
          d \<leftarrow> zero_range (unat (meta_size (blob_meta b))) max_data_size (blob_data b);
          Some (Some d, s\<lparr>slot_data := Some (b\<lparr>blob_data := d\<rparr>)\<rparr>) })"

definition new_coding_blob :: "pubkey codec \<Rightarrow> nat \<Rightarrow> blob option \<Rightarrow> blob panics" where
  "new_coding_blob pk max_data_size data = do {
     d \<leftarrow> zero_range 0 max_data_size (blob_data Blob_default);
     let coding = Blob_default\<lparr>blob_data := d\<rparr>;
     coding \<leftarrow> (case data of
        None \<Rightarrow> Some coding
      | Some b \<Rightarrow> do {
          index \<leftarrow> get_index b;
          key \<leftarrow> get_id pk b \<bind> (\<lambda>r. r);
          coding \<leftarrow> set_index index coding;
          set_id pk key coding });
     coding \<leftarrow> set_size (of_nat max_data_size) coding;
     set_coding coding }"

definition place_coding :: "pubkey codec \<Rightarrow> nat \<Rightarrow> nat \<Rightarrow> window_slot \<Rightarrow> (blob \<times> window_slot) panics" where
  "place_coding pk max_data_size i s =
     (if slot_coding s \<noteq> None then None
      else do {
        coding \<leftarrow> new_coding_blob pk max_data_size (slot_data s);
        Some (coding, s\<lparr>slot_coding := Some coding\<rparr>) })"

text \<open>\<open>data_mut()[..n]\<close> read, and written back.\<close>

definition coding_part :: "nat \<Rightarrow> blob \<Rightarrow> bytes panics" where
  "coding_part n b = do { d \<leftarrow> blob_payload b; subslice 0 n d }"

definition set_coding_part :: "bytes \<Rightarrow> blob \<Rightarrow> blob panics" where
  "set_coding_part bs b = do { d \<leftarrow> overwrite BLOB_HEADER_SIZE bs (blob_data b); Some (b\<lparr>blob_data := d\<rparr>) }"

definition put_coding :: "nat \<Rightarrow> bytes list \<Rightarrow> nat \<Rightarrow> window_slot \<Rightarrow> (unit \<times> window_slot) panics" where
  "put_coding coding_start blocks i s = do {
     b \<leftarrow> slot_coding s;
     block \<leftarrow> get_at blocks (i - coding_start);
     b \<leftarrow> set_coding_part block b;
     Some ((), s\<lparr>slot_coding := Some b\<rparr>) }"

text \<open>One block whose data blobs are all there.\<close>

definition code_block ::
    "jerasure \<Rightarrow> pubkey codec \<Rightarrow> nat \<Rightarrow> u64 list \<Rightarrow> window \<Rightarrow> ((erasure_error + unit) \<times> window) panics" where
  "code_block je pk block_start sizes w = do {
     let block_end = block_start + NUM_DATA;
     let max_data_size = unat (align (fold max sizes 0) JERASURE_ALIGN);
     (datas, w) \<leftarrow> each_slot (zero_data_tail max_data_size) [block_start..<block_end] w;
     let coding_start = block_end - NUM_CODING;
     (codings, w) \<leftarrow> each_slot (place_coding pk max_data_size) [coding_start..<block_end] w;
     data_ptrs \<leftarrow> sequence_panics (map (subslice 0 max_data_size) (List.map_filter (\<lambda>d. d) datas));
     coding_ptrs \<leftarrow> sequence_panics (map (coding_part max_data_size) codings);
     (case generate_coding_blocks je coding_ptrs data_ptrs of
        Inl e \<Rightarrow> Some (Inl e, w)
      | Inr blocks \<Rightarrow> do {
          (_, w) \<leftarrow> each_slot (put_coding coding_start blocks) [coding_start..<block_end] w;
          Some (Inr (), w) }) }"

function generate_loop ::
    "jerasure \<Rightarrow> pubkey codec \<Rightarrow> nat \<Rightarrow> u64 \<Rightarrow> nat \<Rightarrow> window \<Rightarrow> u64 \<Rightarrow> ((erasure_error + unit) \<times> window \<times> u64) panics" where
  "generate_loop je pk limit coding_index_start block_start w transmit_index_coding =
     (let block_end = block_start + NUM_DATA in
      if limit < block_end then Some (Inr (), w, transmit_index_coding)
      else do {
        (sizes, _) \<leftarrow> each_slot data_size_of [block_start..<block_end] w;
        (case those sizes of
           None \<Rightarrow> Some (Inr (), w, transmit_index_coding)
         | Some sizes \<Rightarrow> do {
             let transmit_index_coding = min transmit_index_coding coding_index_start;
             (r, w) \<leftarrow> code_block je pk block_start sizes w;
             (case r of
                Inl e \<Rightarrow> Some (Inl e, w, transmit_index_coding)
              | Inr _ \<Rightarrow> generate_loop je pk limit coding_index_start block_end w transmit_index_coding) }) })"
  by pat_completeness auto
termination
  by (relation "measure (\<lambda>(je, pk, limit, cis, block_start, w, ti). limit - block_start)") (auto simp: NUM_DATA_def)

declare generate_loop.simps [simp del]

definition generate_coding ::
    "jerasure \<Rightarrow> pubkey codec \<Rightarrow> window \<Rightarrow> u64 \<Rightarrow> nat \<Rightarrow> u64 \<Rightarrow> ((erasure_error + unit) \<times> window \<times> u64) panics" where
  "generate_coding je pk w receive_index num_blobs transmit_index_coding =
     (if w = [] then None
      else let coding_index_start = receive_index - receive_index mod of_nat NUM_DATA + of_nat (NUM_DATA - NUM_CODING);
               start_idx = unat receive_index mod length w;
               block_start = start_idx - start_idx mod NUM_DATA
           in generate_loop je pk (start_idx + num_blobs) coding_index_start block_start w transmit_index_coding)"

text \<open>A slot is missing when it is empty or holds a blob with another index, which is dropped.\<close>

definition is_missing :: "u64 \<Rightarrow> blob option \<Rightarrow> (bool \<times> blob option) panics" where
  "is_missing idx window_slot =
     (case window_slot of
        None \<Rightarrow> Some (True, None)
      | Some b \<Rightarrow> do {
          blob_idx \<leftarrow> get_index b;
          Some (if blob_idx = idx then (False, Some b) else (True, None)) })"

definition missing_in_slot :: "u64 \<Rightarrow> nat \<Rightarrow> nat \<Rightarrow> window_slot \<Rightarrow> ((bool \<times> bool) \<times> window_slot) panics" where
  "missing_in_slot block_start_idx block_start i s = do {
     let idx = of_nat (i - block_start) + block_start_idx;
     (data_missing, d) \<leftarrow> is_missing idx (slot_data s);
     (coding_missing, c) \<leftarrow> (if block_start + NUM_DATA - NUM_CODING \<le> i then is_missing idx (slot_coding s)
        else Some (False, slot_coding s));
     Some ((data_missing, coding_missing), s\<lparr>slot_data := d, slot_coding := c\<rparr>) }"

definition find_missing :: "u64 \<Rightarrow> nat \<Rightarrow> window \<Rightarrow> (nat \<times> nat \<times> window) panics" where
  "find_missing block_start_idx block_start w = do {
     (ms, w) \<leftarrow> each_slot (missing_in_slot block_start_idx block_start) [block_start..<block_start + NUM_DATA] w;
     Some (length (filter fst ms), length (filter snd ms), w) }"

text \<open>The blobs of a block, a fresh one for each that is missing, and which those are.\<close>

definition take_data_blob :: "nat \<Rightarrow> window_slot \<Rightarrow> ((bool \<times> blob) \<times> window_slot) panics" where
  "take_data_blob i s =
     Some (case slot_data s of
        Some b \<Rightarrow> ((False, b), s)
      | None \<Rightarrow> ((True, Blob_default), s\<lparr>slot_data := Some Blob_default\<rparr>))"

definition take_coding_blob :: "nat \<Rightarrow> window_slot \<Rightarrow> ((bool \<times> blob) \<times> window_slot) panics" where
  "take_coding_blob i s =
     Some (case slot_coding s of
        Some b \<Rightarrow> ((False, b), s)
      | None \<Rightarrow> ((True, Blob_default), s\<lparr>slot_coding := Some Blob_default\<rparr>))"

definition erased :: "nat \<Rightarrow> (bool \<times> blob) list \<Rightarrow> i32 list" where
  "erased first bs = map (\<lambda>(i, _). of_nat i) (filter (\<lambda>(i, gone, b). gone) (enumerate first bs))"

text \<open>The blobs that are written through their locks are those of the window.\<close>

definition put_data_blob :: "nat \<Rightarrow> blob list \<Rightarrow> nat \<Rightarrow> window_slot \<Rightarrow> (unit \<times> window_slot) panics" where
  "put_data_blob block_start blobs i s = do {
     b \<leftarrow> get_at blobs (i - block_start);
     Some ((), s\<lparr>slot_data := Some b\<rparr>) }"

definition put_coding_blob :: "nat \<Rightarrow> blob list \<Rightarrow> nat \<Rightarrow> window_slot \<Rightarrow> (unit \<times> window_slot) panics" where
  "put_coding_blob coding_start blobs i s = do {
     b \<leftarrow> get_at blobs (i - coding_start);
     Some ((), s\<lparr>slot_coding := Some b\<rparr>) }"

definition put_blobs :: "nat \<Rightarrow> blob list \<Rightarrow> window \<Rightarrow> window panics" where
  "put_blobs block_start locks w = do {
     (_, w) \<leftarrow> each_slot (put_data_blob block_start locks) [block_start..<block_start + NUM_DATA] w;
     let coding_start = block_start + NUM_DATA - NUM_CODING;
     (_, w) \<leftarrow> each_slot (put_coding_blob coding_start (drop NUM_DATA locks)) [coding_start..<block_start + NUM_DATA] w;
     Some w }"

text \<open>A recovered blob gets its size from its own header, or is a coding blob and has the size of the others.
  The result also says whether it is corrupt.\<close>

definition fix_recovered :: "u64 \<Rightarrow> u64 \<Rightarrow> meta \<Rightarrow> nat \<Rightarrow> blob \<Rightarrow> (bool \<times> blob) panics" where
  "fix_recovered block_start_idx sz meta n b = do {
     let idx = of_nat n + block_start_idx;
     (data_size, corrupt, b) \<leftarrow>
       (if n < NUM_DATA then do {
          data_size \<leftarrow> get_data_size b;
          let data_size = data_size - of_nat BLOB_HEADER_SIZE;
          Some (data_size, of_nat BLOB_DATA_SIZE < data_size, b) }
        else do {
          b \<leftarrow> set_index (idx - of_nat NUM_CODING) b;
          Some (sz, of_nat BLOB_DATA_SIZE < sz - of_nat BLOB_HEADER_SIZE, b) });
     b \<leftarrow> set_size data_size (b\<lparr>blob_meta := meta\<rparr>);
     Some (corrupt, b) }"

primrec fix_all :: "u64 \<Rightarrow> u64 \<Rightarrow> meta \<Rightarrow> i32 list \<Rightarrow> blob list \<Rightarrow> (bool \<times> blob list) panics" where
  "fix_all block_start_idx sz meta [] locks = Some (False, locks)"
| "fix_all block_start_idx sz meta (i # is) locks = do {
     let n = nat (sint i);
     b \<leftarrow> get_at locks n;
     (corrupt, b) \<leftarrow> fix_recovered block_start_idx sz meta n b;
     (corrupt', locks) \<leftarrow> fix_all block_start_idx sz meta is (locks[n := b]);
     Some (corrupt \<or> corrupt', locks) }"

text \<open>The decoding of the blobs in place.\<close>

definition decode_blobs ::
    "jerasure \<Rightarrow> nat \<Rightarrow> i32 list \<Rightarrow> blob list \<Rightarrow> ((erasure_error + unit) \<times> blob list) panics" where
  "decode_blobs je sz erasures locks = do {
     data_ptrs \<leftarrow> sequence_panics (map (\<lambda>b. subslice 0 sz (blob_data b)) (take NUM_DATA locks));
     coding_ptrs \<leftarrow> sequence_panics (map (coding_part sz) (drop NUM_DATA locks));
     (r, data, coding) \<leftarrow> decode_blocks je data_ptrs coding_ptrs erasures;
     datas \<leftarrow> sequence_panics (map2 (\<lambda>bs b. do { d \<leftarrow> overwrite 0 bs (blob_data b); Some (b\<lparr>blob_data := d\<rparr>) })
        data (take NUM_DATA locks));
     codings \<leftarrow> sequence_panics (map2 set_coding_part coding (drop NUM_DATA locks));
     Some (r, datas @ codings) }"

text \<open>In a window of fewer than \<open>NUM_DATA\<close> slots two of the locks would be the same one, and the second
  attempt to take it does not return.\<close>

definition erasure_recover ::
    "jerasure \<Rightarrow> window \<Rightarrow> u64 \<Rightarrow> nat \<Rightarrow> ((erasure_error + unit) \<times> window) panics" where
  "erasure_recover je w start_idx start =
     (do {
        let block_start = start - start mod NUM_DATA;
        let block_start_idx = start_idx - start_idx mod of_nat NUM_DATA;
        let coding_start = block_start + NUM_DATA - NUM_CODING;
        let block_end = block_start + NUM_DATA;
        (data_missing, coding_missing, w) \<leftarrow> find_missing block_start_idx block_start w;
        if data_missing = 0 then Some (Inr (), w)
        else if NUM_CODING < data_missing + coding_missing then Some (Inl NotEnoughBlocksToDecode, w)
        else if length w < NUM_DATA then None
        else do {
          (datas, w) \<leftarrow> each_slot take_data_blob [block_start..<block_end] w;
          let meta = map_option (\<lambda>(gone, b). blob_meta b) (List.find (\<lambda>(gone, b). \<not> gone) datas);
          (codings, w) \<leftarrow> each_slot take_coding_blob [coding_start..<block_end] w;
          let sz = map_option (\<lambda>(gone, b). meta_size (blob_meta b) - of_nat BLOB_HEADER_SIZE)
            (List.find (\<lambda>(gone, b). \<not> gone) codings);
          let erasures = erased 0 datas @ erased NUM_DATA codings;
          sz \<leftarrow> sz;
          zeroed \<leftarrow> sequence_panics (map (\<lambda>(gone, b). do {
             d \<leftarrow> zero_range (unat (meta_size (blob_meta b))) (unat sz) (blob_data b);
             Some (b\<lparr>blob_data := d\<rparr>) }) datas);
          (r, locks) \<leftarrow> decode_blobs je (unat sz) (erasures @ [- 1]) (zeroed @ map snd codings);
          (case r of
             Inl e \<Rightarrow> do { w \<leftarrow> put_blobs block_start locks w; Some (Inl e, w) }
           | Inr _ \<Rightarrow> do {
               meta \<leftarrow> meta;
               (corrupt, locks) \<leftarrow> fix_all block_start_idx sz meta erasures locks;
               w \<leftarrow> put_blobs block_start locks w;
               if corrupt then None else Some (Inr (), w) }) } })"

text \<open>What the feature adds to the processing of a blob, between storing it and consuming.\<close>

definition process_blob_coded ::
    "jerasure \<Rightarrow> entry_ext \<Rightarrow> blockthread \<Rightarrow> u64 \<Rightarrow> bool \<Rightarrow> blob \<Rightarrow> u64 \<Rightarrow> window \<Rightarrow> u64 \<Rightarrow> bool \<Rightarrow> entry list \<Rightarrow>
     (window \<times> u64 \<times> bool \<times> entry list) panics option" where
  "process_blob_coded je ee bt interval leader_unknown b pix w consumed pending q =
     (case store_blob b pix leader_unknown w of
        None \<Rightarrow> Some None
      | Some (dup, w) \<Rightarrow>
          if dup then Some (Some (w, consumed, pending, q))
          else (case erasure_recover je w consumed (slot_of consumed) of
              None \<Rightarrow> Some None
            | Some (_, w) \<Rightarrow> map_option (map_option (\<lambda>(w, consumed, q). (w, consumed, True, q)))
                 (consume_loop ee bt interval w consumed q)))"

section \<open>Loops over a block\<close>

text \<open>The slot at offset \<open>j\<close> of the block that starts at \<open>start\<close>.\<close>

definition block_slot :: "window \<Rightarrow> nat \<Rightarrow> nat \<Rightarrow> window_slot" where
  "block_slot w start j = w ! ((start + j) mod length w)"

lemma block_slot_inj:
  assumes "j < 16" "k < 16" "16 \<le> n" "(start + j) mod n = (start + k) mod (n :: nat)"
  shows "j = k"
proof -
  have "int (start + j) mod int n = int (start + k) mod int n" using assms(4) by (metis of_nat_mod)
  then have "int n dvd int j - int k" by (simp add: mod_eq_dvd_iff)
  moreover have "\<bar>int j - int k\<bar> < int n" using assms(1-3) by auto
  ultimately show ?thesis using zdvd_not_zless by (metis abs_of_nat dvd_abs_iff eq_iff_diff_eq_0 of_nat_eq_iff zdvd_imp_le zero_less_abs_iff linorder_not_less)
qed

lemma each_slot_block:
  assumes "16 \<le> length w" "e \<le> 16" "\<And>j. a \<le> j \<Longrightarrow> j < e \<Longrightarrow> f (start + j) (block_slot w start j) = Some (r j, s j)"
  obtains w' where "each_slot f [start + a..<start + e] w = Some (map r [a..<e], w')" "length w' = length w"
    "\<And>j. j < 16 \<Longrightarrow> block_slot w' start j = (if a \<le> j \<and> j < e then s j else block_slot w start j)"
proof -
  have "\<exists>w'. each_slot f [start + a..<start + e] w = Some (map r [a..<e], w') \<and> length w' = length w \<and>
      (\<forall>j < 16. block_slot w' start j = (if a \<le> j \<and> j < e then s j else block_slot w start j))"
    using assms(1,3)
  proof (induction "e - a" arbitrary: a w)
    case 0
    then show ?case by auto
  next
    case (Suc d)
    then have a: "a < e" "a < 16" using assms(2) by auto
    let ?n = "(start + a) mod length w"
    let ?w = "w[?n := s a]"
    have n: "?n < length w" using Suc.prems(1) by (intro mod_less_divisor) auto
    have slot: "block_slot ?w start j = (if j = a then s a else block_slot w start j)" if "j < 16" for j
      using that n block_slot_inj [OF that a(2) Suc.prems(1), of start]
      by (cases "j = a") (auto simp: block_slot_def nth_list_update)
    have "f (start + j) (block_slot ?w start j) = Some (r j, s j)" if "Suc a \<le> j" "j < e" for j
      using that Suc.prems(2) [of j] slot [of j] assms(2) by simp
    moreover have "d = e - Suc a" using Suc.hyps(2) by simp
    ultimately obtain w' where w': "each_slot f [start + Suc a..<start + e] ?w = Some (map r [Suc a..<e], w')"
      "length w' = length ?w" "\<forall>j < 16. block_slot w' start j = (if Suc a \<le> j \<and> j < e then s j else block_slot ?w start j)"
      using Suc.hyps(1) [of "Suc a" ?w] Suc.prems(1) by auto
    have "f (start + a) (w ! ?n) = Some (r a, s a)" using Suc.prems(2) [of a] a(1) by (simp add: block_slot_def)
    moreover have "[start + a..<start + e] = (start + a) # [start + Suc a..<start + e]" "[a..<e] = a # [Suc a..<e]"
      using a(1) by (simp_all add: upt_conv_Cons)
    ultimately have "each_slot f [start + a..<start + e] w = Some (map r [a..<e], w')"
      using w'(1) n by (simp add: get_at_def)
    moreover have "\<forall>j < 16. block_slot w' start j = (if a \<le> j \<and> j < e then s j else block_slot w start j)"
      using w'(3) slot a(1) by auto
    ultimately show ?case using w'(2) by auto
  qed
  then show thesis using that by blast
qed

lemma block_range: "[start..<start + NUM_DATA] = [start + 0..<start + 16]"
  "[start + NUM_DATA - NUM_CODING..<start + NUM_DATA] = [start + 12..<start + 16]"
  by (simp_all add: NUM_DATA_def NUM_CODING_def add.commute)

lemma each_slot_data:
  assumes "16 \<le> length w" "\<forall>j < 16. f (start + j) (block_slot w start j) = Some (r j, s j)"
  shows "\<exists>w'. each_slot f [start..<start + NUM_DATA] w = Some (map r [0..<16], w') \<and> length w' = length w \<and>
    (\<forall>j < 16. block_slot w' start j = s j)"
  unfolding block_range
  by (rule each_slot_block [OF assms(1) order_refl, where a = 0 and f = f and start = start and r = r and s = s])
    (use assms(2) in auto)

lemma each_slot_coding:
  assumes "16 \<le> length w" "\<forall>j. 12 \<le> j \<and> j < 16 \<longrightarrow> f (start + j) (block_slot w start j) = Some (r j, s j)"
  shows "\<exists>w'. each_slot f [start + NUM_DATA - NUM_CODING..<start + NUM_DATA] w = Some (map r [12..<16], w') \<and>
    length w' = length w \<and> (\<forall>j < 16. block_slot w' start j = (if 12 \<le> j then s j else block_slot w start j))"
  unfolding block_range
  by (rule each_slot_block [OF assms(1) order_refl, where a = 12 and f = f and start = start and r = r and s = s])
    (use assms(2) in auto)

section \<open>Sizes and padding\<close>

abbreviation blob_len :: "blob \<Rightarrow> nat" where
  "blob_len b \<equiv> unat (meta_size (blob_meta b))"

text \<open>The size to which the blobs of a block are padded.\<close>

definition coded_size :: "blob list \<Rightarrow> nat" where
  "coded_size ds = unat (align (fold max (map (\<lambda>b. meta_size (blob_meta b)) ds) 0) JERASURE_ALIGN)"

definition padded :: "nat \<Rightarrow> blob \<Rightarrow> bytes" where
  "padded n b = take (blob_len b) (blob_data b) @ replicate (n - blob_len b) 0"

lemma align_4:
  assumes "unat (x :: u64) < 2 ^ 64 - 4"
  shows "unat x \<le> unat (align x 4)" "unat (align x 4) \<le> unat x + 3" "4 dvd unat (align x 4)"
proof -
  let ?y = "x + 3"
  have y: "unat ?y = unat x + 3" using assms by (simp add: unat_word_ariths)
  have "?y AND NOT 3 = ?y - ?y mod 4"
  proof -
    have m: "?y AND 3 = ?y mod 4" using take_bit_eq_mask [of 2 ?y] take_bit_eq_mod [of 2 ?y] by (simp add: mask_eq_exp_minus_1)
    have "(?y AND 3) + (?y AND NOT 3) = ?y" by (subst disjunctive_add) (auto simp: bit_eq_iff bit_simps)
    then show ?thesis unfolding m by (simp add: algebra_simps)
  qed
  then have "align x 4 = ?y - ?y mod 4" by (simp add: align_def)
  moreover have "?y mod 4 \<le> ?y" by (simp add: word_le_nat_alt unat_mod)
  ultimately have "unat (align x 4) = unat ?y - unat ?y mod 4" by (simp add: unat_sub unat_mod)
  then have "unat (align x 4) = unat ?y div 4 * 4" by (simp add: minus_mod_eq_div_mult)
  then show "unat x \<le> unat (align x 4)" "unat (align x 4) \<le> unat x + 3" "4 dvd unat (align x 4)"
    using y by simp_all
qed

lemma fold_max_bounds:
  assumes "\<forall>x \<in> set xs. x \<le> b" "c \<le> b"
  shows "fold max xs c \<le> (b :: 'a :: linorder)" "c \<le> fold max xs c" "\<forall>x \<in> set xs. x \<le> fold max xs c"
  using assms
proof (induction xs arbitrary: c)
  case (Cons x xs)
  { case 1 then show ?case using Cons.IH(1) [of "max x c"] by simp }
  { case 2 then show ?case using Cons.IH(2) [of "max x c"] by simp }
  { case 3 then show ?case using Cons.IH(2,3) [of "max x c"] by auto }
qed simp_all

lemma coded_size_bounds:
  assumes "\<forall>b \<in> set ds. blob_len b \<le> 65344"
  shows "\<forall>b \<in> set ds. blob_len b \<le> coded_size ds" "coded_size ds \<le> 65344"
proof -
  let ?m = "fold max (map (\<lambda>b. meta_size (blob_meta b)) ds) 0"
  have le: "\<forall>x \<in> set (map (\<lambda>b. meta_size (blob_meta b)) ds). x \<le> 65344"
    using assms by (simp add: word_le_nat_alt)
  have m: "unat ?m \<le> 65344" using fold_max_bounds(1) [OF le] by (simp add: word_le_nat_alt)
  have al: "unat ?m \<le> coded_size ds" "coded_size ds \<le> unat ?m + 3" "4 dvd coded_size ds"
    using align_4 [of ?m] m by (simp_all add: coded_size_def JERASURE_ALIGN_def)
  show "\<forall>b \<in> set ds. blob_len b \<le> coded_size ds"
    using fold_max_bounds(3) [OF le, of 0] al(1) by (auto simp: word_le_nat_alt intro: order_trans)
  obtain q where "coded_size ds = 4 * q" using al(3) by (elim dvdE)
  then show "coded_size ds \<le> 65344" using al(2) m by simp
qed

lemma zero_range_padded:
  assumes "blob_len b \<le> n" "n \<le> length (blob_data b)"
  obtains d where "zero_range (blob_len b) n (blob_data b) = Some d" "length d = length (blob_data b)"
    "take n d = padded n b" "take (blob_len b) d = take (blob_len b) (blob_data b)"
proof (cases "blob_len b < n")
  case True
  show thesis
    by (rule that [of "take (blob_len b) (blob_data b) @ replicate (n - blob_len b) 0 @ drop n (blob_data b)"])
      (use True assms in \<open>auto simp: zero_range_def overwrite_def padded_def min_def\<close>)
next
  case False
  then show thesis using assms by (intro that [of "blob_data b"]) (simp_all add: zero_range_def padded_def)
qed

section \<open>Coding blobs\<close>

lemma coding_part_eq: "blob_wf b \<Longrightarrow> n \<le> 65344 \<Longrightarrow> coding_part n b = subslice 64 (64 + n) (blob_data b)"
  by (simp add: coding_part_def blob_payload_def blob_wf_def subslice_def blob_ends)

text \<open>A coding blob of a block: its index, its size and the coded bytes behind the header.\<close>

definition coding_blob :: "u64 \<Rightarrow> nat \<Rightarrow> bytes \<Rightarrow> blob \<Rightarrow> bool" where
  "coding_blob idx n block b \<longleftrightarrow> blob_wf b \<and> get_index b = Some idx \<and> is_coding b = Some True \<and>
     meta_size (blob_meta b) = of_nat n + 64 \<and> coding_part n b = Some block"

lemma subslice_replicate: "a \<le> e \<Longrightarrow> e \<le> n \<Longrightarrow> subslice a e (replicate n x) = Some (replicate (e - a) x)"
  by (simp add: subslice_def min_def)

lemma zero_range_zeros: "n \<le> BLOB_SIZE \<Longrightarrow> zero_range 0 n (blob_data Blob_default) = Some (blob_data Blob_default)"
  by (simp add: zero_range_def overwrite_def Blob_default_def flip: replicate_add)

lemma new_coding_blob_is_coding:
  assumes "fixed_codec pk 32" "n \<le> 65344" "get_index b = Some idx" "read_id pk b = Some key"
  obtains c where "new_coding_blob pk n (Some b) = Some c" "coding_blob idx n (replicate n 0) c"
proof -
  note id = id_header_field [OF assms(1)]
  obtain c1 where c1: "set_index idx Blob_default = Some c1" using index_field.set_total Blob_default_wf by blast
  then have wf1: "blob_wf c1" using index_field.set_wf Blob_default_wf by blast
  obtain c2 where c2: "set_id pk key c1 = Some c2" using header_field.set_total [OF id wf1] by blast
  then have wf2: "blob_wf c2" using header_field.set_wf [OF id wf1] by blast
  obtain c3 where c3: "set_size (of_nat n) c2 = Some c3" "blob_wf c3" "blob_meta c3 = (blob_meta c2)\<lparr>meta_size := of_nat n + 64\<rparr>"
    "\<And>a e. e \<le> 44 \<or> 52 \<le> a \<Longrightarrow> subslice a e (blob_data c3) = subslice a e (blob_data c2)"
    using set_size_wf [OF wf2] by metis
  obtain fl where fl: "get_flags c3 = Some fl"
    using c3(2) by (simp add: get_flags_def subslice_def blob_wf_def blob_ends)
  obtain c4 where c4: "set_flags (fl OR BLOB_FLAG_IS_CODING) c3 = Some c4" using flags_field.set_total [OF c3(2)] by blast
  then have wf4: "blob_wf c4" "blob_meta c4 = blob_meta c3" using flags_field.set_wf [OF c3(2)] by auto
  have frame: "subslice a e (blob_data c4) = subslice a e (blob_data c2)" if "e \<le> 40 \<or> 52 \<le> a" for a e
    using that c3(4) flags_field.set_frame [OF c4] by auto
  have "get_index c1 = Some idx" using index_field.get_set [OF Blob_default_wf c1] .
  then have "get_index c4 = Some idx"
    using index_field.get_local [of c4 c2] frame [of 8 0] index_field.get_local [of c2 c1]
      header_field.set_frame [OF id c2, of 8 0] by simp
  moreover have "is_coding c4 = Some True"
    using flags_field.get_set [OF c3(2) c4]
    by (simp add: is_coding_def BLOB_FLAG_IS_CODING_def)
  moreover have "coding_part n c4 = Some (replicate n 0)"
    using assms(2) frame [of "64 + n" 64] header_field.set_frame [OF id c2, of "64 + n" 64]
      index_field.set_frame [OF c1, of "64 + n" 64]
    by (simp add: coding_part_eq [OF wf4(1)] Blob_default_def subslice_replicate blob_ends)
  ultimately have "coding_blob idx n (replicate n 0) c4" using wf4 c3(3) by (simp add: coding_blob_def)
  moreover have "new_coding_blob pk n (Some b) = Some c4"
    using c1 c2 c3(1) c4 fl assms(2-4)
    by (simp add: new_coding_blob_def zero_range_zeros read_id_def set_coding_def blob_ends)
  ultimately show thesis using that by blast
qed

lemma set_coding_part_coding:
  assumes "coding_blob idx n old b" "length block = n" "n \<le> 65344"
  obtains b' where "set_coding_part block b = Some b'" "coding_blob idx n block b'" "blob_meta b' = blob_meta b"
proof -
  obtain d where d: "overwrite 64 block (blob_data b) = Some d"
    using assms by (simp add: overwrite_def coding_blob_def blob_wf_def blob_ends)
  let ?b = "b\<lparr>blob_data := d\<rparr>"
  have frame: "subslice a e d = subslice a e (blob_data b)" if "e \<le> 64" for a e
    using that subslice_overwrite_other [OF d, of e a] by simp
  have wf: "blob_wf ?b" using assms(1) overwrite_length [OF d] by (simp add: coding_blob_def blob_wf_def)
  have "get_index ?b = get_index b" "get_flags ?b = get_flags b"
    using frame by (simp_all add: get_index_def get_flags_def blob_ends)
  moreover have "coding_part n ?b = Some block"
    using assms(2,3) subslice_overwrite_same [OF d] by (simp add: coding_part_eq [OF wf])
  ultimately have "coding_blob idx n block ?b" using assms(1) wf by (simp add: coding_blob_def is_coding_def)
  then show thesis using d by (intro that [of ?b]) (simp_all add: set_coding_part_def blob_ends)
qed

section \<open>Coding a block\<close>

text \<open>The sixteen data blobs of a block, with consecutive indices and consistent sizes.\<close>

definition data_block :: "pubkey codec \<Rightarrow> u64 \<Rightarrow> blob list \<Rightarrow> bool" where
  "data_block pk base ds \<longleftrightarrow> length ds = 16 \<and> (\<forall>j < 16. blob_wf (ds ! j) \<and>
     64 \<le> blob_len (ds ! j) \<and> blob_len (ds ! j) \<le> 65344 \<and> get_index (ds ! j) = Some (base + of_nat j) \<and>
     read_id pk (ds ! j) \<noteq> None \<and> get_data_size (ds ! j) = Some (meta_size (blob_meta (ds ! j))))"

text \<open>A blob that carries the same message.\<close>

definition copy_of :: "blob \<Rightarrow> blob \<Rightarrow> bool" where
  "copy_of b b' \<longleftrightarrow> blob_wf b' \<and> meta_size (blob_meta b') = meta_size (blob_meta b) \<and>
     take (blob_len b) (blob_data b') = take (blob_len b) (blob_data b)"

lemma copy_refl [simp]: "copy_of b b \<longleftrightarrow> blob_wf b"
  by (simp add: copy_of_def)

lemma copy_subslice:
  assumes "copy_of b b'" "blob_wf b" "e \<le> blob_len b"
  shows "subslice a e (blob_data b') = subslice a e (blob_data b)"
proof -
  have "take e (take (blob_len b) (blob_data b')) = take e (take (blob_len b) (blob_data b))"
    using assms(1) by (simp only: copy_of_def)
  then have "take e (blob_data b') = take e (blob_data b)" using assms(3) by (simp add: min.absorb1)
  then have "take (e - a) (drop a (blob_data b')) = take (e - a) (drop a (blob_data b))" by (simp only: drop_take [symmetric])
  then show ?thesis using assms(1,2) by (simp add: subslice_def copy_of_def blob_wf_def)
qed

lemma copy_header:
  assumes "copy_of b b'" "blob_wf b" "64 \<le> blob_len b"
  shows "get_index b' = get_index b" "read_id pk b' = read_id pk b" "get_data_size b' = get_data_size b"
  using copy_subslice [OF assms(1,2)] assms(3)
  by (simp_all add: get_index_def read_id_def get_id_def get_data_size_def blob_ends)

definition coding_blocks :: "jerasure \<Rightarrow> blob list \<Rightarrow> bytes list" where
  "coding_blocks je ds =
     (let n = coded_size ds in jerasure_matrix_encode je 16 4 32 (get_matrix je 4 16 32) (map (padded n) ds)
        (replicate 4 (replicate n 0)) (of_nat n))"

lemma sequence_panics_Some:
  "(\<And>x. x \<in> set xs \<Longrightarrow> f x = Some (g x)) \<Longrightarrow> sequence_panics (map f xs) = Some (map g xs)"
  by (induction xs) simp_all

lemma map_nth_16: "length xs = 16 \<Longrightarrow> map (\<lambda>j. f (xs ! j)) [0..<16] = map f xs"
  using map_nth [of xs] by (metis (no_types, lifting) map_map comp_apply map_cong)

lemma data_block_sizes:
  assumes "data_block pk base ds"
  shows "coded_size ds \<le> 65344" "j < 16 \<Longrightarrow> blob_len (ds ! j) \<le> coded_size ds" "64 \<le> coded_size ds"
proof -
  have "\<forall>b \<in> set ds. blob_len b \<le> 65344" using assms by (auto simp: data_block_def in_set_conv_nth)
  then have 1: "\<forall>b \<in> set ds. blob_len b \<le> coded_size ds" "coded_size ds \<le> 65344"
    by (rule coded_size_bounds)+
  show "coded_size ds \<le> 65344" by (rule 1)
  have le: "blob_len (ds ! j) \<le> coded_size ds" if "j < 16" for j
    using that 1(1) assms by (simp add: data_block_def)
  then show "j < 16 \<Longrightarrow> blob_len (ds ! j) \<le> coded_size ds" .
  have "64 \<le> blob_len (ds ! 0)" using assms by (simp add: data_block_def)
  then show "64 \<le> coded_size ds" using le [of 0] by simp
qed

text \<open>The data blob with its tail zeroed.\<close>

lemma zeroed_copy:
  assumes "copy_of b b'" "blob_len b \<le> n" "n \<le> 65344"
  shows "\<exists>d. zero_range (blob_len b') n (blob_data b') = Some d \<and> take n d = padded n b \<and>
    length d = BLOB_SIZE \<and> copy_of b (b'\<lparr>blob_data := d\<rparr>)"
proof -
  have wf: "length (blob_data b') = BLOB_SIZE" and len: "blob_len b' = blob_len b"
    and same: "take (blob_len b) (blob_data b') = take (blob_len b) (blob_data b)"
    using assms(1) by (simp_all add: copy_of_def blob_wf_def)
  have "n \<le> length (blob_data b')" using wf assms(3) by (simp add: BLOB_SIZE_def)
  then obtain d where d: "zero_range (blob_len b') n (blob_data b') = Some d" "length d = BLOB_SIZE"
    "take n d = padded n b'" "take (blob_len b') d = take (blob_len b') (blob_data b')"
    using zero_range_padded [of b' n] len assms(2) wf by metis
  have "padded n b' = padded n b" using len same by (simp add: padded_def)
  then show ?thesis using d len same assms(1) by (intro exI [of _ d]) (simp add: copy_of_def blob_wf_def)
qed

text \<open>The three passes over the window: the tails of the data blobs, the new coding blobs, and their contents.\<close>

lemma zero_data_pass:
  assumes ds: "data_block pk base ds" and w: "16 \<le> length w"
    and data: "\<forall>j < 16. slot_data (block_slot w start j) = Some (ds ! j)"
  shows "\<exists>d w'. each_slot (zero_data_tail (coded_size ds)) [start..<start + NUM_DATA] w = Some (map (\<lambda>j. Some (d j)) [0..<16], w') \<and>
    length w' = length w \<and> (\<forall>j < 16. block_slot w' start j = (block_slot w start j)\<lparr>slot_data := Some ((ds ! j)\<lparr>blob_data := d j\<rparr>)\<rparr> \<and>
      copy_of (ds ! j) ((ds ! j)\<lparr>blob_data := d j\<rparr>) \<and> subslice 0 (coded_size ds) (d j) = Some (padded (coded_size ds) (ds ! j)))"
proof -
  let ?n = "coded_size ds"
  note n = data_block_sizes [OF ds]
  have "\<forall>j. j < 16 \<longrightarrow> (\<exists>d. zero_range (blob_len (ds ! j)) ?n (blob_data (ds ! j)) = Some d \<and> take ?n d = padded ?n (ds ! j) \<and>
      length d = BLOB_SIZE \<and> copy_of (ds ! j) ((ds ! j)\<lparr>blob_data := d\<rparr>))"
  proof (intro allI impI zeroed_copy n(1,2))
    fix j :: nat assume "j < 16"
    then show "copy_of (ds ! j) (ds ! j)" using ds by (simp add: data_block_def)
  qed
  then have "\<exists>d. \<forall>j. j < 16 \<longrightarrow> zero_range (blob_len (ds ! j)) ?n (blob_data (ds ! j)) = Some (d j) \<and> take ?n (d j) = padded ?n (ds ! j) \<and>
      length (d j) = BLOB_SIZE \<and> copy_of (ds ! j) ((ds ! j)\<lparr>blob_data := d j\<rparr>)"
    by (rule choice_iff' [THEN iffD1])
  then obtain d where d: "\<forall>j. j < 16 \<longrightarrow> zero_range (blob_len (ds ! j)) ?n (blob_data (ds ! j)) = Some (d j) \<and>
      take ?n (d j) = padded ?n (ds ! j) \<and> length (d j) = BLOB_SIZE \<and> copy_of (ds ! j) ((ds ! j)\<lparr>blob_data := d j\<rparr>)"
    by blast
  then have run: "\<forall>j < 16. zero_data_tail ?n (start + j) (block_slot w start j) =
      Some (Some (d j), (block_slot w start j)\<lparr>slot_data := Some ((ds ! j)\<lparr>blob_data := d j\<rparr>)\<rparr>)"
    using data by (simp add: zero_data_tail_def)
  have "\<forall>j < 16. subslice 0 ?n (d j) = Some (padded ?n (ds ! j))"
    using d n(1) by (simp add: subslice_def BLOB_SIZE_def)
  then show ?thesis using d each_slot_data [OF w run] by blast
qed

lemma place_coding_pass:
  assumes pk: "fixed_codec pk 32" and n: "n \<le> 65344" and w: "16 \<le> length w"
    and b: "\<forall>j < 16. slot_data (block_slot w start j) = Some (b j) \<and> get_index (b j) = Some (base + of_nat j) \<and> read_id pk (b j) \<noteq> None"
    and free: "\<forall>j. 12 \<le> j \<and> j < 16 \<longrightarrow> slot_coding (block_slot w start j) = None"
  shows "\<exists>c w'. each_slot (place_coding pk n) [start + NUM_DATA - NUM_CODING..<start + NUM_DATA] w = Some (map c [12..<16], w') \<and>
    length w' = length w \<and> (\<forall>j < 16. block_slot w' start j =
      (if 12 \<le> j then (block_slot w start j)\<lparr>slot_coding := Some (c j)\<rparr> else block_slot w start j) \<and>
      coding_blob (base + of_nat j) n (replicate n 0) (c j))"
proof -
  have "\<forall>j. j < 16 \<longrightarrow> (\<exists>c. new_coding_blob pk n (Some (b j)) = Some c \<and> coding_blob (base + of_nat j) n (replicate n 0) c)"
  proof (intro allI impI)
    fix j :: nat assume "j < 16"
    then obtain key where "get_index (b j) = Some (base + of_nat j)" "read_id pk (b j) = Some key" using b by auto
    then show "\<exists>c. new_coding_blob pk n (Some (b j)) = Some c \<and> coding_blob (base + of_nat j) n (replicate n 0) c"
      by (rule new_coding_blob_is_coding [OF pk n]) blast
  qed
  then have "\<exists>c. \<forall>j. j < 16 \<longrightarrow> new_coding_blob pk n (Some (b j)) = Some (c j) \<and> coding_blob (base + of_nat j) n (replicate n 0) (c j)"
    by (rule choice_iff' [THEN iffD1])
  then obtain c where c: "\<forall>j. j < 16 \<longrightarrow> new_coding_blob pk n (Some (b j)) = Some (c j) \<and> coding_blob (base + of_nat j) n (replicate n 0) (c j)"
    by blast
  then have "\<forall>j. 12 \<le> j \<and> j < 16 \<longrightarrow> place_coding pk n (start + j) (block_slot w start j) =
      Some (c j, (block_slot w start j)\<lparr>slot_coding := Some (c j)\<rparr>)"
    using free b by (simp add: place_coding_def)
  from each_slot_coding [OF w this] show ?thesis using c by blast
qed

lemma put_coding_pass:
  assumes w: "16 \<le> length w" and n: "n \<le> 65344" and blocks: "length blocks = 4" "\<forall>x \<in> set blocks. length x = n"
    and c: "\<forall>j. 12 \<le> j \<and> j < 16 \<longrightarrow> slot_coding (block_slot w start j) = Some (c j) \<and> coding_blob (base + of_nat j) n old (c j)"
  shows "\<exists>e w' rs. each_slot (put_coding (start + NUM_DATA - NUM_CODING) blocks) [start + NUM_DATA - NUM_CODING..<start + NUM_DATA] w =
    Some (rs, w') \<and> length w' = length w \<and> (\<forall>j < 16. block_slot w' start j =
      (if 12 \<le> j then (block_slot w start j)\<lparr>slot_coding := Some (e j)\<rparr> else block_slot w start j)) \<and>
    (\<forall>j. 12 \<le> j \<and> j < 16 \<longrightarrow> coding_blob (base + of_nat j) n (blocks ! (j - 12)) (e j))"
proof -
  have "\<forall>j. 12 \<le> j \<and> j < 16 \<longrightarrow> (\<exists>e. set_coding_part (blocks ! (j - 12)) (c j) = Some e \<and>
      coding_blob (base + of_nat j) n (blocks ! (j - 12)) e)"
  proof (intro allI impI)
    fix j :: nat assume j: "12 \<le> j \<and> j < 16"
    then have "coding_blob (base + of_nat j) n old (c j)" "length (blocks ! (j - 12)) = n" using c blocks by auto
    then show "\<exists>e. set_coding_part (blocks ! (j - 12)) (c j) = Some e \<and> coding_blob (base + of_nat j) n (blocks ! (j - 12)) e"
      by (rule set_coding_part_coding) (use n in auto)
  qed
  then have "\<exists>e. \<forall>j. 12 \<le> j \<and> j < 16 \<longrightarrow> set_coding_part (blocks ! (j - 12)) (c j) = Some (e j) \<and>
      coding_blob (base + of_nat j) n (blocks ! (j - 12)) (e j)"
    by (rule choice_iff' [THEN iffD1])
  then obtain e where e: "\<forall>j. 12 \<le> j \<and> j < 16 \<longrightarrow> set_coding_part (blocks ! (j - 12)) (c j) = Some (e j) \<and>
      coding_blob (base + of_nat j) n (blocks ! (j - 12)) (e j)"
    by blast
  then have "\<forall>j. 12 \<le> j \<and> j < 16 \<longrightarrow> put_coding (start + NUM_DATA - NUM_CODING) blocks (start + j) (block_slot w start j) =
      Some ((), (block_slot w start j)\<lparr>slot_coding := Some (e j)\<rparr>)"
    using c blocks(1) by (auto simp: put_coding_def get_at_def NUM_DATA_def NUM_CODING_def)
  from each_slot_coding [OF w this] show ?thesis using e by blast
qed

lemma generate_blocks_eq:
  assumes "data_block pk base ds"
  shows "generate_coding_blocks je (replicate 4 (replicate (coded_size ds) 0)) (map (padded (coded_size ds)) ds) =
    Inr (coding_blocks je ds)"
proof -
  have "length (padded (coded_size ds) b) = coded_size ds" if "b \<in> set ds" for b
    using that data_block_sizes [OF assms] assms
    by (auto simp: padded_def data_block_def in_set_conv_nth blob_wf_def BLOB_SIZE_def)
  moreover have "length ds = 16" using assms by (simp add: data_block_def)
  ultimately show ?thesis
    by (cases ds) (auto simp: generate_coding_blocks_def coding_blocks_def Let_def list_all_iff ERASURE_W_def)
qed

lemma code_block_codes:
  assumes pk: "fixed_codec pk 32" and ds: "data_block pk base ds" and w: "16 \<le> length w"
    and data: "\<forall>j < 16. slot_data (block_slot w start j) = Some (ds ! j)"
    and free: "\<forall>j. 12 \<le> j \<and> j < 16 \<longrightarrow> slot_coding (block_slot w start j) = None"
    and blocks: "length (coding_blocks je ds) = 4" "\<forall>c \<in> set (coding_blocks je ds). length c = coded_size ds"
  shows "\<exists>w'. code_block je pk start (map (\<lambda>b. meta_size (blob_meta b)) ds) w = Some (Inr (), w') \<and> length w' = length w \<and>
    (\<forall>j < 16. \<exists>b. slot_data (block_slot w' start j) = Some b \<and> copy_of (ds ! j) b) \<and>
    (\<forall>j. 12 \<le> j \<and> j < 16 \<longrightarrow> (\<exists>c. slot_coding (block_slot w' start j) = Some c \<and>
      coding_blob (base + of_nat j) (coded_size ds) (coding_blocks je ds ! (j - 12)) c))"
proof -
  let ?n = "coded_size ds" and ?blocks = "coding_blocks je ds"
  note n = data_block_sizes [OF ds]
  have len: "length ds = 16" using ds by (simp add: data_block_def)
  obtain d w1 where w1: "each_slot (zero_data_tail ?n) [start..<start + NUM_DATA] w = Some (map (\<lambda>j. Some (d j)) [0..<16], w1)"
    "length w1 = length w" "\<forall>j < 16. block_slot w1 start j = (block_slot w start j)\<lparr>slot_data := Some ((ds ! j)\<lparr>blob_data := d j\<rparr>)\<rparr> \<and>
      copy_of (ds ! j) ((ds ! j)\<lparr>blob_data := d j\<rparr>) \<and> subslice 0 ?n (d j) = Some (padded ?n (ds ! j))"
    using zero_data_pass [OF ds w data] by blast
  let ?b = "\<lambda>j. (ds ! j)\<lparr>blob_data := d j\<rparr>"
  have w1': "16 \<le> length w1" using w w1(2) by simp
  have b1: "\<forall>j < 16. slot_data (block_slot w1 start j) = Some (?b j) \<and> get_index (?b j) = Some (base + of_nat j) \<and> read_id pk (?b j) \<noteq> None"
  proof (intro allI impI)
    fix j :: nat assume j: "j < 16"
    then have "copy_of (ds ! j) (?b j)" using w1(3) by blast
    from copy_header [OF this] show "slot_data (block_slot w1 start j) = Some (?b j) \<and>
        get_index (?b j) = Some (base + of_nat j) \<and> read_id pk (?b j) \<noteq> None"
      using j w1(3) ds by (simp add: data_block_def)
  qed
  have free1: "\<forall>j. 12 \<le> j \<and> j < 16 \<longrightarrow> slot_coding (block_slot w1 start j) = None" using w1(3) free by simp
  obtain c w2 where w2: "each_slot (place_coding pk ?n) [start + NUM_DATA - NUM_CODING..<start + NUM_DATA] w1 = Some (map c [12..<16], w2)"
    "length w2 = length w1" "\<forall>j < 16. block_slot w2 start j =
      (if 12 \<le> j then (block_slot w1 start j)\<lparr>slot_coding := Some (c j)\<rparr> else block_slot w1 start j) \<and>
      coding_blob (base + of_nat j) ?n (replicate ?n 0) (c j)"
    using place_coding_pass [OF pk n(1) w1' b1 free1] by blast
  have w2': "16 \<le> length w2" using w1' w2(2) by simp
  have "\<forall>j. 12 \<le> j \<and> j < 16 \<longrightarrow> slot_coding (block_slot w2 start j) = Some (c j) \<and> coding_blob (base + of_nat j) ?n (replicate ?n 0) (c j)"
    using w2(3) by simp
  from put_coding_pass [OF w2' n(1) blocks this] obtain e w3 rs where
    w3: "each_slot (put_coding (start + NUM_DATA - NUM_CODING) ?blocks) [start + NUM_DATA - NUM_CODING..<start + NUM_DATA] w2 = Some (rs, w3)"
    "length w3 = length w2" "\<forall>j < 16. block_slot w3 start j =
      (if 12 \<le> j then (block_slot w2 start j)\<lparr>slot_coding := Some (e j)\<rparr> else block_slot w2 start j)"
    "\<forall>j. 12 \<le> j \<and> j < 16 \<longrightarrow> coding_blob (base + of_nat j) ?n (?blocks ! (j - 12)) (e j)"
    by blast
  have "sequence_panics (map (\<lambda>j. subslice 0 ?n (d j)) [0..<16]) = Some (map (\<lambda>j. padded ?n (ds ! j)) [0..<16])"
    using w1(3) by (intro sequence_panics_Some) simp
  then have data_ptrs: "sequence_panics (map (subslice 0 ?n) (List.map_filter (\<lambda>d. d) (map (\<lambda>j. Some (d j)) [0..<16]))) =
      Some (map (padded ?n) ds)"
    using map_nth_16 [OF len, of "padded ?n"] by (simp add: map_filter_def comp_def)
  have "sequence_panics (map (\<lambda>j. coding_part ?n (c j)) [12..<16]) = Some (map (\<lambda>j. replicate ?n 0) [12..<16])"
    using w2(3) by (intro sequence_panics_Some) (auto simp: coding_blob_def)
  then have coding_ptrs: "sequence_panics (map (coding_part ?n) (map c [12..<16])) = Some (replicate 4 (replicate ?n 0))"
    by (simp add: comp_def eval_nat_numeral)
  have "code_block je pk start (map (\<lambda>b. meta_size (blob_meta b)) ds) w = Some (Inr (), w3)"
    using w1(1) w2(1) w3(1) data_ptrs coding_ptrs generate_blocks_eq [OF ds]
    by (simp add: code_block_def coded_size_def [symmetric] Let_def)
  then show ?thesis using w1(2,3) w2(2,3) w3(2-4) by auto
qed

lemma those_map_Some: "those (map (\<lambda>x. Some (f x)) xs) = Some (map f xs)"
  by (induction xs) simp_all

text \<open>The blobs that complete a block make \<open>generate_coding\<close> code it.\<close>

lemma generate_coding_codes:
  assumes pk: "fixed_codec pk 32" and ds: "data_block pk base ds" and w: "16 \<le> length w"
    and start: "start_idx = unat receive_index mod length w" "start = start_idx - start_idx mod 16"
    and full: "start + 16 \<le> start_idx + num_blobs" "start_idx + num_blobs < start + 32"
    and data: "\<forall>j < 16. slot_data (block_slot w start j) = Some (ds ! j)"
    and free: "\<forall>j. 12 \<le> j \<and> j < 16 \<longrightarrow> slot_coding (block_slot w start j) = None"
    and blocks: "length (coding_blocks je ds) = 4" "\<forall>c \<in> set (coding_blocks je ds). length c = coded_size ds"
  shows "\<exists>w' ti'. generate_coding je pk w receive_index num_blobs ti = Some (Inr (), w', ti') \<and> length w' = length w \<and>
    (\<forall>j < 16. \<exists>b. slot_data (block_slot w' start j) = Some b \<and> copy_of (ds ! j) b) \<and>
    (\<forall>j. 12 \<le> j \<and> j < 16 \<longrightarrow> (\<exists>c. slot_coding (block_slot w' start j) = Some c \<and>
      coding_blob (base + of_nat j) (coded_size ds) (coding_blocks je ds ! (j - 12)) c))"
proof -
  let ?sizes = "map (\<lambda>b. meta_size (blob_meta b)) ds"
  have len: "length ds = 16" using ds by (simp add: data_block_def)
  obtain w' where w': "code_block je pk start ?sizes w = Some (Inr (), w')" "length w' = length w"
    "\<forall>j < 16. \<exists>b. slot_data (block_slot w' start j) = Some b \<and> copy_of (ds ! j) b"
    "\<forall>j. 12 \<le> j \<and> j < 16 \<longrightarrow> (\<exists>c. slot_coding (block_slot w' start j) = Some c \<and>
      coding_blob (base + of_nat j) (coded_size ds) (coding_blocks je ds ! (j - 12)) c)"
    using code_block_codes [OF pk ds w data free blocks] by blast
  have "\<forall>j < 16. data_size_of (start + j) (block_slot w start j) = Some (Some (meta_size (blob_meta (ds ! j))), block_slot w start j)"
    using data by (simp add: data_size_of_def)
  from each_slot_data [OF w this] obtain wd where
    "each_slot data_size_of [start..<start + NUM_DATA] w = Some (map (\<lambda>j. Some (meta_size (blob_meta (ds ! j)))) [0..<16], wd)"
    by blast
  moreover have "those (map (\<lambda>j. Some (meta_size (blob_meta (ds ! j)))) [0..<16]) = Some ?sizes"
    unfolding those_map_Some using map_nth_16 [OF len, of "\<lambda>b. meta_size (blob_meta b)"] by simp
  ultimately have "\<exists>ti'. generate_loop je pk (start_idx + num_blobs) cis start w ti = Some (Inr (), w', ti')" for cis
    using w'(1) full by (subst generate_loop.simps) (simp add: NUM_DATA_def Let_def generate_loop.simps [of _ _ _ _ "start + 16"])
  moreover have "w \<noteq> []" using w by auto
  ultimately have "\<exists>ti'. generate_coding je pk w receive_index num_blobs ti = Some (Inr (), w', ti')"
    using start by (simp add: generate_coding_def Let_def NUM_DATA_def)
  then show ?thesis using w'(2-4) by blast
qed

section \<open>Finding what is lost\<close>

definition lost :: "u64 \<Rightarrow> blob option \<Rightarrow> bool" where
  "lost idx s \<longleftrightarrow> (case s of None \<Rightarrow> True | Some b \<Rightarrow> get_index b \<noteq> Some idx)"

definition kept :: "u64 \<Rightarrow> blob option \<Rightarrow> blob option" where
  "kept idx s = (if lost idx s then None else s)"

lemma is_missing_eq:
  assumes "\<forall>b. s = Some b \<longrightarrow> blob_wf b"
  shows "is_missing idx s = Some (lost idx s, kept idx s)"
proof (cases s)
  case (Some b)
  then obtain ix where "get_index b = Some ix"
    using assms by (simp add: get_index_def subslice_def blob_wf_def blob_ends)
  then show ?thesis using Some by (auto simp: is_missing_def lost_def kept_def)
qed (simp add: is_missing_def lost_def kept_def)

definition clean_slot :: "u64 \<Rightarrow> nat \<Rightarrow> window_slot \<Rightarrow> window_slot" where
  "clean_slot base j s = s\<lparr>slot_data := kept (base + of_nat j) (slot_data s),
     slot_coding := (if 12 \<le> j then kept (base + of_nat j) (slot_coding s) else slot_coding s)\<rparr>"

lemma find_missing_eq:
  assumes w: "16 \<le> length w"
    and wf: "\<forall>j < 16. \<forall>b. slot_data (block_slot w start j) = Some b \<or> 12 \<le> j \<and> slot_coding (block_slot w start j) = Some b \<longrightarrow> blob_wf b"
  shows "\<exists>w'. find_missing base start w =
      Some (length (filter (\<lambda>j. lost (base + of_nat j) (slot_data (block_slot w start j))) [0..<16]),
        length (filter (\<lambda>j. lost (base + of_nat j) (slot_coding (block_slot w start j))) [12..<16]), w') \<and>
    length w' = length w \<and> (\<forall>j < 16. block_slot w' start j = clean_slot base j (block_slot w start j))"
proof -
  let ?d = "\<lambda>j. lost (base + of_nat j) (slot_data (block_slot w start j))"
    and ?c = "\<lambda>j. lost (base + of_nat j) (slot_coding (block_slot w start j))"
  have "\<forall>j < 16. missing_in_slot base start (start + j) (block_slot w start j) =
      Some ((?d j, 12 \<le> j \<and> ?c j), clean_slot base j (block_slot w start j))"
    using wf by (auto simp: missing_in_slot_def is_missing_eq clean_slot_def NUM_DATA_def NUM_CODING_def add.commute Let_def)
  from each_slot_data [OF w this] obtain w' where
    w': "each_slot (missing_in_slot base start) [start..<start + NUM_DATA] w = Some (map (\<lambda>j. (?d j, 12 \<le> j \<and> ?c j)) [0..<16], w')"
    "length w' = length w" "\<forall>j < 16. block_slot w' start j = clean_slot base j (block_slot w start j)"
    by blast
  have "filter (\<lambda>j. 12 \<le> j \<and> ?c j) [0..<16] = filter ?c [12..<16]"
  proof -
    have "[0..<16] = [0..<12] @ [12..<16 :: nat]" using upt_add_eq_append [of 0 12 4] by simp
    moreover have "filter (\<lambda>j. 12 \<le> j \<and> ?c j) [0..<12] = []" by (simp add: filter_empty_conv del: upt_rec_numeral)
    moreover have "filter (\<lambda>j. 12 \<le> j \<and> ?c j) [12..<16] = filter ?c [12..<16]" by (rule filter_cong) auto
    ultimately show ?thesis by (simp only: filter_append append_Nil)
  qed
  then show ?thesis
    using w' by (auto simp: find_missing_def filter_map comp_def simp del: upt_rec_numeral)
qed

section \<open>Recovering\<close>

text \<open>What the code relies on from the library: from the blocks it encoded, with at most \<open>NUM_CODING\<close> of them
  replaced by anything of the same length, the decoder computes all of them.\<close>

definition corrects :: "jerasure \<Rightarrow> blob list \<Rightarrow> bool" where
  "corrects je ds \<longleftrightarrow>
     (let n = coded_size ds; blocks = map (padded n) ds; coding = coding_blocks je ds in
      length coding = 4 \<and> (\<forall>c \<in> set coding. length c = n) \<and>
      (\<forall>E data coding'. E \<noteq> [] \<and> length E \<le> 4 \<and> distinct E \<and> set E \<subseteq> {0..<20} \<and>
         length data = 16 \<and> length coding' = 4 \<and> (\<forall>x \<in> set (data @ coding'). length x = n) \<and>
         (\<forall>j < 20. j \<notin> set E \<longrightarrow> (data @ coding') ! j = (blocks @ coding) ! j) \<longrightarrow>
         jerasure_matrix_decode je 16 4 32 (get_matrix je 4 16 32) 0 (map of_nat E @ [- 1]) data coding' (of_nat n) =
           (0, blocks, coding)))"

text \<open>A blob whose first bytes have been computed again.\<close>

definition restored :: "nat \<Rightarrow> blob \<Rightarrow> blob \<Rightarrow> bool" where
  "restored n b b' \<longleftrightarrow> blob_wf b' \<and> take n (blob_data b') = padded n b"

lemma take_padded: "m \<le> blob_len b \<Longrightarrow> blob_len b \<le> length (blob_data b) \<Longrightarrow> take m (padded n b) = take m (blob_data b)"
  by (simp add: padded_def min_def)

lemma restored_copy:
  assumes "restored n b b'" "blob_wf b" "blob_len b \<le> n" "n \<le> 65344" "meta_size (blob_meta b') = meta_size (blob_meta b)"
  shows "copy_of b b'"
proof -
  have "take (blob_len b) (take n (blob_data b')) = take (blob_len b) (blob_data b)"
    using assms by (simp add: restored_def take_padded blob_wf_def BLOB_SIZE_def)
  then show ?thesis using assms by (simp add: copy_of_def restored_def min.absorb1)
qed

lemma restored_header:
  assumes "restored n b b'" "blob_wf b" "64 \<le> blob_len b" "blob_len b \<le> n" "n \<le> 65344" "e \<le> 64"
  shows "subslice a e (blob_data b') = subslice a e (blob_data b)"
proof -
  have "take e (take n (blob_data b')) = take e (blob_data b)"
    using assms by (simp add: restored_def take_padded blob_wf_def BLOB_SIZE_def)
  then have "take e (blob_data b') = take e (blob_data b)" using assms(3-6) by (simp add: min.absorb1)
  then have "take (e - a) (drop a (blob_data b')) = take (e - a) (drop a (blob_data b))" by (simp only: drop_take [symmetric])
  then show ?thesis using assms(1,2) by (simp add: subslice_def restored_def blob_wf_def)
qed

text \<open>Writing the size that is there already changes nothing.\<close>

lemma set_size_same:
  assumes "blob_wf b" "get_data_size b = Some sz"
  shows "set_size (sz - 64) b = Some (b\<lparr>blob_meta := (blob_meta b)\<lparr>meta_size := sz\<rparr>\<rparr>)"
proof -
  obtain bs where bs: "subslice 44 52 (blob_data b) = Some bs" "le_word bs = sz"
    using assms(2) by (auto simp: get_data_size_def blob_ends)
  then have "le_bytes 8 sz = bs" using le_bytes_le_word [where 'a = 64, of bs] subslice_length [OF bs(1)] by auto
  moreover have "overwrite 44 bs (blob_data b) = Some (blob_data b)"
  proof -
    have "take 44 (blob_data b) @ take 8 (drop 44 (blob_data b)) @ drop 52 (blob_data b) = blob_data b"
      using append_take_drop_id [of 44 "blob_data b"] append_take_drop_id [of 8 "drop 44 (blob_data b)"] by simp
    then show ?thesis using bs(1) by (auto simp: subslice_eq_Some overwrite_def)
  qed
  ultimately show ?thesis
    using subslice_length [OF bs(1)] by (simp add: set_size_def set_data_size_def set_range_def blob_ends Let_def)
qed

lemma fix_recovered_data:
  assumes "restored n b b'" "blob_wf b" "64 \<le> blob_len b" "blob_len b \<le> n" "n \<le> 65344" "j < 16"
    and "get_data_size b = Some (meta_size (blob_meta b))"
  shows "\<exists>b''. fix_recovered base sz meta j b' = Some (False, b'') \<and> restored n b b'' \<and> copy_of b b''"
proof -
  have wf: "blob_wf b'" using assms(1) by (simp add: restored_def)
  have "get_data_size b' = Some (meta_size (blob_meta b))"
    using assms(7) restored_header [OF assms(1-5), of 52 44] by (simp add: get_data_size_def blob_ends)
  then have size: "get_data_size (b'\<lparr>blob_meta := meta\<rparr>) = Some (meta_size (blob_meta b))" by (simp add: get_data_size_def)
  let ?b = "b'\<lparr>blob_meta := meta\<lparr>meta_size := meta_size (blob_meta b)\<rparr>\<rparr>"
  have "set_size (meta_size (blob_meta b) - 64) (b'\<lparr>blob_meta := meta\<rparr>) = Some ?b"
    using set_size_same [OF _ size] wf by (simp add: blob_wf_def)
  moreover have "\<not> 65280 < meta_size (blob_meta b) - 64"
    using assms(3-5) by (simp add: word_less_nat_alt unat_sub word_le_nat_alt)
  ultimately have "fix_recovered base sz meta j b' = Some (False, ?b)"
    using \<open>get_data_size b' = _\<close> assms(6)
    by (simp add: fix_recovered_def NUM_DATA_def BLOB_HEADER_SIZE_eq BLOB_DATA_SIZE_eq)
  moreover have "restored n b ?b" using assms(1) by (simp add: restored_def blob_wf_def)
  ultimately show ?thesis using restored_copy [of n b ?b] assms(2,4,5) by simp
qed

lemma fix_recovered_coding:
  assumes "blob_wf b" "\<not> j < 16" "64 \<le> unat sz" "unat sz \<le> 65344"
  shows "\<exists>b'. fix_recovered base sz meta j b = Some (False, b') \<and> blob_wf b'"
proof -
  obtain b1 where b1: "set_index (of_nat j + base - 4) b = Some b1" "blob_wf b1"
    using index_field.set_total [OF assms(1)] index_field.set_wf [OF assms(1)] by blast
  obtain b2 where "set_size sz (b1\<lparr>blob_meta := meta\<rparr>) = Some b2" "blob_wf b2"
    by (rule set_size_wf [of "b1\<lparr>blob_meta := meta\<rparr>" sz]) (use b1(2) in \<open>auto simp: blob_wf_def\<close>)
  moreover have "\<not> 65280 < sz - 64" using assms(3,4) by (simp add: word_less_nat_alt unat_sub word_le_nat_alt)
  ultimately show ?thesis
    using assms(2) b1(1) by (simp add: fix_recovered_def NUM_DATA_def NUM_CODING_def BLOB_HEADER_SIZE_eq BLOB_DATA_SIZE_eq Let_def)
qed

lemma i32_of_nat: "e < 20 \<Longrightarrow> sint (of_nat e :: i32) = int e"
  by (simp add: signed_of_nat signed_take_bit_int_eq_self)

lemma fix_all_restores:
  assumes ds: "data_block pk base ds" and sz: "unat sz = coded_size ds" and E: "set E \<subseteq> {0..<20}"
    and locks: "length locks = 20" "\<forall>j < 20. blob_wf (locks ! j)" "\<forall>j < 16. restored (coded_size ds) (ds ! j) (locks ! j)"
    and rest: "\<forall>j < 16. j \<notin> set E \<longrightarrow> copy_of (ds ! j) (locks ! j)"
  shows "\<exists>locks'. fix_all base' sz meta (map of_nat E) locks = Some (False, locks') \<and> length locks' = 20 \<and>
    (\<forall>j < 16. copy_of (ds ! j) (locks' ! j))"
  using E locks rest
proof (induction E arbitrary: locks)
  case (Cons e E)
  note n = data_block_sizes [OF ds]
  have e: "e < 20" using Cons.prems(1) by simp
  obtain b where b: "fix_recovered base' sz meta e (locks ! e) = Some (False, b)" "blob_wf b"
    "e < 16 \<Longrightarrow> restored (coded_size ds) (ds ! e) b \<and> copy_of (ds ! e) b"
  proof (cases "e < 16")
    case True
    then obtain b where b: "fix_recovered base' sz meta e (locks ! e) = Some (False, b)"
      "restored (coded_size ds) (ds ! e) b" "copy_of (ds ! e) b"
      using fix_recovered_data [of "coded_size ds" "ds ! e" "locks ! e" e base' sz meta] n Cons.prems(4) ds
      by (auto simp: data_block_def)
    then show ?thesis by (intro that [of b]) (simp_all add: restored_def)
  next
    case False
    then show ?thesis
      using fix_recovered_coding [of "locks ! e" e sz base' meta] Cons.prems(3) e n(1,3) sz that by auto
  qed
  let ?locks = "locks[e := b]"
  have "\<exists>locks'. fix_all base' sz meta (map of_nat E) ?locks = Some (False, locks') \<and> length locks' = 20 \<and>
      (\<forall>j < 16. copy_of (ds ! j) (locks' ! j))"
    by (rule Cons.IH) (use Cons.prems b(2,3) in \<open>auto simp: nth_list_update\<close>)
  then show ?case using b(1) e Cons.prems(2) by (auto simp: i32_of_nat get_at_def)
qed simp

lemma put_blobs_puts:
  assumes "16 \<le> length w" "length locks = 20"
  shows "\<exists>w'. put_blobs start locks w = Some w' \<and> length w' = length w \<and>
    (\<forall>j < 16. slot_data (block_slot w' start j) = Some (locks ! j))"
proof -
  have "\<forall>j < 16. put_data_blob start locks (start + j) (block_slot w start j) =
      Some ((), (block_slot w start j)\<lparr>slot_data := Some (locks ! j)\<rparr>)"
    using assms(2) by (simp add: put_data_blob_def get_at_def)
  from each_slot_data [OF assms(1) this] obtain w1 where
    w1: "each_slot (put_data_blob start locks) [start..<start + NUM_DATA] w = Some (map (\<lambda>j. ()) [0..<16], w1)"
    "length w1 = length w" "\<forall>j < 16. block_slot w1 start j = (block_slot w start j)\<lparr>slot_data := Some (locks ! j)\<rparr>"
    by blast
  have w1': "16 \<le> length w1" using w1(2) assms(1) by simp
  have "\<forall>j. 12 \<le> j \<and> j < 16 \<longrightarrow>
      put_coding_blob (start + NUM_DATA - NUM_CODING) (drop NUM_DATA locks) (start + j) (block_slot w1 start j) =
      Some ((), (block_slot w1 start j)\<lparr>slot_coding := Some (drop NUM_DATA locks ! (j - 12))\<rparr>)"
    using assms(2) by (auto simp: put_coding_blob_def get_at_def NUM_DATA_def NUM_CODING_def)
  from each_slot_coding [OF w1' this] obtain w2 where
    w2: "each_slot (put_coding_blob (start + NUM_DATA - NUM_CODING) (drop NUM_DATA locks))
      [start + NUM_DATA - NUM_CODING..<start + NUM_DATA] w1 = Some (map (\<lambda>j. ()) [12..<16], w2)"
    "length w2 = length w1" "\<forall>j < 16. block_slot w2 start j = (if 12 \<le> j
      then (block_slot w1 start j)\<lparr>slot_coding := Some (drop NUM_DATA locks ! (j - 12))\<rparr> else block_slot w1 start j)"
    by blast
  then have "put_blobs start locks w = Some w2" using w1(1) by (simp add: put_blobs_def Let_def)
  then show ?thesis using w1(2,3) w2(2,3) by auto
qed

lemma sequence_map2:
  assumes "length xs = length ys" "\<And>i. i < length xs \<Longrightarrow> f (xs ! i) (ys ! i) = Some (r i)"
  shows "sequence_panics (map2 f xs ys) = Some (map r [0..<length xs])"
proof -
  have "map2 f xs ys = map (\<lambda>i. f (xs ! i) (ys ! i)) [0..<length xs]"
    by (rule nth_equalityI) (use assms(1) in simp_all)
  then show ?thesis using sequence_panics_Some [of "[0..<length xs]" "\<lambda>i. f (xs ! i) (ys ! i)" r] assms(2) by simp
qed

lemma erased_map:
  "erased first (map (\<lambda>j. (g j, b j)) [a..<a + k]) = map (\<lambda>j. of_nat (first + (j - a))) (filter g [a..<a + k])"
  by (induction k) (simp_all add: erased_def enumerate_append_eq)

lemma length_padded: "data_block pk base ds \<Longrightarrow> j < 16 \<Longrightarrow> length (padded (coded_size ds) (ds ! j)) = coded_size ds"
  using data_block_sizes [of pk base ds] by (auto simp: padded_def data_block_def blob_wf_def BLOB_SIZE_def)

lemma corrects_decode:
  assumes "corrects je ds" "E \<noteq> [] \<and> length E \<le> 4 \<and> distinct E \<and> set E \<subseteq> {0..<20} \<and>
      length data = 16 \<and> length coding' = 4 \<and> (\<forall>x \<in> set (data @ coding'). length x = coded_size ds) \<and>
      (\<forall>j < 20. j \<notin> set E \<longrightarrow> (data @ coding') ! j = (map (padded (coded_size ds)) ds @ coding_blocks je ds) ! j)"
  shows "jerasure_matrix_decode je 16 4 32 (get_matrix je 4 16 32) 0 (map of_nat E @ [- 1]) data coding' (of_nat (coded_size ds)) =
    (0, map (padded (coded_size ds)) ds, coding_blocks je ds)"
proof -
  have "\<forall>E data coding'. E \<noteq> [] \<and> length E \<le> 4 \<and> distinct E \<and> set E \<subseteq> {0..<20} \<and>
      length data = 16 \<and> length coding' = 4 \<and> (\<forall>x \<in> set (data @ coding'). length x = coded_size ds) \<and>
      (\<forall>j < 20. j \<notin> set E \<longrightarrow> (data @ coding') ! j = (map (padded (coded_size ds)) ds @ coding_blocks je ds) ! j) \<longrightarrow>
      jerasure_matrix_decode je 16 4 32 (get_matrix je 4 16 32) 0 (map of_nat E @ [- 1]) data coding' (of_nat (coded_size ds)) =
        (0, map (padded (coded_size ds)) ds, coding_blocks je ds)"
    using assms(1) unfolding corrects_def Let_def by (elim conjE) assumption
  then show ?thesis using assms(2) by (elim allE impE)
qed

lemma decode_blocks_eq:
  assumes "data \<noteq> []" "\<forall>x \<in> set (data @ coding). length x = n" "length data = 16" "length coding = 4"
    and "jerasure_matrix_decode je 16 4 32 (get_matrix je 4 16 32) 0 erasures data coding (of_nat n) = (0, data', coding')"
    and "get_at erasures 0 = Some (of_nat e)" "e < length data'" "e < 20" "8 \<le> length (data' ! e)"
  shows "decode_blocks je data coding erasures = Some (Inr (), data', coding')"
proof -
  obtain x xs where data: "data = x # xs" using assms(1) by (cases data) auto
  then have n: "length x = n" "length xs = 15" using assms(2,3) by auto
  have same: "list_all (\<lambda>y. length y = n) coding" "list_all (\<lambda>y. length y = n) data"
    using assms(2) by (auto simp: list_all_iff)
  show ?thesis
    using same assms(4-9) n unfolding decode_blocks_def data
    by (simp add: Let_def ERASURE_W_def i32_of_nat get_at_Some subslice_def)
qed

text \<open>Decoding gives every data blob its bytes back.\<close>

lemma decode_blobs_restores:
  assumes ds: "data_block pk base ds" and je: "corrects je ds"
    and zs: "length zs = 16" "\<forall>j < 16. blob_wf (zs ! j) \<and> (j \<notin> set E \<longrightarrow> take (coded_size ds) (blob_data (zs ! j)) = padded (coded_size ds) (ds ! j))"
    and cs: "length cs = 4" "\<forall>i < 4. blob_wf (cs ! i) \<and> (16 + i \<notin> set E \<longrightarrow> coding_part (coded_size ds) (cs ! i) = Some (coding_blocks je ds ! i))"
    and E: "E \<noteq> []" "hd E < 16" "length E \<le> 4" "distinct E" "set E \<subseteq> {0..<20}"
  shows "\<exists>locks. decode_blobs je (coded_size ds) (map of_nat E @ [- 1]) (zs @ cs) = Some (Inr (), locks) \<and> length locks = 20 \<and>
    (\<forall>j < 20. blob_wf (locks ! j)) \<and> (\<forall>j < 16. restored (coded_size ds) (ds ! j) (locks ! j) \<and> blob_meta (locks ! j) = blob_meta (zs ! j))"
proof -
  let ?n = "coded_size ds" and ?data = "map (padded (coded_size ds)) ds" and ?coding = "coding_blocks je ds"
  note n = data_block_sizes [OF ds]
  have len: "length ds = 16" using ds by (simp add: data_block_def)
  have coding: "length ?coding = 4" "\<And>i. i < 4 \<Longrightarrow> length (?coding ! i) = ?n" using je by (auto simp: corrects_def Let_def)
  let ?d = "map (\<lambda>b. take ?n (blob_data b)) zs" and ?c = "map (\<lambda>b. take ?n (drop 64 (blob_data b))) cs"
  have d: "sequence_panics (map (\<lambda>b. subslice 0 ?n (blob_data b)) zs) = Some ?d"
    using zs n(1) by (intro sequence_panics_Some) (auto simp: subslice_def blob_wf_def BLOB_SIZE_def in_set_conv_nth)
  have part: "coding_part ?n b = Some (take ?n (drop 64 (blob_data b)))" if "blob_wf b" for b
    using that n(1) coding_part_eq [OF that n(1)] by (simp add: subslice_def blob_wf_def BLOB_SIZE_def)
  have c: "sequence_panics (map (coding_part ?n) cs) = Some ?c"
    using cs part by (intro sequence_panics_Some) (auto simp: in_set_conv_nth)
  have wide: "\<forall>x \<in> set (?d @ ?c). length x = ?n"
    using zs cs n(1) by (auto simp: blob_wf_def BLOB_SIZE_def in_set_conv_nth)
  have same: "\<forall>j < 20. j \<notin> set E \<longrightarrow> (?d @ ?c) ! j = (?data @ ?coding) ! j"
  proof (intro allI impI)
    fix j assume j: "j < 20" "j \<notin> set E"
    show "(?d @ ?c) ! j = (?data @ ?coding) ! j"
    proof (cases "j < 16")
      case True
      then show ?thesis using zs j(2) len by (simp add: nth_append)
    next
      case False
      then show ?thesis using cs(1) cs(2) [rule_format, of "j - 16"] part [of "cs ! (j - 16)"] j zs(1) len by (simp add: nth_append)
    qed
  qed
  have "jerasure_matrix_decode je 16 4 32 (get_matrix je 4 16 32) 0 (map of_nat E @ [- 1]) ?d ?c (of_nat ?n) = (0, ?data, ?coding)"
    by (rule corrects_decode [OF je], intro conjI E(1,3-5) wide same) (simp_all add: zs(1) cs(1))
  then have dec: "decode_blocks je ?d ?c (map of_nat E @ [- 1]) = Some (Inr (), ?data, ?coding)"
  proof (rule decode_blocks_eq [OF _ wide, rotated 3])
    show "get_at (map of_nat E @ [- 1]) 0 = Some (of_nat (hd E))" using E(1) by (cases E) (simp_all add: get_at_def)
    show "8 \<le> length (?data ! hd E)" using length_padded [OF ds E(2)] n(3) len E(2) by simp
  qed (use zs(1) cs(1) len E(2) in auto)
  have fill: "\<exists>b'. do { d \<leftarrow> overwrite 0 (padded ?n (ds ! j)) (blob_data (zs ! j)); Some ((zs ! j)\<lparr>blob_data := d\<rparr>) } = Some b' \<and>
      restored ?n (ds ! j) b' \<and> blob_meta b' = blob_meta (zs ! j)" if "j < 16" for j
    using zs that length_padded [OF ds that] n(1) by (simp add: overwrite_def restored_def blob_wf_def BLOB_SIZE_def)
  then obtain b where b: "\<And>j. j < 16 \<Longrightarrow> do { d \<leftarrow> overwrite 0 (padded ?n (ds ! j)) (blob_data (zs ! j)); Some ((zs ! j)\<lparr>blob_data := d\<rparr>) } = Some (b j)"
    "\<And>j. j < 16 \<Longrightarrow> restored ?n (ds ! j) (b j) \<and> blob_meta (b j) = blob_meta (zs ! j)"
    by metis
  have "\<exists>c'. set_coding_part (?coding ! i) (cs ! i) = Some c' \<and> blob_wf c'" if "i < 4" for i
    using cs that coding n(1) by (simp add: set_coding_part_def overwrite_def blob_wf_def BLOB_HEADER_SIZE_eq BLOB_SIZE_def)
  then obtain c' where c': "\<And>i. i < 4 \<Longrightarrow> set_coding_part (?coding ! i) (cs ! i) = Some (c' i)" "\<And>i. i < 4 \<Longrightarrow> blob_wf (c' i)"
    by metis
  have "decode_blobs je ?n (map of_nat E @ [- 1]) (zs @ cs) = Some (Inr (), map b [0..<16] @ map c' [0..<4])"
    using d c dec sequence_map2 [of ?data zs _ b] sequence_map2 [of ?coding cs set_coding_part c'] b(1) c'(1) zs(1) cs(1) len coding(1)
    by (simp add: decode_blobs_def NUM_DATA_def)
  then show ?thesis
    using b(2) c'(2) by (intro exI [of _ "map b [0..<16] @ map c' [0..<4]"]) (auto simp: nth_append restored_def)
qed

text \<open>A window that has received some blobs of a block: what has the right index is a copy of what was sent.\<close>

definition received_block :: "jerasure \<Rightarrow> u64 \<Rightarrow> blob list \<Rightarrow> nat \<Rightarrow> window \<Rightarrow> bool" where
  "received_block je base ds start w \<longleftrightarrow> 16 \<le> length w \<and>
     (\<forall>j < 16. \<forall>b. slot_data (block_slot w start j) = Some b \<longrightarrow> blob_wf b \<and>
        (get_index b = Some (base + of_nat j) \<longrightarrow> copy_of (ds ! j) b)) \<and>
     (\<forall>j. 12 \<le> j \<and> j < 16 \<longrightarrow> (\<forall>b. slot_coding (block_slot w start j) = Some b \<longrightarrow> blob_wf b \<and>
        (get_index b = Some (base + of_nat j) \<longrightarrow>
          (\<exists>c. coding_blob (base + of_nat j) (coded_size ds) (coding_blocks je ds ! (j - 12)) c \<and> copy_of c b))))"

definition lost_count :: "u64 \<Rightarrow> nat \<Rightarrow> window \<Rightarrow> nat" where
  "lost_count base start w =
     length (filter (\<lambda>j. lost (base + of_nat j) (slot_data (block_slot w start j))) [0..<16]) +
     length (filter (\<lambda>j. lost (base + of_nat j) (slot_coding (block_slot w start j))) [12..<16])"

lemma find_map:
  "List.find (\<lambda>(gone, b). \<not> gone) (map (\<lambda>j. (g j, b j)) xs) = map_option (\<lambda>j. (g j, b j)) (List.find (\<lambda>j. \<not> g j) xs)"
  by (induction xs) auto

lemma find_not_all: "length (filter g xs) < length xs \<Longrightarrow> \<exists>x. List.find (\<lambda>j. \<not> g j) xs = Some x \<and> x \<in> set xs \<and> \<not> g x"
  by (induction xs) (auto split: if_splits)

text \<open>The blobs as they are handed to the decoder.\<close>

definition taken :: "u64 \<Rightarrow> blob option \<Rightarrow> blob" where
  "taken idx s = (case kept idx s of None \<Rightarrow> Blob_default | Some b \<Rightarrow> b)"

lemma taken_blobs:
  assumes w: "16 \<le> length w" and clean: "\<forall>j < 16. block_slot w start j = clean_slot base j (s j)"
  shows "\<exists>w1 w2. each_slot take_data_blob [start..<start + NUM_DATA] w =
      Some (map (\<lambda>j. (lost (base + of_nat j) (slot_data (s j)), taken (base + of_nat j) (slot_data (s j)))) [0..<16], w1) \<and>
    each_slot take_coding_blob [start + NUM_DATA - NUM_CODING..<start + NUM_DATA] w1 =
      Some (map (\<lambda>j. (lost (base + of_nat j) (slot_coding (s j)), taken (base + of_nat j) (slot_coding (s j)))) [12..<16], w2) \<and>
    length w2 = length w"
proof -
  let ?rd = "\<lambda>j. (lost (base + of_nat j) (slot_data (s j)), taken (base + of_nat j) (slot_data (s j)))"
    and ?rc = "\<lambda>j. (lost (base + of_nat j) (slot_coding (s j)), taken (base + of_nat j) (slot_coding (s j)))"
  have "\<forall>j < 16. take_data_blob (start + j) (block_slot w start j) = Some (?rd j, (block_slot w start j)\<lparr>slot_data := Some (snd (?rd j))\<rparr>)"
    using clean by (auto simp: take_data_blob_def clean_slot_def taken_def kept_def lost_def split: option.split)
  from each_slot_data [OF w this] obtain w1 where w1: "each_slot take_data_blob [start..<start + NUM_DATA] w = Some (map ?rd [0..<16], w1)"
    "length w1 = length w" "\<forall>j < 16. block_slot w1 start j = (block_slot w start j)\<lparr>slot_data := Some (snd (?rd j))\<rparr>"
    by blast
  have w1': "16 \<le> length w1" using w w1(2) by simp
  have "\<forall>j. 12 \<le> j \<and> j < 16 \<longrightarrow> take_coding_blob (start + j) (block_slot w1 start j) =
      Some (?rc j, (block_slot w1 start j)\<lparr>slot_coding := Some (snd (?rc j))\<rparr>)"
    using clean w1(3) by (auto simp: take_coding_blob_def clean_slot_def taken_def kept_def lost_def split: option.split)
  from each_slot_coding [OF w1' this] obtain w2 where
    "each_slot take_coding_blob [start + NUM_DATA - NUM_CODING..<start + NUM_DATA] w1 = Some (map ?rc [12..<16], w2)" "length w2 = length w1"
    by blast
  then show ?thesis using w1(1,2) by (intro exI [of _ w1] exI [of _ w2]) simp
qed

text \<open>What was not lost.\<close>

lemma received_data:
  assumes "received_block je base ds start w" "j < 16" "\<not> lost (base + of_nat j) (slot_data (block_slot w start j))"
  shows "slot_data (block_slot w start j) = Some (taken (base + of_nat j) (slot_data (block_slot w start j)))"
    "copy_of (ds ! j) (taken (base + of_nat j) (slot_data (block_slot w start j)))"
  using assms by (auto simp: received_block_def lost_def taken_def kept_def split: option.splits)

lemma received_coding:
  assumes "received_block je base ds start w" "12 \<le> j" "j < 16" "\<not> lost (base + of_nat j) (slot_coding (block_slot w start j))"
    and "coded_size ds \<le> 65344"
  shows "coding_part (coded_size ds) (taken (base + of_nat j) (slot_coding (block_slot w start j))) = Some (coding_blocks je ds ! (j - 12))"
    "meta_size (blob_meta (taken (base + of_nat j) (slot_coding (block_slot w start j)))) = of_nat (coded_size ds) + 64"
proof -
  let ?b = "taken (base + of_nat j) (slot_coding (block_slot w start j))" and ?n = "coded_size ds"
  obtain b where b: "slot_coding (block_slot w start j) = Some b" "get_index b = Some (base + of_nat j)" "?b = b"
    using assms(4) by (auto simp: lost_def taken_def kept_def split: option.splits)
  then obtain c where c: "coding_blob (base + of_nat j) ?n (coding_blocks je ds ! (j - 12)) c" "copy_of c ?b"
    using assms(1-3) unfolding received_block_def by blast
  have len: "blob_len c = ?n + 64"
    using c(1) assms(5) by (simp add: coding_blob_def unat_word_ariths unat_of_nat_small)
  have "subslice 64 (64 + ?n) (blob_data ?b) = subslice 64 (64 + ?n) (blob_data c)"
    using c len by (intro copy_subslice) (simp_all add: coding_blob_def)
  then show "coding_part ?n ?b = Some (coding_blocks je ds ! (j - 12))"
    using c coding_part_eq [of ?b ?n] coding_part_eq [of c ?n] assms(5) by (simp add: coding_blob_def copy_of_def)
  show "meta_size (blob_meta ?b) = of_nat ?n + 64" using c by (simp add: coding_blob_def copy_of_def)
qed

lemma taken_wf:
  assumes "\<forall>b. s = Some b \<longrightarrow> blob_wf b"
  shows "blob_wf (taken idx s)" "lost idx s \<Longrightarrow> taken idx s = Blob_default"
  using assms by (auto simp: taken_def kept_def lost_def split: option.split)

text \<open>The erased indices: those of the lost data blobs and, behind them, of the lost coding blobs.\<close>

definition erasures_of :: "u64 \<Rightarrow> nat \<Rightarrow> window \<Rightarrow> nat list" where
  "erasures_of base start w =
     filter (\<lambda>j. lost (base + of_nat j) (slot_data (block_slot w start j))) [0..<16] @
     map (\<lambda>j. j + 4) (filter (\<lambda>j. lost (base + of_nat j) (slot_coding (block_slot w start j))) [12..<16])"

lemma erasures_of_facts:
  "length (erasures_of base start w) = lost_count base start w" "distinct (erasures_of base start w)"
  "set (erasures_of base start w) \<subseteq> {0..<20}"
  "j < 16 \<Longrightarrow> j \<in> set (erasures_of base start w) \<longleftrightarrow> lost (base + of_nat j) (slot_data (block_slot w start j))"
  "i < 4 \<Longrightarrow> 16 + i \<in> set (erasures_of base start w) \<longleftrightarrow> lost (base + of_nat (12 + i)) (slot_coding (block_slot w start (12 + i)))"
proof -
  show "length (erasures_of base start w) = lost_count base start w"
    by (simp add: erasures_of_def lost_count_def del: upt_rec_numeral)
  have "inj (\<lambda>j :: nat. j + 4)" by (simp add: inj_def)
  then show "distinct (erasures_of base start w)"
    by (auto simp: erasures_of_def distinct_map inj_on_def simp del: upt_rec_numeral)
  show "set (erasures_of base start w) \<subseteq> {0..<20}"
    by (auto simp: erasures_of_def simp del: upt_rec_numeral)
  show "j < 16 \<Longrightarrow> j \<in> set (erasures_of base start w) \<longleftrightarrow> lost (base + of_nat j) (slot_data (block_slot w start j))"
    by (auto simp: erasures_of_def simp del: upt_rec_numeral)
  have "16 + i = j + 4 \<longleftrightarrow> j = 12 + i" for j i :: nat by auto
  then show "i < 4 \<Longrightarrow> 16 + i \<in> set (erasures_of base start w) \<longleftrightarrow> lost (base + of_nat (12 + i)) (slot_coding (block_slot w start (12 + i)))"
    by (auto simp: erasures_of_def image_iff simp del: upt_rec_numeral)
qed

lemma erased_erasures:
  "erased 0 (map (\<lambda>j. (lost (base + of_nat j) (slot_data (block_slot w start j)), b j)) [0..<16]) @
     erased NUM_DATA (map (\<lambda>j. (lost (base + of_nat j) (slot_coding (block_slot w start j)), c j)) [12..<16]) =
     map of_nat (erasures_of base start w)"
proof -
  let ?lc = "\<lambda>j. lost (base + of_nat j) (slot_coding (block_slot w start j))"
  have "map (\<lambda>j. of_nat (16 + (j - 12))) (filter ?lc [12..<16]) = (map of_nat (map (\<lambda>j. j + 4) (filter ?lc [12..<16])) :: i32 list)"
    unfolding map_map by (rule map_cong) (auto simp: add.commute simp del: upt_rec_numeral of_nat_add)
  then show ?thesis
    using erased_map [of 0 "\<lambda>j. lost (base + of_nat j) (slot_data (block_slot w start j))" b 0 16] erased_map [of 16 ?lc c 12 4]
    by (simp add: erasures_of_def NUM_DATA_def del: upt_rec_numeral)
qed

text \<open>The data blobs with their tails zeroed, and the blobs the decoder is given.\<close>

lemma zeroed_taken:
  assumes ds: "data_block pk base ds" and recv: "received_block je base ds start w"
  shows "\<exists>z. sequence_panics (map (\<lambda>(gone, b). do {
        d \<leftarrow> zero_range (blob_len b) (coded_size ds) (blob_data b);
        Some (b\<lparr>blob_data := d\<rparr>) })
      (map (\<lambda>j. (lost (base + of_nat j) (slot_data (block_slot w start j)), taken (base + of_nat j) (slot_data (block_slot w start j)))) [0..<16])) =
      Some (map z [0..<16]) \<and>
    (\<forall>j < 16. blob_wf (z j) \<and> (\<not> lost (base + of_nat j) (slot_data (block_slot w start j)) \<longrightarrow>
      take (coded_size ds) (blob_data (z j)) = padded (coded_size ds) (ds ! j) \<and> meta_size (blob_meta (z j)) = meta_size (blob_meta (ds ! j))))"
proof -
  let ?n = "coded_size ds" and ?l = "\<lambda>j. lost (base + of_nat j) (slot_data (block_slot w start j))"
    and ?t = "\<lambda>j. taken (base + of_nat j) (slot_data (block_slot w start j))"
  note n = data_block_sizes [OF ds]
  have "\<forall>j. j < 16 \<longrightarrow> (\<exists>b. do { d \<leftarrow> zero_range (blob_len (?t j)) ?n (blob_data (?t j)); Some ((?t j)\<lparr>blob_data := d\<rparr>) } = Some b \<and>
      blob_wf b \<and> (\<not> ?l j \<longrightarrow> take ?n (blob_data b) = padded ?n (ds ! j) \<and> meta_size (blob_meta b) = meta_size (blob_meta (ds ! j))))"
  proof (intro allI impI)
    fix j :: nat assume j: "j < 16"
    show "\<exists>b. do { d \<leftarrow> zero_range (blob_len (?t j)) ?n (blob_data (?t j)); Some ((?t j)\<lparr>blob_data := d\<rparr>) } = Some b \<and>
      blob_wf b \<and> (\<not> ?l j \<longrightarrow> take ?n (blob_data b) = padded ?n (ds ! j) \<and> meta_size (blob_meta b) = meta_size (blob_meta (ds ! j)))"
    proof (cases "?l j")
      case True
      have "zero_range 0 ?n (blob_data Blob_default) = Some (blob_data Blob_default)"
        using n(1) by (intro zero_range_zeros) (simp add: BLOB_SIZE_def)
      then show ?thesis using True taken_wf(2) [of "slot_data (block_slot w start j)"] recv j
        by (simp add: received_block_def Blob_default_def Meta_default_def blob_wf_def)
    next
      case False
      from received_data(2) [OF recv j this] zeroed_copy [OF _ n(2) [OF j] n(1)]
      show ?thesis by (fastforce simp: copy_of_def)
    qed
  qed
  then have "\<exists>z. \<forall>j. j < 16 \<longrightarrow> do { d \<leftarrow> zero_range (blob_len (?t j)) ?n (blob_data (?t j)); Some ((?t j)\<lparr>blob_data := d\<rparr>) } = Some (z j) \<and>
      blob_wf (z j) \<and> (\<not> ?l j \<longrightarrow> take ?n (blob_data (z j)) = padded ?n (ds ! j) \<and> meta_size (blob_meta (z j)) = meta_size (blob_meta (ds ! j)))"
    by (rule choice_iff' [THEN iffD1])
  then obtain z where z: "\<forall>j. j < 16 \<longrightarrow> do { d \<leftarrow> zero_range (blob_len (?t j)) ?n (blob_data (?t j)); Some ((?t j)\<lparr>blob_data := d\<rparr>) } = Some (z j) \<and>
      blob_wf (z j) \<and> (\<not> ?l j \<longrightarrow> take ?n (blob_data (z j)) = padded ?n (ds ! j) \<and> meta_size (blob_meta (z j)) = meta_size (blob_meta (ds ! j)))"
    by blast
  then have "sequence_panics (map (\<lambda>j. do { d \<leftarrow> zero_range (blob_len (?t j)) ?n (blob_data (?t j)); Some ((?t j)\<lparr>blob_data := d\<rparr>) }) [0..<16]) =
      Some (map z [0..<16])"
    by (intro sequence_panics_Some) simp
  then show ?thesis using z by (intro exI [of _ z]) (simp add: comp_def del: upt_rec_numeral)
qed

text \<open>With a lost data blob and enough others, the blobs are decoded and put back.\<close>

lemma lost_blobs_decoded:
  assumes ds: "data_block pk base ds" and je: "corrects je ds" and recv: "received_block je base ds start w"
    and few: "lost_count base start w \<le> 4" and dm: "filter (\<lambda>j. lost (base + of_nat j) (slot_data (block_slot w start j))) [0..<16] \<noteq> []"
    and z: "\<forall>j < 16. blob_wf (z j) \<and> (\<not> lost (base + of_nat j) (slot_data (block_slot w start j)) \<longrightarrow>
      take (coded_size ds) (blob_data (z j)) = padded (coded_size ds) (ds ! j) \<and> meta_size (blob_meta (z j)) = meta_size (blob_meta (ds ! j)))"
  shows "\<exists>locks locks'. decode_blobs je (coded_size ds) (map of_nat (erasures_of base start w) @ [- 1]) (map z [0..<16] @
        map (\<lambda>j. taken (base + of_nat j) (slot_coding (block_slot w start j))) [12..<16]) = Some (Inr (), locks) \<and>
    fix_all base (of_nat (coded_size ds)) meta (map of_nat (erasures_of base start w)) locks = Some (False, locks') \<and>
    length locks' = 20 \<and> (\<forall>j < 16. copy_of (ds ! j) (locks' ! j))"
proof -
  let ?n = "coded_size ds" and ?E = "erasures_of base start w" and ?l = "\<lambda>j. lost (base + of_nat j) (slot_data (block_slot w start j))"
  let ?cs = "map (\<lambda>j. taken (base + of_nat j) (slot_coding (block_slot w start j))) [12..<16]"
  note n = data_block_sizes [OF ds] and E = erasures_of_facts [where base = base and start = start and w = w]
  have "hd ?E = hd (filter ?l [0..<16])" "?E \<noteq> []" using dm by (simp_all add: erasures_of_def hd_append del: upt_rec_numeral)
  moreover have "hd (filter ?l [0..<16]) < 16" using hd_in_set [OF dm] by (simp del: upt_rec_numeral)
  ultimately have E': "?E \<noteq> []" "hd ?E < 16" "length ?E \<le> 4" using few E(1) by simp_all
  have zs: "length (map z [0..<16]) = 16" "\<forall>j < 16. blob_wf (map z [0..<16] ! j) \<and>
      (j \<notin> set ?E \<longrightarrow> take ?n (blob_data (map z [0..<16] ! j)) = padded ?n (ds ! j))"
    using z E(4) by (simp_all del: upt_rec_numeral)
  have cs: "length ?cs = 4" "\<forall>i < 4. blob_wf (?cs ! i) \<and> (16 + i \<notin> set ?E \<longrightarrow> coding_part ?n (?cs ! i) = Some (coding_blocks je ds ! i))"
  proof -
    show "length ?cs = 4" by (simp del: upt_rec_numeral)
    show "\<forall>i < 4. blob_wf (?cs ! i) \<and> (16 + i \<notin> set ?E \<longrightarrow> coding_part ?n (?cs ! i) = Some (coding_blocks je ds ! i))"
    proof (intro allI impI)
      fix i :: nat assume i: "i < 4"
      let ?s = "slot_coding (block_slot w start (12 + i))"
      have "12 \<le> 12 + i \<and> 12 + i < 16" using i by simp
      then have "\<forall>b. ?s = Some b \<longrightarrow> blob_wf b" using recv unfolding received_block_def by blast
      moreover have "?cs ! i = taken (base + of_nat (12 + i)) ?s" using i by (simp add: nth_map_upt del: upt_rec_numeral)
      ultimately show "blob_wf (?cs ! i) \<and> (16 + i \<notin> set ?E \<longrightarrow> coding_part ?n (?cs ! i) = Some (coding_blocks je ds ! i))"
        using taken_wf(1) received_coding(1) [OF recv, of "12 + i"] n(1) i E(5) [OF i] by simp
    qed
  qed
  obtain locks where locks: "decode_blobs je ?n (map of_nat ?E @ [- 1]) (map z [0..<16] @ ?cs) = Some (Inr (), locks)"
    "length locks = 20" "\<forall>j < 20. blob_wf (locks ! j)" "\<forall>j < 16. restored ?n (ds ! j) (locks ! j) \<and> blob_meta (locks ! j) = blob_meta (map z [0..<16] ! j)"
    using decode_blobs_restores [OF ds je zs cs E'(1,2,3) E(2,3)] by blast
  have "\<forall>j < 16. j \<notin> set ?E \<longrightarrow> copy_of (ds ! j) (locks ! j)"
  proof (intro allI impI)
    fix j assume j: "j < 16" "j \<notin> set ?E"
    then have "meta_size (blob_meta (locks ! j)) = meta_size (blob_meta (ds ! j))" using locks(4) z E(4) by simp
    then show "copy_of (ds ! j) (locks ! j)"
      using restored_copy [of ?n "ds ! j" "locks ! j"] locks(4) j(1) n ds by (simp add: data_block_def)
  qed
  then have "\<exists>locks'. fix_all base (of_nat ?n) meta (map of_nat ?E) locks = Some (False, locks') \<and> length locks' = 20 \<and>
      (\<forall>j < 16. copy_of (ds ! j) (locks' ! j))"
    using n(1) locks(4) by (intro fix_all_restores [OF ds _ E(3) locks(2,3)]) (simp_all add: unat_of_nat_small)
  then show ?thesis using locks(1) by blast
qed

lemma recover_restores:
  assumes ds: "data_block pk base ds" and je: "corrects je ds" and recv: "received_block je base ds start w"
    and few: "lost_count base start w \<le> 4"
    and start: "start = st - st mod 16" "base = start_idx - start_idx mod 16"
  shows "\<exists>w'. erasure_recover je w start_idx st = Some (Inr (), w') \<and> length w' = length w \<and>
    (\<forall>j < 16. \<exists>b. slot_data (block_slot w' start j) = Some b \<and> copy_of (ds ! j) b)"
proof -
  let ?n = "coded_size ds" and ?s = "\<lambda>j. block_slot w start j" and ?E = "erasures_of base start w"
  let ?ld = "\<lambda>j. lost (base + of_nat j) (slot_data (?s j))" and ?lc = "\<lambda>j. lost (base + of_nat j) (slot_coding (?s j))"
  let ?td = "\<lambda>j. taken (base + of_nat j) (slot_data (?s j))" and ?tc = "\<lambda>j. taken (base + of_nat j) (slot_coding (?s j))"
  let ?dm = "filter ?ld [0..<16]" and ?cm = "filter ?lc [12..<16]"
  note n = data_block_sizes [OF ds]
  have w: "16 \<le> length w" using recv by (simp add: received_block_def)
  have wf: "\<forall>j < 16. \<forall>b. slot_data (?s j) = Some b \<or> 12 \<le> j \<and> slot_coding (?s j) = Some b \<longrightarrow> blob_wf b"
    using recv unfolding received_block_def by blast
  obtain w0 where w0: "find_missing base start w = Some (length ?dm, length ?cm, w0)" "length w0 = length w"
    "\<forall>j < 16. block_slot w0 start j = clean_slot base j (?s j)"
    using find_missing_eq [OF w wf] by blast
  have w0': "16 \<le> length w0" using w w0(2) by simp
  show ?thesis
  proof (cases "?dm = []")
    case True
    have "\<forall>j < 16. \<exists>b. slot_data (block_slot w0 start j) = Some b \<and> copy_of (ds ! j) b"
    proof (intro allI impI)
      fix j :: nat assume j: "j < 16"
      then have l: "\<not> ?ld j" using True by (simp add: filter_empty_conv del: upt_rec_numeral)
      then obtain b where "slot_data (?s j) = Some b" "copy_of (ds ! j) b" using received_data [OF recv j] by blast
      then show "\<exists>b. slot_data (block_slot w0 start j) = Some b \<and> copy_of (ds ! j) b"
        using w0(3) j l by (simp add: clean_slot_def kept_def)
    qed
    moreover have "erasure_recover je w start_idx st = Some (Inr (), w0)"
      using True w0(1) w start by (simp add: erasure_recover_def NUM_DATA_def Let_def del: upt_rec_numeral)
    ultimately show ?thesis using w0(2) by auto
  next
    case False
    have count: "length ?dm + length ?cm \<le> 4" "0 < length ?dm" using few False by (simp_all add: lost_count_def del: upt_rec_numeral)
    obtain w1 w2 where taken: "each_slot take_data_blob [start..<start + NUM_DATA] w0 = Some (map (\<lambda>j. (?ld j, ?td j)) [0..<16], w1)"
      "each_slot take_coding_blob [start + NUM_DATA - NUM_CODING..<start + NUM_DATA] w1 = Some (map (\<lambda>j. (?lc j, ?tc j)) [12..<16], w2)"
      "length w2 = length w0"
      using taken_blobs [OF w0' w0(3)] by blast
    obtain z where z: "sequence_panics (map (\<lambda>(gone, b). do { d \<leftarrow> zero_range (blob_len b) ?n (blob_data b); Some (b\<lparr>blob_data := d\<rparr>) })
        (map (\<lambda>j. (?ld j, ?td j)) [0..<16])) = Some (map z [0..<16])"
      "\<forall>j < 16. blob_wf (z j) \<and> (\<not> ?ld j \<longrightarrow> take ?n (blob_data (z j)) = padded ?n (ds ! j) \<and> meta_size (blob_meta (z j)) = meta_size (blob_meta (ds ! j)))"
      using zeroed_taken [OF ds recv] by blast
    obtain j0 where "List.find (\<lambda>j. \<not> ?ld j) [0..<16] = Some j0"
      using find_not_all [of ?ld "[0..<16]"] count by (auto simp del: upt_rec_numeral)
    then obtain meta where meta: "map_option (\<lambda>(gone, b). blob_meta b) (List.find (\<lambda>(gone, b). \<not> gone) (map (\<lambda>j. (?ld j, ?td j)) [0..<16])) = Some meta"
      by (simp add: find_map del: upt_rec_numeral)
    obtain j1 where j1: "List.find (\<lambda>j. \<not> ?lc j) [12..<16] = Some j1" "j1 \<in> set [12..<16]" "\<not> ?lc j1"
      using find_not_all [of ?lc "[12..<16]"] count by (auto simp del: upt_rec_numeral)
    then have sz: "map_option (\<lambda>(gone, b). meta_size (blob_meta b) - of_nat BLOB_HEADER_SIZE)
        (List.find (\<lambda>(gone, b). \<not> gone) (map (\<lambda>j. (?lc j, ?tc j)) [12..<16])) = Some (of_nat ?n)"
      using received_coding(2) [OF recv _ _ j1(3) n(1)] by (simp add: find_map BLOB_HEADER_SIZE_eq del: upt_rec_numeral)
    have erased: "erased 0 (map (\<lambda>j. (?ld j, ?td j)) [0..<16]) @ erased NUM_DATA (map (\<lambda>j. (?lc j, ?tc j)) [12..<16]) = map of_nat ?E"
      by (rule erased_erasures)
    obtain locks locks' where locks: "decode_blobs je ?n (map of_nat ?E @ [- 1]) (map z [0..<16] @ map ?tc [12..<16]) = Some (Inr (), locks)"
      "fix_all base (of_nat ?n) meta (map of_nat ?E) locks = Some (False, locks')" "length locks' = 20" "\<forall>j < 16. copy_of (ds ! j) (locks' ! j)"
      using lost_blobs_decoded [OF ds je recv few False z(2)] by blast
    obtain w3 where w3: "put_blobs start locks' w2 = Some w3" "length w3 = length w2" "\<forall>j < 16. slot_data (block_slot w3 start j) = Some (locks' ! j)"
      using put_blobs_puts [of w2 locks' start] w0' taken(3) locks(3) by auto
    have snds: "map snd (map (\<lambda>j. (?lc j, ?tc j)) [12..<16]) = map ?tc [12..<16]" by (simp add: comp_def del: upt_rec_numeral)
    have enter: "st - st mod NUM_DATA = start" "start_idx - start_idx mod of_nat NUM_DATA = base" "\<not> length w0 < NUM_DATA"
      "\<not> NUM_CODING < length ?dm + length ?cm" "length ?dm \<noteq> 0" "unat (of_nat ?n :: u64) = ?n"
      using start w0' count n(1) by (simp_all add: NUM_DATA_def NUM_CODING_def unat_of_nat_small del: upt_rec_numeral)
    have "erasure_recover je w start_idx st = Some (Inr (), w3)"
      by (simp only: erasure_recover_def Let_def enter w0(1) taken(1,2) meta sz erased z(1) snds locks(1,2) w3(1)
          if_False bind.bind_lunit prod.case sum.case)
    then show ?thesis using w3(2,3) taken(3) w0(2) locks(4) by auto
  qed
qed

lemma copy_trans: "copy_of a b \<Longrightarrow> copy_of b c \<Longrightarrow> copy_of a c"
  by (auto simp: copy_of_def)

text \<open>A window that has received blobs of a block from another window: a blob in a slot of the block that has
  the slot's index is a copy of what the other window holds there.\<close>

definition arrived :: "u64 \<Rightarrow> nat \<Rightarrow> window \<Rightarrow> nat \<Rightarrow> window \<Rightarrow> bool" where
  "arrived base start w vstart v \<longleftrightarrow> 16 \<le> length v \<and>
     (\<forall>j < 16. \<forall>b. slot_data (block_slot v vstart j) = Some b \<longrightarrow> blob_wf b \<and>
        (get_index b = Some (base + of_nat j) \<longrightarrow> (\<exists>d. slot_data (block_slot w start j) = Some d \<and> copy_of d b))) \<and>
     (\<forall>j. 12 \<le> j \<and> j < 16 \<longrightarrow> (\<forall>b. slot_coding (block_slot v vstart j) = Some b \<longrightarrow> blob_wf b \<and>
        (get_index b = Some (base + of_nat j) \<longrightarrow> (\<exists>c. slot_coding (block_slot w start j) = Some c \<and> copy_of c b))))"

lemma arrived_received:
  assumes "arrived base start w vstart v"
    and "\<forall>j < 16. \<exists>b. slot_data (block_slot w start j) = Some b \<and> copy_of (ds ! j) b"
    and "\<forall>j. 12 \<le> j \<and> j < 16 \<longrightarrow> (\<exists>c. slot_coding (block_slot w start j) = Some c \<and>
      coding_blob (base + of_nat j) (coded_size ds) (coding_blocks je ds ! (j - 12)) c)"
  shows "received_block je base ds vstart v"
  unfolding received_block_def
proof (intro conjI allI impI)
  show "16 \<le> length v" using assms(1) by (simp add: arrived_def)
next
  fix j b assume "j < 16" "slot_data (block_slot v vstart j) = Some b"
  then show "blob_wf b" "get_index b = Some (base + of_nat j) \<Longrightarrow> copy_of (ds ! j) b"
    using assms(1,2) copy_trans unfolding arrived_def by (blast, metis option.inject)
next
  fix j b assume "12 \<le> j \<and> j < 16" "slot_coding (block_slot v vstart j) = Some b"
  then show "blob_wf b" "get_index b = Some (base + of_nat j) \<Longrightarrow>
      \<exists>c. coding_blob (base + of_nat j) (coded_size ds) (coding_blocks je ds ! (j - 12)) c \<and> copy_of c b"
    using assms(1,3) unfolding arrived_def by (blast, metis option.inject)
qed

text \<open>C10: erasure coding repairs a block.  When the blobs that complete a block of sixteen have been coded,
  and a receiver has any of the twenty blobs, at most four missing, with stale blobs in some of the empty
  places, then recovering ends without an error, and each of the sixteen data slots holds the blob that was
  sent: the same bytes and the same size.\<close>

theorem lost_blobs_recovered:
  assumes "fixed_codec pk 32" "data_block pk base ds" "corrects je ds"
    and "16 \<le> length w" "start_idx = unat receive_index mod length w" "start = start_idx - start_idx mod 16"
    and "start + 16 \<le> start_idx + num_blobs" "start_idx + num_blobs < start + 32"
    and "\<forall>j < 16. slot_data (block_slot w start j) = Some (ds ! j)"
    and "\<forall>j. 12 \<le> j \<and> j < 16 \<longrightarrow> slot_coding (block_slot w start j) = None"
  shows "\<exists>w' ti'. generate_coding je pk w receive_index num_blobs ti = Some (Inr (), w', ti') \<and>
    (\<forall>v vstart st consumed. arrived base start w' vstart v \<and> lost_count base vstart v \<le> 4 \<and>
        vstart = st - st mod 16 \<and> base = consumed - consumed mod 16 \<longrightarrow>
      (\<exists>v'. erasure_recover je v consumed st = Some (Inr (), v') \<and>
        (\<forall>j < 16. \<exists>b. slot_data (block_slot v' vstart j) = Some b \<and> copy_of (ds ! j) b)))"
proof -
  have blocks: "length (coding_blocks je ds) = 4" "\<forall>c \<in> set (coding_blocks je ds). length c = coded_size ds"
    using assms(3) by (simp_all add: corrects_def Let_def)
  obtain w' ti' where w': "generate_coding je pk w receive_index num_blobs ti = Some (Inr (), w', ti')"
    "\<forall>j < 16. \<exists>b. slot_data (block_slot w' start j) = Some b \<and> copy_of (ds ! j) b"
    "\<forall>j. 12 \<le> j \<and> j < 16 \<longrightarrow> (\<exists>c. slot_coding (block_slot w' start j) = Some c \<and>
      coding_blob (base + of_nat j) (coded_size ds) (coding_blocks je ds ! (j - 12)) c)"
    using generate_coding_codes [OF assms(1,2,4-10) blocks] by blast
  have "\<exists>v'. erasure_recover je v consumed st = Some (Inr (), v') \<and>
      (\<forall>j < 16. \<exists>b. slot_data (block_slot v' vstart j) = Some b \<and> copy_of (ds ! j) b)"
    if "arrived base start w' vstart v \<and> lost_count base vstart v \<le> 4 \<and> vstart = st - st mod 16 \<and> base = consumed - consumed mod 16"
    for v vstart st consumed
  proof -
    have "received_block je base ds vstart v" using arrived_received [OF _ w'(2,3)] that by blast
    then have "\<exists>v'. erasure_recover je v consumed st = Some (Inr (), v') \<and> length v' = length v \<and>
        (\<forall>j < 16. \<exists>b. slot_data (block_slot v' vstart j) = Some b \<and> copy_of (ds ! j) b)"
      by (rule recover_restores [OF assms(2,3)]) (use that in blast)+
    then show ?thesis by blast
  qed
  then have all: "\<forall>v vstart st consumed. arrived base start w' vstart v \<and> lost_count base vstart v \<le> 4 \<and>
        vstart = st - st mod 16 \<and> base = consumed - consumed mod 16 \<longrightarrow>
      (\<exists>v'. erasure_recover je v consumed st = Some (Inr (), v') \<and>
        (\<forall>j < 16. \<exists>b. slot_data (block_slot v' vstart j) = Some b \<and> copy_of (ds ! j) b))"
    by (intro allI impI)
  show ?thesis by (rule exI [of _ w'], rule exI [of _ ti'], rule conjI [OF w'(1) all])
qed

text \<open>Sixteen small blobs in a window of sixteen slots, four of them lost, and a library that knows how to
  repair this block.\<close>

lemma sample_blob_exists:
  "\<exists>b. blob_wf b \<and> meta_size (blob_meta b) = 64 \<and> get_index b = Some ix \<and>
     read_id (codec_of pubkey_wire) b = Some k \<and> get_data_size b = Some 64"
proof -
  let ?pk = "codec_of pubkey_wire"
  obtain b1 where b1: "set_id ?pk k Blob_default = Some b1" "blob_wf b1"
    using id_field.set_total [OF Blob_default_wf] id_field.set_wf [OF Blob_default_wf] by blast
  obtain b2 where b2: "set_index ix b1 = Some b2" "blob_wf b2"
    using index_field.set_total [OF b1(2)] index_field.set_wf [OF b1(2)] by blast
  obtain b3 where b3: "blob_wf b3" "get_size b3 = Some (Inr 0)" "blob_meta b3 = (blob_meta b2)\<lparr>meta_size := 0 + 64\<rparr>"
    "\<And>a e. e \<le> 44 \<or> 52 \<le> a \<Longrightarrow> subslice a e (blob_data b3) = subslice a e (blob_data b2)"
    using set_size_wf [OF b2(2)] by metis
  have "get_index b3 = Some ix" using index_field.get_set [OF b1(2) b2(1)] index_field.get_local [of b3 b2] b3(4) [of 8 0] by simp
  moreover have "read_id ?pk b3 = Some k"
    using id_field.get_set [OF Blob_default_wf b1(1)] id_field.get_local [of b3 b1] b3(4) [of 40 8] index_field.set_frame [OF b2(1), of 40 8]
    by simp
  moreover have "get_data_size b3 = Some 64"
    using b3(2,3) by (auto simp: get_size_def bind_eq_Some_conv split: if_splits)
  ultimately show ?thesis using b3(1,3) by (intro exI [of _ b3]) simp
qed

definition sample_jerasure :: "blob list \<Rightarrow> jerasure" where
  "sample_jerasure ds = \<lparr>jerasure_matrix_encode = (\<lambda>_ _ _ _ _ _ _. replicate 4 (replicate 64 0)),
     jerasure_matrix_decode = (\<lambda>_ _ _ _ _ _ _ _ _. (0, map (padded 64) ds, replicate 4 (replicate 64 0))),
     galois_single_divide = (\<lambda>_ _ _. 0)\<rparr>"

lemma sample_block_facts:
  assumes "length ds = 16" "\<forall>j < 16. blob_wf (ds ! j) \<and> meta_size (blob_meta (ds ! j)) = 64 \<and> get_index (ds ! j) = Some (of_nat j) \<and>
    read_id (codec_of pubkey_wire) (ds ! j) = Some (Pubkey 3) \<and> get_data_size (ds ! j) = Some 64"
  shows "data_block (codec_of pubkey_wire) 0 ds" "corrects (sample_jerasure ds) ds"
proof -
  show "data_block (codec_of pubkey_wire) 0 ds" using assms by (simp add: data_block_def)
  have "map (\<lambda>b. meta_size (blob_meta b)) ds = replicate 16 64"
    by (rule nth_equalityI) (use assms in simp_all)
  moreover have "fold max (replicate 16 64) 0 = (64 :: u64)"
    using fold_max_bounds [of "replicate 16 64" "64 :: u64" 0] by (intro antisym) auto
  ultimately have "coded_size ds = 64" by (simp add: coded_size_def JERASURE_ALIGN_def align_def)
  then show "corrects (sample_jerasure ds) ds"
    by (simp add: corrects_def coding_blocks_def sample_jerasure_def Let_def)
qed

lemma sample_block_exists:
  "\<exists>ds. length ds = 16 \<and> (\<forall>j < 16. blob_wf (ds ! j) \<and> meta_size (blob_meta (ds ! j)) = 64 \<and> get_index (ds ! j) = Some (of_nat j) \<and>
    read_id (codec_of pubkey_wire) (ds ! j) = Some (Pubkey 3) \<and> get_data_size (ds ! j) = Some 64)"
proof -
  have "\<exists>f. \<forall>j :: nat. blob_wf (f j) \<and> meta_size (blob_meta (f j)) = 64 \<and> get_index (f j) = Some (of_nat j) \<and>
      read_id (codec_of pubkey_wire) (f j) = Some (Pubkey 3) \<and> get_data_size (f j) = Some 64"
    by (rule choice) (intro allI sample_blob_exists)
  then obtain f where "\<forall>j :: nat. blob_wf (f j) \<and> meta_size (blob_meta (f j)) = 64 \<and> get_index (f j) = Some (of_nat j) \<and>
      read_id (codec_of pubkey_wire) (f j) = Some (Pubkey 3) \<and> get_data_size (f j) = Some 64"
    by blast
  then show ?thesis by (intro exI [of _ "map f [0..<16]"]) (simp del: upt_rec_numeral)
qed

lemma sample_arrived:
  assumes ds: "length ds = 16" "\<forall>j < 16. blob_wf (ds ! j) \<and> meta_size (blob_meta (ds ! j)) = 64 \<and> get_index (ds ! j) = Some (of_nat j) \<and>
    read_id (codec_of pubkey_wire) (ds ! j) = Some (Pubkey 3) \<and> get_data_size (ds ! j) = Some 64"
    and w: "length w = 16" "\<forall>j < 16. \<exists>b. slot_data (block_slot w 0 j) = Some b \<and> copy_of (ds ! j) b"
    "\<forall>j. 12 \<le> j \<and> j < 16 \<longrightarrow> (\<exists>c. slot_coding (block_slot w 0 j) = Some c \<and> coding_blob (0 + of_nat j) n (bs j) c)"
  defines "v \<equiv> map (\<lambda>j. if j < 4 then WindowSlot_default else w ! j) [0..<16]"
  shows "arrived 0 0 w 0 v" "lost_count 0 0 v \<le> 4"
proof -
  have slot: "block_slot v 0 j = (if j < 4 then WindowSlot_default else block_slot w 0 j)" if "j < 16" for j
    using that w(1) by (simp add: block_slot_def v_def del: upt_rec_numeral)
  have data: "blob_wf b \<and> get_index b = Some (of_nat j)" if "j < 16" "slot_data (block_slot w 0 j) = Some b" for j b
  proof -
    have c: "copy_of (ds ! j) b" "blob_wf (ds ! j)" "get_index (ds ! j) = Some (of_nat j)" "64 \<le> blob_len (ds ! j)"
      using that w(2) ds(2) by auto
    then show ?thesis using copy_header(1) [OF c(1,2,4)] by (simp add: copy_of_def)
  qed
  have code: "blob_wf b \<and> get_index b = Some (of_nat j)" if "12 \<le> j \<and> j < 16" "slot_coding (block_slot w 0 j) = Some b" for j b
    using that w(3) by (auto simp: coding_blob_def)
  show "arrived 0 0 w 0 v"
    using data code by (simp add: arrived_def slot WindowSlot_default_def) (simp add: v_def del: upt_rec_numeral)
  have d: "\<not> lost (0 + of_nat j) (slot_data (block_slot v 0 j))" if "j \<in> set [4..<16]" for j
    using that w(2) data [of j] by (auto simp: slot lost_def simp del: upt_rec_numeral)
  have c: "\<not> lost (0 + of_nat j) (slot_coding (block_slot v 0 j))" if "j \<in> set [12..<16]" for j
    using that w(3) code [of j] by (auto simp: slot lost_def simp del: upt_rec_numeral)
  have "[0..<16] = [0..<4] @ [4..<16::nat]" using upt_add_eq_append [of 0 4 12] by simp
  then have "lost_count 0 0 v = length (filter (\<lambda>j. lost (0 + of_nat j) (slot_data (block_slot v 0 j))) [0..<4])"
    using d c by (simp add: lost_count_def filter_empty_conv del: upt_rec_numeral)
  also have "\<dots> \<le> length [0..<4::nat]" by (rule length_filter_le)
  finally show "lost_count 0 0 v \<le> 4" by simp
qed

theorem lost_blobs_recovered_witness:
  "\<exists>ds w' ti' v' b. generate_coding (sample_jerasure ds) (codec_of pubkey_wire)
      (map (\<lambda>j. WindowSlot_default\<lparr>slot_data := Some (ds ! j)\<rparr>) [0..<16]) 0 16 0 = Some (Inr (), w', ti') \<and>
    erasure_recover (sample_jerasure ds) (map (\<lambda>j. if j < 4 then WindowSlot_default else w' ! j) [0..<16]) 0 0 = Some (Inr (), v') \<and>
    slot_data (block_slot v' 0 2) = Some b \<and> copy_of (ds ! 2) b"
proof -
  obtain ds where ds: "length ds = 16" "\<forall>j < 16. blob_wf (ds ! j) \<and> meta_size (blob_meta (ds ! j)) = 64 \<and> get_index (ds ! j) = Some (of_nat j) \<and>
    read_id (codec_of pubkey_wire) (ds ! j) = Some (Pubkey 3) \<and> get_data_size (ds ! j) = Some 64"
    using sample_block_exists by blast
  let ?je = "sample_jerasure ds" and ?w = "map (\<lambda>j. WindowSlot_default\<lparr>slot_data := Some (ds ! j)\<rparr>) [0..<16]"
  note facts = sample_block_facts [OF ds]
  have w: "16 \<le> length ?w" "0 = unat (0 :: u64) mod length ?w" "0 = 0 - 0 mod (16 :: nat)" "0 + 16 \<le> 0 + (16 :: nat)" "0 + 16 < 0 + (32 :: nat)"
    "\<forall>j < 16. slot_data (block_slot ?w 0 j) = Some (ds ! j)" "\<forall>j. 12 \<le> j \<and> j < 16 \<longrightarrow> slot_coding (block_slot ?w 0 j) = None"
    by (simp_all add: block_slot_def WindowSlot_default_def del: upt_rec_numeral)
  have blocks: "length (coding_blocks ?je ds) = 4" "\<forall>c \<in> set (coding_blocks ?je ds). length c = coded_size ds"
    using facts(2) by (simp_all add: corrects_def Let_def)
  obtain w' ti' where w': "generate_coding ?je (codec_of pubkey_wire) ?w 0 16 0 = Some (Inr (), w', ti')" "length w' = length ?w"
    "\<forall>j < 16. \<exists>b. slot_data (block_slot w' 0 j) = Some b \<and> copy_of (ds ! j) b"
    "\<forall>j. 12 \<le> j \<and> j < 16 \<longrightarrow> (\<exists>c. slot_coding (block_slot w' 0 j) = Some c \<and>
      coding_blob (0 + of_nat j) (coded_size ds) (coding_blocks ?je ds ! (j - 12)) c)"
    using generate_coding_codes [OF pubkey_wire_fixed facts(1) w blocks] by blast
  have "length w' = 16" using w'(2) by (simp del: upt_rec_numeral)
  note arrived = sample_arrived [OF ds this w'(3,4)]
  obtain w'' ti'' where w'': "generate_coding ?je (codec_of pubkey_wire) ?w 0 16 0 = Some (Inr (), w'', ti'')"
    "\<forall>v vstart st consumed. arrived 0 0 w'' vstart v \<and> lost_count 0 vstart v \<le> 4 \<and> vstart = st - st mod 16 \<and>
        0 = consumed - consumed mod 16 \<longrightarrow>
      (\<exists>v'. erasure_recover ?je v consumed st = Some (Inr (), v') \<and>
        (\<forall>j < 16. \<exists>b. slot_data (block_slot v' vstart j) = Some b \<and> copy_of (ds ! j) b))"
    using lost_blobs_recovered [OF pubkey_wire_fixed facts w] by blast
  have "w'' = w'" using w'(1) w''(1) by simp
  then have "\<exists>v'. erasure_recover ?je (map (\<lambda>j. if j < 4 then WindowSlot_default else w' ! j) [0..<16]) 0 0 = Some (Inr (), v') \<and>
        (\<forall>j < 16. \<exists>b. slot_data (block_slot v' 0 j) = Some b \<and> copy_of (ds ! j) b)"
    by (intro w''(2) [rule_format]) (simp add: arrived del: upt_rec_numeral)
  then obtain v' where v': "erasure_recover ?je (map (\<lambda>j. if j < 4 then WindowSlot_default else w' ! j) [0..<16]) 0 0 = Some (Inr (), v')"
    "\<forall>j < 16. \<exists>b. slot_data (block_slot v' 0 j) = Some b \<and> copy_of (ds ! j) b"
    by blast
  obtain b where "slot_data (block_slot v' 0 2) = Some b" "copy_of (ds ! 2) b" using v'(2) [rule_format, of 2] by auto
  then show ?thesis using w'(1) v'(1) by blast
qed

end
