(* ===== verification/Requests.thy ===== *)
theory Requests
  imports Processor_Safety Ledger_Store Blockthread Network
begin

text \<open>
  Requests of clients and their answers: the server side (src/request.rs, src/request_processor.rs,
  src/request_stage.rs) and the client (src/thin_client.rs).

  A client's socket is the list of what its receives bring, in order; a send may fail, which the client
  answers with a panic.  A loop that waits for an answer returns \<open>None\<close> when the list ends before it
  does.  Elapsed time is an argument.
\<close>

section \<open>Requests and responses\<close>

datatype request =
    GetAccount pubkey
  | GetLastId
  | GetTransactionCount
  | GetSignature signature
  | GetFinality

datatype response =
    AccountResponse pubkey "account option"
  | LastIdResponse hash
  | TransactionCountResponse u64
  | SignatureStatusResponse bool
  | FinalityResponse u64

definition Request_verify :: "request \<Rightarrow> bool" where
  "Request_verify _ = True"

section \<open>The server\<close>

text \<open>\<open>order\<close> is the order in which the hash map of entry ids is iterated.\<close>

definition process_request ::
    "hash list \<Rightarrow> 'lib tp \<Rightarrow> request \<Rightarrow> socket_addr \<Rightarrow> (response \<times> socket_addr) option panics" where
  "process_request order st msg rsp_addr =
     (case msg of
        GetAccount key \<Rightarrow> Some (Some (AccountResponse key (get_account key st), rsp_addr))
      | GetLastId \<Rightarrow> do { h \<leftarrow> tp_last_id st; Some (Some (LastIdResponse h, rsp_addr)) }
      | GetTransactionCount \<Rightarrow> Some (Some (TransactionCountResponse (tp_transaction_count st), rsp_addr))
      | GetSignature signature \<Rightarrow> Some (Some (SignatureStatusResponse (has_signature order signature st), rsp_addr))
      | GetFinality \<Rightarrow> Some (Some (FinalityResponse (finality_time st), rsp_addr)))"

definition process_requests ::
    "hash list \<Rightarrow> 'lib tp \<Rightarrow> (request \<times> socket_addr) list \<Rightarrow> (response \<times> socket_addr) list panics" where
  "process_requests order st reqs =
     map_option (List.map_filter (\<lambda>r. r)) (sequence_panics (map (\<lambda>(req, rsp_addr). process_request order st req rsp_addr) reqs))"

definition deserialize_requests ::
    "request codec \<Rightarrow> packet list \<Rightarrow> (request \<times> socket_addr) option list panics" where
  "deserialize_requests qc ps =
     sequence_panics (map (\<lambda>x. do {
       bytes \<leftarrow> subslice 0 (unat (meta_size (packet_meta x))) (packet_data x);
       Some (map_option (\<lambda>req. (req, Meta_addr (packet_meta x))) (dec qc bytes)) }) ps)"

text \<open>The batches of a turn: the blobs sent, until the receiver is found gone.\<close>

fun answer_batches ::
    "request codec \<Rightarrow> response codec \<Rightarrow> hash list \<Rightarrow> 'lib tp \<Rightarrow> bool \<Rightarrow> packet list list \<Rightarrow>
       ((stage_error + unit) \<times> blob list list) panics" where
  "answer_batches qc rc order st alive [] = Some (Inr (), [])"
| "answer_batches qc rc order st alive (msgs # batch) = do {
     reqs \<leftarrow> deserialize_requests qc msgs;
     rsps \<leftarrow> process_requests order st (List.map_filter (\<lambda>x. x) reqs);
     blobs \<leftarrow> to_blobs rc rsps;
     if blobs \<noteq> [] \<and> \<not> alive then Some (Inl SendError, [])
     else do {
       (r, sent) \<leftarrow> answer_batches qc rc order st alive batch;
       Some (r, if blobs \<noteq> [] then blobs # sent else sent) } }"

definition process_request_packets ::
    "request codec \<Rightarrow> response codec \<Rightarrow> hash list \<Rightarrow> 'lib tp \<Rightarrow> bool \<Rightarrow> packet list received \<Rightarrow> packet list list \<Rightarrow>
       ((stage_error + unit) \<times> blob list list \<times> packet list list) panics" where
  "process_request_packets qc rc order st alive r queue =
     (case recv_batch r queue of
        Inl e \<Rightarrow> Some (Inl e, [], queue)
      | Inr (batch, len, left) \<Rightarrow> do {
          (res, sent) \<leftarrow> answer_batches qc rc order st alive batch;
          Some (res, sent, left) })"

definition request_stage_turn ::
    "request codec \<Rightarrow> response codec \<Rightarrow> hash list \<Rightarrow> 'lib tp \<Rightarrow> bool \<Rightarrow> packet list received \<Rightarrow> packet list list \<Rightarrow>
       (bool \<times> blob list list \<times> packet list list) panics" where
  "request_stage_turn qc rc order st alive r queue =
     map_option (\<lambda>(res, sent, left). (worker_continues res, sent, left)) (process_request_packets qc rc order st alive r queue)"

section \<open>The client\<close>

record thin_client =
  requests_addr :: socket_addr
  transactions_addr :: socket_addr
  cl_last_id :: "hash option"
  cl_transaction_count :: u64
  cl_balances :: "pubkey \<rightharpoonup> account"
  cl_signature_status :: bool
  cl_finality :: "u64 option"

definition ThinClient_new :: "socket_addr \<Rightarrow> socket_addr \<Rightarrow> thin_client" where
  "ThinClient_new raddr taddr = \<lparr>requests_addr = raddr, transactions_addr = taddr, cl_last_id = None,
     cl_transaction_count = 0, cl_balances = Map.empty, cl_signature_status = False, cl_finality = None\<rparr>"

datatype client_error = IoError | DeserializeError | AccountNotFoundError | SignatureNotFoundError | RetryError

datatype recv_result = Datagram bytes | RecvFailed

definition recv_response :: "response codec \<Rightarrow> recv_result \<Rightarrow> client_error + response" where
  "recv_response rc ev =
     (case ev of
        Datagram bs \<Rightarrow>
          (case dec rc (read_into bs (replicate 1024 0)) of Some resp \<Rightarrow> Inr resp | None \<Rightarrow> Inl DeserializeError)
      | RecvFailed \<Rightarrow> Inl IoError)"

definition process_response :: "response \<Rightarrow> thin_client \<Rightarrow> thin_client" where
  "process_response resp cl =
     (case resp of
        AccountResponse key (Some account) \<Rightarrow> cl\<lparr>cl_balances := (cl_balances cl)(key \<mapsto> account)\<rparr>
      | AccountResponse key None \<Rightarrow> cl\<lparr>cl_balances := (cl_balances cl)(key := None)\<rparr>
      | LastIdResponse h \<Rightarrow> cl\<lparr>cl_last_id := Some h\<rparr>
      | TransactionCountResponse n \<Rightarrow> cl\<lparr>cl_transaction_count := n\<rparr>
      | SignatureStatusResponse b \<Rightarrow> cl\<lparr>cl_signature_status := b\<rparr>
      | FinalityResponse t \<Rightarrow> cl\<lparr>cl_finality := Some t\<rparr>)"

definition transfer_signed ::
    "transaction codec \<Rightarrow> (datagram \<Rightarrow> bool) \<Rightarrow> transaction \<Rightarrow> thin_client \<Rightarrow> (client_error + signature) \<times> datagram list" where
  "transfer_signed txc sent tx cl =
     (let d = (enc txc tx, transactions_addr cl)
      in if sent d then (Inr (tx_signature tx), [d]) else (Inl IoError, []))"

definition client_transfer ::
    "'kp ed25519 \<Rightarrow> tx_ext \<Rightarrow> transaction codec \<Rightarrow> (datagram \<Rightarrow> bool) \<Rightarrow> i64 \<Rightarrow> 'kp \<Rightarrow> pubkey \<Rightarrow> hash \<Rightarrow> thin_client \<Rightarrow>
       ((client_error + signature) \<times> datagram list) panics" where
  "client_transfer ring tc txc sent n keypair to_key last_id cl = do {
     tx \<leftarrow> system_new ring tc keypair to_key n last_id;
     Some (transfer_signed txc sent tx cl) }"

text \<open>\<open>get_balance\<close> after its request has been sent.\<close>

fun balance_loop ::
    "response codec \<Rightarrow> pubkey \<Rightarrow> recv_result list \<Rightarrow> thin_client \<Rightarrow>
       ((client_error + unit) \<times> thin_client \<times> recv_result list) option" where
  "balance_loop rc pk [] cl = None"
| "balance_loop rc pk (ev # evs) cl =
     (case recv_response rc ev of
        Inl e \<Rightarrow> Some (Inl e, cl, evs)
      | Inr resp \<Rightarrow>
          let cl = process_response resp cl
          in if (case resp of AccountResponse key _ \<Rightarrow> key = pk | _ \<Rightarrow> False) then Some (Inr (), cl, evs)
             else balance_loop rc pk evs cl)"

definition client_get_balance ::
    "'lib tp_ext \<Rightarrow> response codec \<Rightarrow> bool \<Rightarrow> pubkey \<Rightarrow> recv_result list \<Rightarrow> thin_client \<Rightarrow>
       ((client_error + i64) \<times> thin_client \<times> recv_result list) panics option" where
  "client_get_balance px rc sent pk evs cl =
     (if \<not> sent then Some None
      else map_option (\<lambda>(r, cl, evs). Some (case r of
            Inl e \<Rightarrow> Inl e
          | Inr _ \<Rightarrow> (case cl_balances cl pk of Some a \<Rightarrow> Inr (read_balance px a) | None \<Rightarrow> Inl AccountNotFoundError), cl, evs))
        (balance_loop rc pk evs cl))"

text \<open>The other requests are sent again before every receive, until the wanted answer has come: each
  exchange is the success of a send and what the receive brings.\<close>

fun ask_until ::
    "response codec \<Rightarrow> (response \<Rightarrow> bool) \<Rightarrow> (bool \<times> recv_result) list \<Rightarrow> thin_client \<Rightarrow>
       (thin_client \<times> (bool \<times> recv_result) list) panics option" where
  "ask_until rc wanted [] cl = None"
| "ask_until rc wanted ((sent, ev) # evs) cl =
     (if \<not> sent then Some None
      else case recv_response rc ev of
        Inl e \<Rightarrow> ask_until rc wanted evs cl
      | Inr resp \<Rightarrow>
          let cl = process_response resp cl
          in if wanted resp then Some (Some (cl, evs)) else ask_until rc wanted evs cl)"

definition get_finality ::
    "response codec \<Rightarrow> (bool \<times> recv_result) list \<Rightarrow> thin_client \<Rightarrow> (u64 \<times> thin_client \<times> (bool \<times> recv_result) list) panics option" where
  "get_finality rc evs cl =
     map_option (\<lambda>p. do { (cl, evs) \<leftarrow> p; t \<leftarrow> cl_finality cl; Some (t, cl, evs) })
       (ask_until rc (\<lambda>r. case r of FinalityResponse _ \<Rightarrow> True | _ \<Rightarrow> False) evs cl)"

definition get_last_id ::
    "response codec \<Rightarrow> (bool \<times> recv_result) list \<Rightarrow> thin_client \<Rightarrow> (hash \<times> thin_client \<times> (bool \<times> recv_result) list) panics option" where
  "get_last_id rc evs cl =
     map_option (\<lambda>p. do { (cl, evs) \<leftarrow> p; h \<leftarrow> cl_last_id cl; Some (h, cl, evs) })
       (ask_until rc (\<lambda>r. case r of LastIdResponse _ \<Rightarrow> True | _ \<Rightarrow> False) evs cl)"

definition check_signature ::
    "response codec \<Rightarrow> (bool \<times> recv_result) list \<Rightarrow> thin_client \<Rightarrow> (bool \<times> thin_client \<times> (bool \<times> recv_result) list) panics option" where
  "check_signature rc evs cl =
     map_option (map_option (\<lambda>(cl, evs). (cl_signature_status cl, cl, evs)))
       (ask_until rc (\<lambda>r. case r of SignatureStatusResponse _ \<Rightarrow> True | _ \<Rightarrow> False) evs cl)"

text \<open>\<open>transaction_count\<close> gives up after five failed receives and returns what it has.\<close>

fun count_loop ::
    "response codec \<Rightarrow> nat \<Rightarrow> (bool \<times> recv_result) list \<Rightarrow> thin_client \<Rightarrow>
       (u64 \<times> thin_client \<times> (bool \<times> recv_result) list) panics option" where
  "count_loop rc 0 evs cl = Some (Some (cl_transaction_count cl, cl, evs))"
| "count_loop rc (Suc tries_left) [] cl = None"
| "count_loop rc (Suc tries_left) ((sent, ev) # evs) cl =
     (if \<not> sent then Some None
      else case recv_response rc ev of
        Inl e \<Rightarrow> count_loop rc tries_left evs cl
      | Inr resp \<Rightarrow>
          let cl = process_response resp cl
          in count_loop rc (case resp of TransactionCountResponse _ \<Rightarrow> 0 | _ \<Rightarrow> Suc tries_left) evs cl)"

definition transaction_count ::
    "response codec \<Rightarrow> (bool \<times> recv_result) list \<Rightarrow> thin_client \<Rightarrow>
       (u64 \<times> thin_client \<times> (bool \<times> recv_result) list) panics option" where
  "transaction_count rc evs cl = count_loop rc 5 evs cl"

text \<open>Polling: each round is the events of one attempt and whether the time is up after it.\<close>

fun poll_balance_with_timeout ::
    "'lib tp_ext \<Rightarrow> response codec \<Rightarrow> pubkey \<Rightarrow> (bool \<times> recv_result list \<times> bool) list \<Rightarrow> thin_client \<Rightarrow>
       ((client_error + i64) \<times> thin_client) panics option" where
  "poll_balance_with_timeout px rc pk [] cl = None"
| "poll_balance_with_timeout px rc pk ((sent, evs, over) # rounds) cl =
     Option.bind (client_get_balance px rc sent pk evs cl) (\<lambda>r. case r of
         None \<Rightarrow> Some None
       | Some (Inr bal, cl, _) \<Rightarrow> Some (Some (Inr bal, cl))
       | Some (Inl e, cl, _) \<Rightarrow> if over then Some (Some (Inl e, cl)) else poll_balance_with_timeout px rc pk rounds cl)"

fun poll_for_signature ::
    "response codec \<Rightarrow> ((bool \<times> recv_result) list \<times> bool) list \<Rightarrow> thin_client \<Rightarrow>
       ((client_error + unit) \<times> thin_client) panics option" where
  "poll_for_signature rc [] cl = None"
| "poll_for_signature rc ((evs, over) # rounds) cl =
     Option.bind (check_signature rc evs cl) (\<lambda>r. case r of
         None \<Rightarrow> Some None
       | Some (found, cl, _) \<Rightarrow>
           if found then Some (Some (Inr (), cl))
           else if over then Some (Some (Inl SignatureNotFoundError, cl))
           else poll_for_signature rc rounds cl)"

text \<open>Each try is the success of the send and the rounds of the poll; the list has \<open>tries\<close> elements.\<close>

fun retry_transfer_signed ::
    "response codec \<Rightarrow> transaction \<Rightarrow> (bool \<times> ((bool \<times> recv_result) list \<times> bool) list) list \<Rightarrow> thin_client \<Rightarrow>
       ((client_error + signature) \<times> thin_client) panics option" where
  "retry_transfer_signed rc tx [] cl = Some (Some (Inl RetryError, cl))"
| "retry_transfer_signed rc tx ((sent, rounds) # tries) cl =
     (if \<not> sent then Some (Some (Inl IoError, cl))
      else Option.bind (poll_for_signature rc rounds cl) (\<lambda>r. case r of
          None \<Rightarrow> Some None
        | Some (Inr _, cl) \<Rightarrow> Some (Some (Inr (tx_signature tx), cl))
        | Some (Inl _, cl) \<Rightarrow> retry_transfer_signed rc tx tries cl))"

text \<open>\<open>poll_gossip_for_leader\<close> after its spy node has started: the states of the spy's table at each poll,
  and whether the deadline has passed.\<close>

fun poll_gossip_for_leader :: "(blockthread \<times> bool) list \<Rightarrow> (blockthread_error + node_info) panics option" where
  "poll_gossip_for_leader [] = None"
| "poll_gossip_for_leader ((bt, over) # polls) =
     (case leader_data bt of
        None \<Rightarrow> Some None
      | Some (Some l) \<Rightarrow> Some (Some (Inr l))
      | Some None \<Rightarrow> if over then Some (Some (Inl NoLeader)) else poll_gossip_for_leader polls)"

section \<open>Encodings\<close>

text \<open>A client decodes a zero-filled buffer, so it relies on decoding to ignore what follows a value.\<close>

locale prefix_codec = bincode_codec +
  assumes dec_more: "length (enc c x) < 2 ^ 63 \<Longrightarrow> dec c (enc c x @ r) = Some x"

lemma wire_prefix_codec: "wire_format w \<Longrightarrow> prefix_codec (codec_of w)"
  by (intro prefix_codec.intro prefix_codec_axioms.intro codec_of_bincode) (simp_all add: wire_format.get_put)

definition account_wire :: "account wire" where
  "account_wire = iso_wire (\<lambda>(t, u, p). \<lparr>tokens = t, userdata = u, program_id = p\<rparr>)
     (\<lambda>a. (tokens a, userdata a, program_id a)) (pair_wire u64_wire (pair_wire bytes_wire pubkey_wire))"

definition request_wire :: "request wire" where
  "request_wire = \<lparr>
     put = (\<lambda>q. case q of
         GetAccount k \<Rightarrow> tagged 0 (put pubkey_wire k)
       | GetLastId \<Rightarrow> tagged 1 []
       | GetTransactionCount \<Rightarrow> tagged 2 []
       | GetSignature s \<Rightarrow> tagged 3 (put signature_wire s)
       | GetFinality \<Rightarrow> tagged 4 []),
     get = (\<lambda>bs. do { (t, r) \<leftarrow> get u32_wire bs;
       if t = 0 then variant GetAccount pubkey_wire r
       else if t = 1 then Some (GetLastId, r)
       else if t = 2 then Some (GetTransactionCount, r)
       else if t = 3 then variant GetSignature signature_wire r
       else if t = 4 then Some (GetFinality, r)
       else None })\<rparr>"

definition response_wire :: "response wire" where
  "response_wire = \<lparr>
     put = (\<lambda>q. case q of
         AccountResponse k a \<Rightarrow> tagged 0 (put (pair_wire pubkey_wire (option_wire account_wire)) (k, a))
       | LastIdResponse h \<Rightarrow> tagged 1 (put hash_wire h)
       | TransactionCountResponse n \<Rightarrow> tagged 2 (put u64_wire n)
       | SignatureStatusResponse b \<Rightarrow> tagged 3 (put bool_wire b)
       | FinalityResponse t \<Rightarrow> tagged 4 (put u64_wire t)),
     get = (\<lambda>bs. do { (t, r) \<leftarrow> get u32_wire bs;
       if t = 0 then variant (\<lambda>(k, a). AccountResponse k a) (pair_wire pubkey_wire (option_wire account_wire)) r
       else if t = 1 then variant LastIdResponse hash_wire r
       else if t = 2 then variant TransactionCountResponse u64_wire r
       else if t = 3 then variant SignatureStatusResponse bool_wire r
       else if t = 4 then variant FinalityResponse u64_wire r
       else None })\<rparr>"

lemma account_wire_format: "wire_format account_wire"
  unfolding account_wire_def by (intro wire_rules key_wire_formats text_wire_formats) simp

lemma request_wire_format: "wire_format request_wire"
  by unfold_locales
    (auto simp: request_wire_def variant_put [OF key_wire_formats(1)] variant_put [OF key_wire_formats(3)]
      simp del: word_wire_sel split: request.splits)

lemma response_wire_format: "wire_format response_wire"
proof -
  have "wire_format (pair_wire pubkey_wire (option_wire account_wire))"
    by (intro wire_rules key_wire_formats account_wire_format)
  note laws = this [THEN variant_put] variant_put [OF key_wire_formats(2)] variant_put [OF u64w.wire_format_axioms]
    variant_put [OF bool_wire_format]
  show ?thesis
    by unfold_locales (auto simp: response_wire_def laws simp del: word_wire_sel split: response.splits)
qed

interpretation request_codec: prefix_codec "codec_of request_wire"
  by (rule wire_prefix_codec) (rule request_wire_format)

interpretation response_codec: prefix_codec "codec_of response_wire"
  by (rule wire_prefix_codec) (rule response_wire_format)

section \<open>From question to answer\<close>

lemma read_into_short: "length bs \<le> n \<Longrightarrow> read_into bs (replicate n 0) = bs @ replicate (n - length bs) 0"
  by (simp add: read_into_def)

text \<open>A request that reaches the server in a packet.\<close>

lemma request_packet:
  assumes "bincode_codec qc" "length (enc qc req) \<le> PACKET_DATA_SIZE"
  shows "deserialize_requests qc [recv_packet (enc qc req, SockV4 w x y z p) Packet_default] = Some [Some (req, SockV4 w x y z p)]"
proof -
  let ?p = "recv_packet (enc qc req, SockV4 w x y z p) Packet_default"
  have len: "min (length (enc qc req)) 512 = length (enc qc req)" "length (enc qc req) < 2 ^ 63"
    using assms(2) by (simp_all add: PACKET_DATA_SIZE_def)
  have "packet_data ?p = enc qc req @ replicate (PACKET_DATA_SIZE - length (enc qc req)) 0"
    using assms(2) by (simp add: recv_packet_def Packet_default_def read_into_short)
  moreover have "unat (meta_size (packet_meta ?p)) = length (enc qc req)"
    using len unat_of_nat_small [of "length (enc qc req)", where 'a = 64]
    by (simp add: recv_packet_def Packet_default_def PACKET_DATA_SIZE_def)
  moreover have "Meta_addr (packet_meta ?p) = SockV4 w x y z p"
    by (simp add: recv_packet_def Packet_default_def Meta_addr_def octet_round_trip)
  ultimately show ?thesis
    using bincode_codec.dec_enc [OF assms(1) len(2)] by (simp add: deserialize_requests_def subslice_def)
qed

text \<open>A response that leaves the server in a blob and reaches the client's buffer.\<close>

lemma response_blob:
  assumes "prefix_codec rc" "length (enc rc rsp) \<le> 1024"
  shows "\<exists>b. to_blobs rc [(rsp, SockV4 w x y z p)] = Some [b] \<and> Meta_addr (blob_meta b) = SockV4 w x y z p \<and>
    recv_response rc (Datagram (take (unat (meta_size (blob_meta b))) (blob_data b))) = Inr rsp"
proof -
  let ?v = "enc rc rsp"
  have len: "length ?v \<le> BLOB_SIZE" "length ?v < 2 ^ 63" using assms(2) by (simp_all add: BLOB_SIZE_def)
  have "unat (of_nat (length ?v) :: u64) = length ?v" using assms(2) by (intro unat_of_nat_small) simp
  moreover have "dec rc (read_into ?v (replicate 1024 0)) = Some rsp"
    using assms(2) prefix_codec.dec_more [OF assms(1) len(2)] by (simp add: read_into_short)
  ultimately show ?thesis
    using len(1) by (simp add: to_blobs_def to_blob_def Let_def overwrite_def Blob_default_def recv_response_def
        Meta_addr_def octet_round_trip)
qed

lemma request_answered:
  assumes "bincode_codec qc" "prefix_codec rc" "length (enc qc req) \<le> PACKET_DATA_SIZE" "a = SockV4 w x y z p"
    and "process_request order st req a = Some (Some (rsp, a))" "length (enc rc rsp) \<le> 1024"
  shows "\<exists>b. process_request_packets qc rc order st True (Message [recv_packet (enc qc req, a) Packet_default]) [] =
      Some (Inr (), [[b]], []) \<and> Meta_addr (blob_meta b) = a \<and>
    recv_response rc (Datagram (take (unat (meta_size (blob_meta b))) (blob_data b))) = Inr rsp"
proof -
  obtain b where b: "to_blobs rc [(rsp, a)] = Some [b]" "Meta_addr (blob_meta b) = a"
    "recv_response rc (Datagram (take (unat (meta_size (blob_meta b))) (blob_data b))) = Inr rsp"
    using response_blob [OF assms(2,6)] unfolding assms(4) by blast
  have "recv_batch (Message [recv_packet (enc qc req, a) Packet_default]) [] =
      Inr ([[recv_packet (enc qc req, a) Packet_default]], 1, [])"
    by (simp add: recv_batch_def recv_timeout_def)
  then have "process_request_packets qc rc order st True (Message [recv_packet (enc qc req, a) Packet_default]) [] =
      Some (Inr (), [[b]], [])"
    using request_packet [OF assms(1,3)] assms(5) b(1)
    by (simp add: process_request_packets_def process_requests_def List.map_filter_simps assms(4))
  then show ?thesis using b(2,3) by blast
qed

text \<open>Answers to other questions, which a client may still receive, leave it waiting.\<close>

lemma balance_loop_waits:
  assumes "\<forall>ev \<in> set evs. \<exists>r. recv_response rc ev = Inr r \<and> (\<forall>acc. r \<noteq> AccountResponse pk acc)"
  shows "\<exists>cl'. \<forall>evs'. balance_loop rc pk (evs @ evs') cl = balance_loop rc pk evs' cl'"
  using assms
proof (induction evs arbitrary: cl)
  case (Cons ev evs)
  obtain r where r: "recv_response rc ev = Inr r" "\<forall>acc. r \<noteq> AccountResponse pk acc" using Cons.prems by auto
  have "balance_loop rc pk ((ev # evs) @ evs') cl = balance_loop rc pk (evs @ evs') (process_response r cl)" for evs'
    using r by (auto split: response.split)
  moreover obtain cl' where "\<forall>evs'. balance_loop rc pk (evs @ evs') (process_response r cl) = balance_loop rc pk evs' cl'"
    using Cons.IH Cons.prems by (metis list.set_intros(2))
  ultimately show ?case by metis
qed auto

text \<open>C9: a client that asks for a balance gets the one the server has.  The server answers the packet with
  one blob for the client's address, and the client that receives it, after any number of late answers
  to other questions, returns the balance of the account, or reports that there is none.\<close>

theorem client_reads_balance:
  assumes "bincode_codec qc" "prefix_codec rc" "length (enc qc (GetAccount k)) \<le> PACKET_DATA_SIZE" "a = SockV4 w x y z p"
    and "length (enc rc (AccountResponse k (get_account k st))) \<le> 1024"
    and "\<forall>ev \<in> set late. \<exists>r. recv_response rc ev = Inr r \<and> (\<forall>acc. r \<noteq> AccountResponse k acc)"
  shows "\<exists>b cl'. process_request_packets qc rc order st True (Message [recv_packet (enc qc (GetAccount k), a) Packet_default]) [] =
      Some (Inr (), [[b]], []) \<and> Meta_addr (blob_meta b) = a \<and>
    client_get_balance px rc True k (late @ [Datagram (take (unat (meta_size (blob_meta b))) (blob_data b))]) cl =
      Some (Some (case get_account k st of Some _ \<Rightarrow> Inr (get_balance px k st) | None \<Rightarrow> Inl AccountNotFoundError, cl', []))"
proof -
  let ?rsp = "AccountResponse k (get_account k st)"
  have "process_request order st (GetAccount k) a = Some (Some (?rsp, a))" by (simp add: process_request_def)
  then obtain b where b: "process_request_packets qc rc order st True (Message [recv_packet (enc qc (GetAccount k), a) Packet_default]) [] =
      Some (Inr (), [[b]], [])" "Meta_addr (blob_meta b) = a"
    "recv_response rc (Datagram (take (unat (meta_size (blob_meta b))) (blob_data b))) = Inr ?rsp"
    using request_answered [OF assms(1-4) _ assms(5)] by blast
  obtain cl1 where wait: "\<forall>evs'. balance_loop rc k (late @ evs') cl = balance_loop rc k evs' cl1"
    using balance_loop_waits [OF assms(6)] by blast
  have "cl_balances (process_response ?rsp cl1) k = get_account k st"
    by (simp add: process_response_def split: option.split)
  then show ?thesis
    using b wait by (auto simp: client_get_balance_def get_balance_def Let_def split: option.splits)
qed

theorem client_reads_witness:
  "\<exists>b cl'. process_request_packets (codec_of request_wire) (codec_of response_wire) [] sample_tp True
      (Message [recv_packet (put request_wire (GetAccount (Pubkey 21)), SockV4 127 0 0 1 80) Packet_default]) [] =
      Some (Inr (), [[b]], []) \<and>
    client_get_balance sample_px (codec_of response_wire) True (Pubkey 21)
      [Datagram (take (unat (meta_size (blob_meta b))) (blob_data b))]
      (ThinClient_new (SockV4 127 0 0 1 8000) (SockV4 127 0 0 1 8001)) = Some (Some (Inr 10, cl', []))"
proof -
  have acc: "get_account (Pubkey 21) sample_tp = Some (plain_account 10 (Pubkey 0))"
    by (simp add: get_account_def sample_tp_def)
  then have bal: "get_balance sample_px (Pubkey 21) sample_tp = 10"
    by (simp add: get_balance_def read_balance_def SystemProgram_check_id_iff SystemProgram_get_balance_def)
  have short: "length (enc (codec_of request_wire) (GetAccount (Pubkey 21))) \<le> PACKET_DATA_SIZE"
    by (simp add: request_wire_def tagged_def PACKET_DATA_SIZE_def pubkey_wire_def iso_wire_def)
  have small: "length (enc (codec_of response_wire) (AccountResponse (Pubkey 21) (get_account (Pubkey 21) sample_tp))) \<le> 1024"
    unfolding acc by (simp add: response_wire_def tagged_def pair_wire_def pubkey_wire_def iso_wire_def option_wire_def
        account_wire_def bytes_wire_def list_wire_def)
  have "\<exists>b cl'. process_request_packets (codec_of request_wire) (codec_of response_wire) [] sample_tp True
      (Message [recv_packet (enc (codec_of request_wire) (GetAccount (Pubkey 21)), SockV4 127 0 0 1 80) Packet_default]) [] =
      Some (Inr (), [[b]], []) \<and> Meta_addr (blob_meta b) = SockV4 127 0 0 1 80 \<and>
    client_get_balance sample_px (codec_of response_wire) True (Pubkey 21)
      ([] @ [Datagram (take (unat (meta_size (blob_meta b))) (blob_data b))])
      (ThinClient_new (SockV4 127 0 0 1 8000) (SockV4 127 0 0 1 8001)) =
      Some (Some (case get_account (Pubkey 21) sample_tp of Some _ \<Rightarrow> Inr (get_balance sample_px (Pubkey 21) sample_tp)
        | None \<Rightarrow> Inl AccountNotFoundError, cl', []))"
    by (rule client_reads_balance [OF request_codec.bincode_codec_axioms response_codec.prefix_codec_axioms short refl small]) simp
  then show ?thesis using acc bal by auto
qed

text \<open>Reading a cut response fails.\<close>

lemma variant_more: "stream_format v \<Longrightarrow> variant f v bs = Some (x, r) \<Longrightarrow> variant f v (bs @ s) = Some (x, r @ s)"
  by (auto simp: variant_def stream_format.get_more)

lemma option_stream: "stream_format v \<Longrightarrow> stream_format (option_wire v)"
  by (intro stream_format.intro option_wire_format stream_format_axioms.intro)
    (auto simp: option_wire_def stream_format_def stream_format_axioms_def split: list.splits if_splits)

lemma bool_stream: "stream_format bool_wire"
  by (intro stream_format.intro bool_wire_format stream_format_axioms.intro)
    (auto simp: bool_wire_def split: list.splits if_splits)

lemma response_stream: "stream_format response_wire"
proof (intro stream_format.intro response_wire_format stream_format_axioms.intro)
  have "stream_format account_wire"
    unfolding account_wire_def bytes_wire_def by (intro iso_stream pair_stream list_stream key_streams word_stream) simp_all
  then have "stream_format (pair_wire pubkey_wire (option_wire account_wire))"
    by (intro pair_stream option_stream key_streams)
  note more = this [THEN variant_more] variant_more [OF key_streams(2)] variant_more [OF bool_stream]
    variant_more [OF word_stream [where 'a = 64 and n = 8, simplified]]
  fix bs x r s
  assume "get response_wire bs = Some (x, r)"
  then obtain t r' where "get u32_wire bs = Some (t, r')" and g: "(if t = 0 then variant (\<lambda>(k, a). AccountResponse k a) (pair_wire pubkey_wire (option_wire account_wire)) r'
       else if t = 1 then variant LastIdResponse hash_wire r'
       else if t = 2 then variant TransactionCountResponse u64_wire r'
       else if t = 3 then variant SignatureStatusResponse bool_wire r'
       else if t = 4 then variant FinalityResponse u64_wire r'
       else None) = Some (x, r)"
    by (auto simp: response_wire_def bind_eq_Some_conv simp del: word_wire_sel)
  then have "get u32_wire (bs @ s) = Some (t, r' @ s)"
    using stream_format.get_more [OF word_stream [where 'a = 32 and n = 4, simplified]] by blast
  then show "get response_wire (bs @ s) = Some (x, r @ s)"
    using g more by (auto simp: response_wire_def simp del: word_wire_sel split: if_splits)
qed

text \<open>A client cannot read an account whose answer is longer than 1024 bytes: its buffer takes the
  beginning of the datagram only, which does not decode, and the balance is reported as an error though
  the account exists.\<close>

theorem large_account_unreadable:
  assumes "\<forall>r n. n < length (enc rc r) \<longrightarrow> length (enc rc r) < 2 ^ 63 \<longrightarrow> dec rc (take n (enc rc r)) = None"
    and "1024 < length (enc rc (AccountResponse k (Some acc)))" "length (enc rc (AccountResponse k (Some acc))) < 2 ^ 63"
  shows "client_get_balance px rc True k [Datagram (enc rc (AccountResponse k (Some acc)))] cl =
    Some (Some (Inl DeserializeError, cl, []))"
proof -
  let ?v = "enc rc (AccountResponse k (Some acc))"
  have "read_into ?v (replicate 1024 0) = take 1024 ?v" using assms(2) by (simp add: read_into_def)
  moreover have "dec rc (take 1024 ?v) = None" using assms by blast
  ultimately show ?thesis by (simp add: client_get_balance_def recv_response_def)
qed

theorem large_account_witness:
  "client_get_balance sample_px (codec_of response_wire) True (Pubkey 21)
    [Datagram (put response_wire (AccountResponse (Pubkey 21) (Some (plain_account 10 (Pubkey 0)\<lparr>userdata := replicate 1000 0\<rparr>))))]
    (ThinClient_new (SockV4 127 0 0 1 8000) (SockV4 127 0 0 1 8001)) =
    Some (Some (Inl DeserializeError, ThinClient_new (SockV4 127 0 0 1 8000) (SockV4 127 0 0 1 8001), []))"
proof -
  let ?a = "plain_account 10 (Pubkey 0)\<lparr>userdata := replicate 1000 0\<rparr>"
  have len: "length (put response_wire (AccountResponse (Pubkey 21) (Some ?a))) = 1085"
    by (simp add: response_wire_def tagged_def pair_wire_def pubkey_wire_def iso_wire_def option_wire_def
        account_wire_def bytes_wire_def list_wire_def length_concat comp_def sum_list_triv)
  have cut: "\<forall>r n. n < length (enc (codec_of response_wire) r) \<longrightarrow> length (enc (codec_of response_wire) r) < 2 ^ 63 \<longrightarrow>
      dec (codec_of response_wire) (take n (enc (codec_of response_wire) r)) = None"
    using stream_format.get_cut [OF response_stream] by simp
  from large_account_unreadable [OF cut, of "Pubkey 21" ?a] len show ?thesis by simp
qed

end
