(* ===== verification/Faucet.thy ===== *)
theory Faucet
  imports Requests
begin

text \<open>
  The faucet, which hands out tokens of the mint (src/faucet.rs, src/bin/drone.rs), and the function that
  asks it for them (\<open>request_airdrop\<close> of src/qtc.rs).

  What the faucet learns from the network is an argument: the polls for a leader, the answers to its
  questions and the tries of its transfer, as in the client.  A connection is the list of the byte frames
  that arrive on it.  The additions of \<open>u64\<close> wrap, as they do in a release build.
\<close>

section \<open>The faucet\<close>

definition TIME_SLICE :: u64 where "TIME_SLICE = 60"
definition REQUEST_CAP :: u64 where "REQUEST_CAP = 500000000"
definition DRONE_PORT :: u16 where "DRONE_PORT = 9900"

datatype drone_request = GetAirdrop (airdrop_request_amount: u64) (client_pubkey: pubkey)

datatype ip_addr = IpV4 u8 u8 u8 u8 | IpV6 "u16 list"

record 'kp drone =
  mint_keypair :: 'kp
  ip_cache :: "ip_addr list"
  airdrop_addr :: socket_addr
  network_addr :: socket_addr
  time_slice :: u64
  request_cap :: u64
  request_current :: u64

definition Drone_new :: "'kp \<Rightarrow> socket_addr \<Rightarrow> socket_addr \<Rightarrow> u64 option \<Rightarrow> u64 option \<Rightarrow> 'kp drone" where
  "Drone_new kp airdrop network time_input request_cap_input =
     \<lparr>mint_keypair = kp, ip_cache = [], airdrop_addr = airdrop, network_addr = network,
      time_slice = (case time_input of Some time \<Rightarrow> time | None \<Rightarrow> TIME_SLICE),
      request_cap = (case request_cap_input of Some cap \<Rightarrow> cap | None \<Rightarrow> REQUEST_CAP),
      request_current = 0\<rparr>"

definition check_request_limit :: "u64 \<Rightarrow> 'kp drone \<Rightarrow> bool" where
  "check_request_limit request_amount d \<longleftrightarrow> request_current d + request_amount \<le> request_cap d"

definition clear_request_count :: "'kp drone \<Rightarrow> 'kp drone" where
  "clear_request_count d = d\<lparr>request_current := 0\<rparr>"

definition add_ip_to_cache :: "ip_addr \<Rightarrow> 'kp drone \<Rightarrow> 'kp drone" where
  "add_ip_to_cache ip d = d\<lparr>ip_cache := ip_cache d @ [ip]\<rparr>"

definition clear_ip_cache :: "'kp drone \<Rightarrow> 'kp drone" where
  "clear_ip_cache d = d\<lparr>ip_cache := []\<rparr>"

definition check_rate_limit :: "ip_addr \<Rightarrow> 'kp drone \<Rightarrow> (ip_addr + ip_addr) \<times> 'kp drone" where
  "check_rate_limit ip d =
     (if ip \<in> set (ip_cache d) then (Inl ip, d) else (Inr ip, add_ip_to_cache ip d))"

datatype airdrop_error = NoLeaderFound | TransferFailed client_error | TokenLimitReached | BadRequest

text \<open>The result of an airdrop, the transaction that was given to the client to send, and the faucet after
  it.  The client tries ten times.\<close>

definition send_airdrop ::
    "'kp ed25519 \<Rightarrow> tx_ext \<Rightarrow> response codec \<Rightarrow> (blockthread \<times> bool) list \<Rightarrow> (bool \<times> recv_result) list \<Rightarrow>
       (bool \<times> ((bool \<times> recv_result) list \<times> bool) list) list \<Rightarrow> drone_request \<Rightarrow> 'kp drone \<Rightarrow>
       ((airdrop_error + signature) \<times> transaction option \<times> 'kp drone) panics option" where
  "send_airdrop ring tc rc polls evs tries req d =
     Option.bind (poll_gossip_for_leader polls) (\<lambda>leader. case leader of
        None \<Rightarrow> Some None
      | Some (Inl e) \<Rightarrow> Some (Some (Inl NoLeaderFound, None, d))
      | Some (Inr leader) \<Rightarrow>
          Option.bind (get_last_id rc evs
              (ThinClient_new (ci_rpu (ni_contact_info leader)) (ci_tx_creator (ni_contact_info leader)))) (\<lambda>r. case r of
            None \<Rightarrow> Some None
          | Some (last_id, client, _) \<Rightarrow>
              let request_amount = airdrop_request_amount req
              in case system_new ring tc (mint_keypair d) (client_pubkey req) request_amount last_id of
                   None \<Rightarrow> Some None
                 | Some tx \<Rightarrow>
                     if check_request_limit request_amount d then
                       let d = d\<lparr>request_current := request_current d + request_amount\<rparr>
                       in map_option (map_option (\<lambda>(res, _). (map_sum TransferFailed (\<lambda>s. s) res, Some tx, d)))
                            (retry_transfer_signed rc tx (take 10 tries) client)
                     else Some (Some (Inl TokenLimitReached, None, d))))"

text \<open>What a frame on a connection is answered with.  The first error ends the connection.\<close>

type_synonym airdrop_env =
  "(blockthread \<times> bool) list \<times> (bool \<times> recv_result) list \<times> (bool \<times> ((bool \<times> recv_result) list \<times> bool) list) list"

definition answer_frame ::
    "'kp ed25519 \<Rightarrow> tx_ext \<Rightarrow> response codec \<Rightarrow> drone_request codec \<Rightarrow> signature codec \<Rightarrow> airdrop_env \<Rightarrow> bytes \<Rightarrow> 'kp drone \<Rightarrow>
       ((airdrop_error + bytes) \<times> transaction option \<times> 'kp drone) panics option" where
  "answer_frame ring tc rc dc sc env bytes d =
     (case env of (polls, evs, tries) \<Rightarrow>
        (case dec dc bytes of
           None \<Rightarrow> Some (Some (Inl BadRequest, None, d))
         | Some req \<Rightarrow> map_option (map_option (\<lambda>(r, tx, d). (map_sum (\<lambda>e. e) (enc sc) r, tx, d)))
             (send_airdrop ring tc rc polls evs tries req d)))"

fun faucet_connection ::
    "'kp ed25519 \<Rightarrow> tx_ext \<Rightarrow> response codec \<Rightarrow> drone_request codec \<Rightarrow> signature codec \<Rightarrow> (airdrop_env \<times> bytes) list \<Rightarrow> 'kp drone \<Rightarrow>
       (bytes \<times> transaction list \<times> 'kp drone) panics option" where
  "faucet_connection ring tc rc dc sc [] d = Some (Some ([], [], d))"
| "faucet_connection ring tc rc dc sc ((env, bytes) # frames) d =
     Option.bind (answer_frame ring tc rc dc sc env bytes d) (\<lambda>r. case r of
        None \<Rightarrow> Some None
      | Some (Inl e, tx, d) \<Rightarrow> Some (Some ([], case tx of None \<Rightarrow> [] | Some tx \<Rightarrow> [tx], d))
      | Some (Inr response, tx, d) \<Rightarrow>
          map_option (map_option (\<lambda>(answer, txs, d). (response @ answer, (case tx of None \<Rightarrow> [] | Some tx \<Rightarrow> [tx]) @ txs, d)))
            (faucet_connection ring tc rc dc sc frames d))"

section \<open>Asking for an airdrop\<close>

datatype request_error = StreamFailed | AirdropFailed | BadSignature

text \<open>\<open>exchange\<close> is the connection to the faucet: what is written, and what is read until it closes.  Connecting
  or writing may fail.\<close>

definition request_airdrop ::
    "drone_request codec \<Rightarrow> signature codec \<Rightarrow> (bytes \<Rightarrow> 'w \<Rightarrow> bytes option \<times> 'w) \<Rightarrow> pubkey \<Rightarrow> u64 \<Rightarrow> 'w \<Rightarrow>
       (request_error + signature) \<times> 'w" where
  "request_airdrop dc sc exchange key n w =
     (case exchange (enc dc (GetAirdrop n key)) w of
        (None, w) \<Rightarrow> (Inl StreamFailed, w)
      | (Some received, w) \<Rightarrow>
          (if length received < 64 then Inl AirdropFailed
           else case dec sc (take 64 received) of None \<Rightarrow> Inl BadSignature | Some s \<Rightarrow> Inr s, w))"

section \<open>The faucet over time\<close>

text \<open>The faucet and the transactions it has handed to the network in the running time slice.  The amounts
  that are asked for satisfy \<open>allowed\<close>.\<close>

inductive faucet_step ::
    "'kp ed25519 \<Rightarrow> tx_ext \<Rightarrow> response codec \<Rightarrow> (u64 \<Rightarrow> bool) \<Rightarrow> 'kp drone \<times> transaction list \<Rightarrow> 'kp drone \<times> transaction list \<Rightarrow> bool"
  for ring tc rc allowed where
  airdrop: "send_airdrop ring tc rc polls evs tries req d = Some (Some (r, sent, d')) \<Longrightarrow> allowed (airdrop_request_amount req) \<Longrightarrow>
     faucet_step ring tc rc allowed (d, given) (d', given @ (case sent of None \<Rightarrow> [] | Some tx \<Rightarrow> [tx]))"
| slice_over: "faucet_step ring tc rc allowed (d, given) (clear_request_count d, [])"

definition tokens_given :: "tx_ext \<Rightarrow> transaction list \<Rightarrow> nat" where
  "tokens_given tc txs = sum_list (map (\<lambda>tx.
     case dec (tc_system tc) (tx_userdata tx) of Some (CreateAccount n _ _) \<Rightarrow> unat n | _ \<Rightarrow> 0) txs)"

lemma tokens_given_simps [simp]:
  "tokens_given tc [] = 0" "tokens_given tc (txs @ txs') = tokens_given tc txs + tokens_given tc txs'"
  by (simp_all add: tokens_given_def)

lemma system_new_userdata:
  "system_new ring tc kp key n h = Some tx \<Longrightarrow>
     tx_userdata tx = enc (tc_system tc) (CreateAccount n 0 Pubkey_default) \<and> (\<exists>k. keypair_pubkey ring kp = Some k \<and> tx_keys tx = [k, key])"
  by (auto simp: system_new_def system_create_def Transaction_new_def tx_sign_def bind_eq_Some_conv)

lemma send_airdrop_cases:
  assumes "send_airdrop ring tc rc polls evs tries req d = Some (Some (r, sent, d'))"
  shows "sent = None \<and> d' = d \<or>
    (\<exists>tx h. sent = Some tx \<and> system_new ring tc (mint_keypair d) (client_pubkey req) (airdrop_request_amount req) h = Some tx \<and>
       check_request_limit (airdrop_request_amount req) d \<and>
       d' = d\<lparr>request_current := request_current d + airdrop_request_amount req\<rparr>)"
proof -
  obtain leader where l: "poll_gossip_for_leader polls = Some (Some leader)"
    using assms by (auto simp: send_airdrop_def bind_eq_Some_conv split: option.splits)
  show ?thesis
  proof (cases leader)
    case (Inl e)
    then show ?thesis using assms l by (simp add: send_airdrop_def)
  next
    case (Inr leader)
    let ?c = "ThinClient_new (ci_rpu (ni_contact_info leader)) (ci_tx_creator (ni_contact_info leader))"
    obtain h cl left where h: "get_last_id rc evs ?c = Some (Some (h, cl, left))"
      using assms l Inr by (auto simp: send_airdrop_def bind_eq_Some_conv split: option.splits)
    obtain tx where tx: "system_new ring tc (mint_keypair d) (client_pubkey req) (airdrop_request_amount req) h = Some tx"
      using assms l Inr h by (auto simp: send_airdrop_def Let_def split: option.splits)
    show ?thesis
      using assms l Inr h tx by (auto simp: send_airdrop_def Let_def split: if_splits)
  qed
qed

definition within_cap :: "tx_ext \<Rightarrow> u64 \<Rightarrow> 'kp drone \<times> transaction list \<Rightarrow> bool" where
  "within_cap tc cap = (\<lambda>(d, given). request_cap d = cap \<and> tokens_given tc given \<le> unat cap \<and>
     unat (request_current d) = tokens_given tc given)"

lemma unat_sum_limit:
  "unat (a :: u64) \<le> unat c \<Longrightarrow> unat n + unat c < 2 ^ 64 \<Longrightarrow> a + n \<le> c \<longleftrightarrow> unat a + unat n \<le> unat c"
  by (subst word_le_nat_alt, subst unat_add_lem [THEN iffD1]) simp_all

lemma faucet_step_within:
  assumes "faucet_step ring tc rc allowed p q" "within_cap tc cap p"
    and codec: "bincode_codec (tc_system tc)" "\<forall>n. length (enc (tc_system tc) (CreateAccount n 0 Pubkey_default)) < 2 ^ 63"
    and small: "\<forall>n. allowed n \<longrightarrow> unat n + unat cap < 2 ^ 64"
  shows "within_cap tc cap q"
  using assms(1)
proof cases
  case (airdrop polls evs tries req d r sent d' given)
  let ?n = "airdrop_request_amount req"
  from send_airdrop_cases [OF airdrop(3)] show ?thesis
  proof (elim disjE exE conjE)
    assume "sent = None" "d' = d"
    then show ?thesis using airdrop(1,2) assms(2) by simp
  next
    fix tx h
    assume tx: "sent = Some tx" "system_new ring tc (mint_keypair d) (client_pubkey req) ?n h = Some tx"
      "check_request_limit ?n d" "d' = d\<lparr>request_current := request_current d + ?n\<rparr>"
    have "dec (tc_system tc) (tx_userdata tx) = Some (CreateAccount ?n 0 Pubkey_default)"
      using system_new_userdata [OF tx(2)] bincode_codec.dec_enc [OF codec(1) codec(2) [rule_format]] by simp
    then have "tokens_given tc [tx] = unat ?n" by (simp add: tokens_given_def)
    moreover have d: "request_cap d = cap" "tokens_given tc given \<le> unat cap" "unat (request_current d) = tokens_given tc given"
      using assms(2) airdrop(1) by (simp_all add: within_cap_def)
    moreover have n: "unat ?n + unat cap < 2 ^ 64" using small airdrop(4) by blast
    moreover have "unat (request_current d) + unat ?n \<le> unat cap"
      using unat_sum_limit [of "request_current d" cap ?n] tx(3) d n by (simp add: check_request_limit_def)
    moreover have "unat (request_current d + ?n) = unat (request_current d) + unat ?n"
      using calculation by (subst unat_add_lem [THEN iffD1]) simp_all
    ultimately show ?thesis using airdrop(2) tx(1,4) by (simp add: within_cap_def)
  qed
next
  case (slice_over d given)
  then show ?thesis using assms(2) by (simp add: within_cap_def clear_request_count_def)
qed

text \<open>C29: the faucet keeps to its cap.  Whatever requests arrive, as long as each is small enough not to
  wrap the counter, and whenever time slices end, the transactions the faucet hands to the network in one
  time slice move at most the cap, and a further request is accepted exactly when it still fits.\<close>

theorem faucet_keeps_cap:
  assumes "bincode_codec (tc_system tc)" "\<forall>n. length (enc (tc_system tc) (CreateAccount n 0 Pubkey_default)) < 2 ^ 63"
    and "\<forall>n. allowed n \<longrightarrow> unat n + unat cap < 2 ^ 64"
    and "(faucet_step ring tc rc allowed)\<^sup>*\<^sup>* (Drone_new kp addr network secs (Some cap), []) (d, given)"
  shows "tokens_given tc given \<le> unat cap \<and>
    (\<forall>n. allowed n \<longrightarrow> check_request_limit n d = (tokens_given tc given + unat n \<le> unat cap))"
proof -
  have "within_cap tc cap (d, given)"
    using assms(4)
  proof (induction rule: rtranclp_induct)
    case base
    show ?case by (simp add: within_cap_def Drone_new_def)
  next
    case (step p q)
    then show ?case using faucet_step_within [OF step(2) _ assms(1-3)] by blast
  qed
  then show ?thesis
    using assms(3) unat_sum_limit [of "request_current d" cap] by (auto simp: within_cap_def check_request_limit_def)
qed

section \<open>An airdrop from request to answer\<close>

lemma recv_response_enc:
  assumes "prefix_codec rc" "length (enc rc rsp) \<le> 1024"
  shows "recv_response rc (Datagram (enc rc rsp)) = Inr rsp"
  using assms prefix_codec.dec_more [OF assms(1), of rsp] by (simp add: recv_response_def read_into_short)

text \<open>What the faucet meets when all goes well: a leader, its last entry id, and a transfer that is found at
  the first try.\<close>

definition good_env :: "response codec \<Rightarrow> blockthread \<Rightarrow> hash \<Rightarrow> airdrop_env" where
  "good_env rc bt h = ([(bt, True)], [(True, Datagram (enc rc (LastIdResponse h)))],
     [(True, [([(True, Datagram (enc rc (SignatureStatusResponse True)))], True)])])"

lemma send_airdrop_succeeds:
  assumes "prefix_codec rc" "length (enc rc (LastIdResponse h)) \<le> 1024" "length (enc rc (SignatureStatusResponse True)) \<le> 1024"
    and "ed25519_contract ring" "leader_data bt = Some (Some leader)" "check_request_limit n d" "good_env rc bt h = (polls, evs, tries)"
  shows "\<exists>tx. system_new ring tc (mint_keypair d) key n h = Some tx \<and>
    send_airdrop ring tc rc polls evs tries (GetAirdrop n key) d =
      Some (Some (Inr (tx_signature tx), Some tx, d\<lparr>request_current := request_current d + n\<rparr>))"
proof -
  note answers = recv_response_enc [OF assms(1,2)] recv_response_enc [OF assms(1,3)]
  obtain tx where tx: "system_new ring tc (mint_keypair d) key n h = Some tx"
    using Transaction_new_signed [OF assms(4)] unfolding system_new_def system_create_def by blast
  show ?thesis
    using assms(5,6,7) tx answers
    by (auto simp: good_env_def send_airdrop_def get_last_id_def Let_def process_response_def ThinClient_new_def check_signature_def)
qed

text \<open>C32: an airdrop comes back to who asked for it.  A request for an amount that fits, sent to a faucet that
  reaches the leader, is answered with the signature of the transaction that pays that amount from the mint
  to the asking key, and the faucet has counted the amount.\<close>

theorem airdrop_is_answered:
  assumes "prefix_codec rc" "length (enc rc (LastIdResponse h)) \<le> 1024" "length (enc rc (SignatureStatusResponse True)) \<le> 1024"
    and "ed25519_contract ring" "leader_data bt = Some (Some leader)" "check_request_limit n d"
    and "bincode_codec dc" "length (enc dc (GetAirdrop n key)) < 2 ^ 63" "fixed_codec sc 64"
  shows "\<exists>tx. system_new ring tc (mint_keypair d) key n h = Some tx \<and>
    request_airdrop dc sc (\<lambda>bytes d. case faucet_connection ring tc rc dc sc [(good_env rc bt h, bytes)] d of
        Some (Some (answer, txs, d')) \<Rightarrow> (Some answer, d') | _ \<Rightarrow> (None, d)) key n d =
      (Inr (tx_signature tx), d\<lparr>request_current := request_current d + n\<rparr>)"
proof -
  obtain polls evs tries where env: "good_env rc bt h = (polls, evs, tries)" by (cases "good_env rc bt h")
  obtain tx where tx: "system_new ring tc (mint_keypair d) key n h = Some tx"
    "send_airdrop ring tc rc polls evs tries (GetAirdrop n key) d =
      Some (Some (Inr (tx_signature tx), Some tx, d\<lparr>request_current := request_current d + n\<rparr>))"
    using send_airdrop_succeeds [OF assms(1-6) env] by blast
  have "dec dc (enc dc (GetAirdrop n key)) = Some (GetAirdrop n key)" by (rule bincode_codec.dec_enc [OF assms(7,8)])
  moreover have "length (enc sc (tx_signature tx)) = 64" "dec sc (enc sc (tx_signature tx)) = Some (tx_signature tx)"
    using fixed_codec.enc_width [OF assms(9)] fixed_codec.dec_enc_fixed [OF assms(9)] by blast+
  ultimately show ?thesis using tx env by (simp add: request_airdrop_def answer_frame_def)
qed

text \<open>The encodings of bincode.\<close>

definition drone_request_wire :: "drone_request wire" where
  "drone_request_wire = \<lparr>
     put = (\<lambda>q. case q of GetAirdrop n key \<Rightarrow> tagged 0 (put (pair_wire u64_wire pubkey_wire) (n, key))),
     get = (\<lambda>bs. do { (t, r) \<leftarrow> get u32_wire bs;
       if t = 0 then variant (\<lambda>(n, key). GetAirdrop n key) (pair_wire u64_wire pubkey_wire) r else None })\<rparr>"

lemma drone_request_wire_format: "wire_format drone_request_wire"
proof -
  have "wire_format (pair_wire u64_wire pubkey_wire)" by (intro wire_rules key_wire_formats)
  note law = variant_put [OF this]
  show ?thesis
    by unfold_locales (auto simp: drone_request_wire_def law simp del: word_wire_sel split: drone_request.splits)
qed

lemma signature_codec_fixed: "fixed_codec (codec_of signature_wire) 64"
  by (intro fixed_codec.intro fixed_codec_axioms.intro codec_of_bincode key_wire_formats)
    (simp_all add: signature_wire_def iso_wire_def)

lemma sample_answers:
  "length (enc (codec_of response_wire) (LastIdResponse h)) \<le> 1024"
  "length (enc (codec_of response_wire) (SignatureStatusResponse True)) \<le> 1024"
  by (simp_all add: response_wire_def tagged_def hash_wire_def iso_wire_def bool_wire_def)

text \<open>A node that knows itself as the leader.\<close>

definition sample_leader_info :: node_info where
  "sample_leader_info = (new_localhost (Pubkey 3))\<lparr>ni_leader_id := Pubkey 3\<rparr>"

definition sample_table :: blockthread where
  "sample_table = (case BlockThread_new sample_leader_info of Inr bt \<Rightarrow> bt)"

lemma sample_table_leader: "leader_data sample_table = Some (Some sample_leader_info)"
  by (simp add: sample_table_def sample_leader_info_def BlockThread_new_def leader_data_def my_data_def new_localhost_def
      NodeInfo_new_def Pubkey_default_def)

abbreviation sample_drone :: "u8 drone" where
  "sample_drone \<equiv> Drone_new 7 (SockV4 0 0 0 0 9900) (SockV4 127 0 0 1 8001) None (Some 100)"

theorem airdrop_answered_witness:
  "\<exists>tx. system_new sample_ring bincode_tx_ext 7 (Pubkey 2) 60 (Hash 5) = Some tx \<and>
    request_airdrop (codec_of drone_request_wire) (codec_of signature_wire)
      (\<lambda>bytes d. case faucet_connection sample_ring bincode_tx_ext (codec_of response_wire) (codec_of drone_request_wire)
          (codec_of signature_wire) [(good_env (codec_of response_wire) sample_table (Hash 5), bytes)] d of
        Some (Some (answer, txs, d')) \<Rightarrow> (Some answer, d') | _ \<Rightarrow> (None, d)) (Pubkey 2) 60 sample_drone =
      (Inr (tx_signature tx), sample_drone\<lparr>request_current := 60\<rparr>)"
proof -
  have limit: "check_request_limit 60 sample_drone" by (simp add: check_request_limit_def Drone_new_def)
  have short: "length (enc (codec_of drone_request_wire) (GetAirdrop 60 (Pubkey 2))) < 2 ^ 63"
    by (simp add: drone_request_wire_def tagged_def pair_wire_def pubkey_wire_def iso_wire_def)
  show ?thesis
    using airdrop_is_answered [OF response_codec.prefix_codec_axioms sample_answers sample_ring_contract
        sample_table_leader limit codec_of_bincode [OF drone_request_wire_format] short signature_codec_fixed,
        of bincode_tx_ext "Hash 5"]
    by (simp add: Drone_new_def)
qed

theorem faucet_keeps_cap_witness:
  "\<exists>d tx. (faucet_step sample_ring bincode_tx_ext (codec_of response_wire) (\<lambda>n. n \<le> 100))\<^sup>*\<^sup>* (sample_drone, []) (d, [tx]) \<and>
    tokens_given bincode_tx_ext [tx] \<le> 100 \<and>
    check_request_limit 60 d = (tokens_given bincode_tx_ext [tx] + 60 \<le> 100)"
proof -
  let ?rc = "codec_of response_wire"
  have limit: "check_request_limit 60 sample_drone" by (simp add: check_request_limit_def Drone_new_def)
  obtain polls evs tries where env: "good_env ?rc sample_table (Hash 5) = (polls, evs, tries)"
    by (cases "good_env ?rc sample_table (Hash 5)")
  obtain tx where tx: "send_airdrop sample_ring bincode_tx_ext ?rc polls evs tries (GetAirdrop 60 (Pubkey 2)) sample_drone =
      Some (Some (Inr (tx_signature tx), Some tx, sample_drone\<lparr>request_current := request_current sample_drone + 60\<rparr>))"
    using send_airdrop_succeeds [OF response_codec.prefix_codec_axioms sample_answers sample_ring_contract sample_table_leader limit env]
    by blast
  have "faucet_step sample_ring bincode_tx_ext ?rc (\<lambda>n. n \<le> 100) (sample_drone, [])
      (sample_drone\<lparr>request_current := request_current sample_drone + 60\<rparr>, [tx])"
    using faucet_step.airdrop [OF tx, of "\<lambda>n. n \<le> 100" "[]"] by simp
  then have run: "(faucet_step sample_ring bincode_tx_ext ?rc (\<lambda>n. n \<le> 100))\<^sup>*\<^sup>* (sample_drone, [])
      (sample_drone\<lparr>request_current := request_current sample_drone + 60\<rparr>, [tx])"
    by blast
  have codec: "bincode_codec (tc_system bincode_tx_ext)" "\<forall>n. length (enc (tc_system bincode_tx_ext) (CreateAccount n 0 Pubkey_default)) < 2 ^ 63"
    using codec_of_bincode [OF system_program_wire_format]
    by (simp_all add: bincode_tx_ext_def system_program_wire_def tagged_def pair_wire_def pubkey_wire_def iso_wire_def)
  have small: "\<forall>n :: u64. n \<le> 100 \<longrightarrow> unat n + unat (100 :: u64) < 2 ^ 64" by (simp add: word_le_nat_alt)
  have "check_request_limit 60 (sample_drone\<lparr>request_current := request_current sample_drone + 60\<rparr>) =
      (tokens_given bincode_tx_ext [tx] + unat (60 :: u64) \<le> unat (100 :: u64))"
    "tokens_given bincode_tx_ext [tx] \<le> unat (100 :: u64)"
    using faucet_keeps_cap [OF codec small run] by (elim conjE allE [of _ 60], simp)+
  then show ?thesis using run
    by (intro exI [of _ "sample_drone\<lparr>request_current := request_current sample_drone + 60\<rparr>"] exI [of _ tx]) simp
qed

text \<open>Without the bound the counter wraps: once anything has been given, a request for the amount that is
  missing to \<open>2^64\<close> passes the limit and sets the counter back to zero.\<close>

lemma faucet_counter_wraps:
  assumes "prefix_codec rc" "length (enc rc (LastIdResponse h)) \<le> 1024" "length (enc rc (SignatureStatusResponse True)) \<le> 1024"
    and "ed25519_contract ring" "leader_data bt = Some (Some leader)" "good_env rc bt h = (polls, evs, tries)"
  shows "\<exists>tx. send_airdrop ring tc rc polls evs tries (GetAirdrop (- request_current d) key) d =
    Some (Some (Inr (tx_signature tx), Some tx, d\<lparr>request_current := 0\<rparr>))"
proof -
  have "check_request_limit (- request_current d) d" by (simp add: check_request_limit_def)
  from send_airdrop_succeeds [OF assms(1-5) this assms(6)] show ?thesis by auto
qed

end
