(* ===== verification/Rpc.thy ===== *)
theory Rpc
  imports Faucet
begin

text \<open>
  The JSON-RPC interface of a node (src/rpc.rs).

  The base-58 encoding and the JSON-RPC server are third-party code: the first is the record \<open>base58\<close>, the
  second calls the methods by name with the parameters of a request (\<open>rpc_dispatch\<close>).  A node's methods
  read its transaction processor; sending a transaction puts a datagram on the wire, and an airdrop goes
  through the faucet, whose connection is the argument \<open>exchange\<close>.
\<close>

section \<open>Data\<close>

record base58 =
  b58_encode :: "bytes \<Rightarrow> string"
  b58_decode :: "string \<Rightarrow> bytes option"

definition base58_law :: "base58 \<Rightarrow> bool" where
  "base58_law b58 \<longleftrightarrow> (\<forall>bs. b58_decode b58 (b58_encode b58 bs) = Some bs)"

datatype json = JNull | JBool bool | JNumber int | JString string | JArray "json list" | JObject "string \<rightharpoonup> json"

datatype rpc_error = InvalidRequest | InternalError | InvalidParams | MethodNotFound

datatype rpc_signature_status = RpcConfirmed | RpcSignatureNotFound | RpcProgramRuntimeError | RpcGenericFailure

definition RPC_PORT :: u16 where "RPC_PORT = 8899"

section \<open>The request processor\<close>

definition jr_get_account_info :: "pubkey \<Rightarrow> 'lib tp \<Rightarrow> rpc_error + account" where
  "jr_get_account_info key st = (case get_account key st of Some a \<Rightarrow> Inr a | None \<Rightarrow> Inl InvalidRequest)"

definition jr_get_balance :: "'lib tp_ext \<Rightarrow> pubkey \<Rightarrow> 'lib tp \<Rightarrow> rpc_error + i64" where
  "jr_get_balance px key st = Inr (get_balance px key st)"

definition jr_get_finality :: "'lib tp \<Rightarrow> rpc_error + u64" where
  "jr_get_finality st = Inr (finality_time st)"

definition jr_get_last_id :: "base58 \<Rightarrow> 'lib tp \<Rightarrow> (rpc_error + string) panics" where
  "jr_get_last_id b58 st = do { h \<leftarrow> tp_last_id st; Some (Inr (b58_encode b58 (hash_as_ref h))) }"

definition jr_get_signature_status :: "hash list \<Rightarrow> signature \<Rightarrow> 'lib tp \<Rightarrow> unit tp_result" where
  "jr_get_signature_status order s st = get_signature_status order s st"

definition jr_get_transaction_count :: "'lib tp \<Rightarrow> rpc_error + u64" where
  "jr_get_transaction_count st = Inr (tp_transaction_count st)"

section \<open>The methods\<close>

text \<open>A key in base 58: decoded, checked for its length, and made a key.\<close>

definition rpc_pubkey :: "base58 \<Rightarrow> string \<Rightarrow> (rpc_error + pubkey) panics" where
  "rpc_pubkey b58 key =
     (case b58_decode b58 key of
        None \<Rightarrow> Some (Inl InvalidRequest)
      | Some v \<Rightarrow> if length v \<noteq> 32 then Some (Inl InvalidRequest) else map_option Inr (Pubkey_new v))"

definition rpc_signature :: "base58 \<Rightarrow> string \<Rightarrow> (rpc_error + signature) panics" where
  "rpc_signature b58 s =
     (case b58_decode b58 s of
        None \<Rightarrow> Some (Inl InvalidRequest)
      | Some v \<Rightarrow> if length v \<noteq> 64 then Some (Inl InvalidRequest) else map_option Inr (Signature_new v))"

definition rpc_get_account_info :: "base58 \<Rightarrow> string \<Rightarrow> 'lib tp \<Rightarrow> (rpc_error + account) panics" where
  "rpc_get_account_info b58 key st = do {
     r \<leftarrow> rpc_pubkey b58 key;
     Some (case r of Inl e \<Rightarrow> Inl e | Inr k \<Rightarrow> jr_get_account_info k st) }"

definition rpc_get_balance :: "'lib tp_ext \<Rightarrow> base58 \<Rightarrow> string \<Rightarrow> 'lib tp \<Rightarrow> (rpc_error + i64) panics" where
  "rpc_get_balance px b58 key st = do {
     r \<leftarrow> rpc_pubkey b58 key;
     Some (case r of Inl e \<Rightarrow> Inl e | Inr k \<Rightarrow> jr_get_balance px k st) }"

definition rpc_get_signature_status ::
    "base58 \<Rightarrow> hash list \<Rightarrow> string \<Rightarrow> 'lib tp \<Rightarrow> (rpc_error + rpc_signature_status) panics" where
  "rpc_get_signature_status b58 order s st = do {
     r \<leftarrow> rpc_signature b58 s;
     Some (case r of
        Inl e \<Rightarrow> Inl e
      | Inr s \<Rightarrow> Inr (case jr_get_signature_status order s st of
            Inr _ \<Rightarrow> RpcConfirmed
          | Inl ProgramRuntimeError \<Rightarrow> RpcProgramRuntimeError
          | Inl SignatureNotFound \<Rightarrow> RpcSignatureNotFound
          | Inl _ \<Rightarrow> RpcGenericFailure)) }"

definition rpc_confirm_transaction :: "base58 \<Rightarrow> hash list \<Rightarrow> string \<Rightarrow> 'lib tp \<Rightarrow> (rpc_error + bool) panics" where
  "rpc_confirm_transaction b58 order s st =
     map_option (map_sum (\<lambda>e. e) (\<lambda>status. status = RpcConfirmed)) (rpc_get_signature_status b58 order s st)"

text \<open>Waiting for the airdrop's transaction: the processor at each poll, and whether five seconds have gone.\<close>

fun airdrop_poll :: "base58 \<Rightarrow> hash list \<Rightarrow> signature \<Rightarrow> ('lib tp \<times> bool) list \<Rightarrow> (rpc_error + string) option" where
  "airdrop_poll b58 order s [] = None"
| "airdrop_poll b58 order s ((st, over) # polls) =
     (case jr_get_signature_status order s st of
        Inr _ \<Rightarrow> Some (Inr (b58_encode b58 (signature_as_ref s)))
      | Inl _ \<Rightarrow> if over then Some (Inl InternalError) else airdrop_poll b58 order s polls)"

definition rpc_request_airdrop ::
    "base58 \<Rightarrow> hash list \<Rightarrow> drone_request codec \<Rightarrow> signature codec \<Rightarrow> (bytes \<Rightarrow> 'f \<Rightarrow> bytes option \<times> 'f) \<Rightarrow> ('lib tp \<times> bool) list \<Rightarrow>
       string \<Rightarrow> u64 \<Rightarrow> 'f \<Rightarrow> ((rpc_error + string) \<times> 'f) panics option" where
  "rpc_request_airdrop b58 order dc sc exchange polls key n f =
     (case rpc_pubkey b58 key of
        None \<Rightarrow> Some None
      | Some (Inl e) \<Rightarrow> Some (Some (Inl e, f))
      | Some (Inr k) \<Rightarrow>
          (case request_airdrop dc sc exchange k n f of
             (Inl _, f) \<Rightarrow> Some (Some (Inl InternalError, f))
           | (Inr s, f) \<Rightarrow> map_option (\<lambda>r. Some (r, f)) (airdrop_poll b58 order s polls)))"

definition rpc_send_transaction ::
    "transaction codec \<Rightarrow> base58 \<Rightarrow> (datagram \<Rightarrow> bool) \<Rightarrow> socket_addr \<Rightarrow> bytes \<Rightarrow> (rpc_error + string) \<times> datagram list" where
  "rpc_send_transaction txc b58 sent addr data =
     (case dec txc data of
        None \<Rightarrow> (Inl InvalidRequest, [])
      | Some tx \<Rightarrow>
          if sent (data, addr) then (Inr (b58_encode b58 (signature_as_ref (tx_signature tx))), [(data, addr)])
          else (Inl InternalError, []))"

section \<open>The interface\<close>

text \<open>How results are written as JSON.\<close>

definition bytes_json :: "bytes \<Rightarrow> json" where
  "bytes_json bs = JArray (map (\<lambda>b. JNumber (uint b)) bs)"

definition account_json :: "account \<Rightarrow> json" where
  "account_json a = JObject [''tokens'' \<mapsto> JNumber (sint (tokens a)), ''userdata'' \<mapsto> bytes_json (userdata a),
     ''program_id'' \<mapsto> bytes_json (pubkey_as_ref (program_id a))]"

primrec status_json :: "rpc_signature_status \<Rightarrow> json" where
  "status_json RpcConfirmed = JString ''Confirmed''"
| "status_json RpcSignatureNotFound = JString ''SignatureNotFound''"
| "status_json RpcProgramRuntimeError = JString ''ProgramRuntimeError''"
| "status_json RpcGenericFailure = JString ''GenericFailure''"

text \<open>A parameter of type \<open>Vec<u8>\<close>.\<close>

fun json_bytes :: "json list \<Rightarrow> bytes option" where
  "json_bytes [] = Some []"
| "json_bytes (JNumber n # vs) = (if 0 \<le> n \<and> n < 256 then map_option ((#) (of_int n)) (json_bytes vs) else None)"
| "json_bytes (_ # vs) = None"

record ('lib, 'f) rpc_node =
  rn_px :: "'lib tp_ext"
  rn_b58 :: base58
  rn_txc :: "transaction codec"
  rn_order :: "hash list"
  rn_sent :: "datagram \<Rightarrow> bool"
  rn_transactions_addr :: socket_addr
  rn_dc :: "drone_request codec"
  rn_sc :: "signature codec"
  rn_exchange :: "bytes \<Rightarrow> 'f \<Rightarrow> bytes option \<times> 'f"
  rn_polls :: "('lib tp \<times> bool) list"

text \<open>What the methods act on: the node's processor, the faucet, and the datagrams the node has sent.\<close>

type_synonym ('lib, 'f) rpc_world = "'lib tp \<times> 'f \<times> datagram list"

definition rpc_dispatch ::
    "('lib, 'f) rpc_node \<Rightarrow> string \<Rightarrow> json list \<Rightarrow> ('lib, 'f) rpc_world \<Rightarrow>
       ((rpc_error + json) \<times> ('lib, 'f) rpc_world) panics option" where
  "rpc_dispatch rn method params w =
     (case w of (st, f, out) \<Rightarrow>
        let reply = (\<lambda>r. Some (map_option (\<lambda>v. (v, w)) r)) in
        if method = ''confirmTransaction'' then
          (case params of
             [JString s] \<Rightarrow> reply (map_option (map_sum (\<lambda>e. e) JBool) (rpc_confirm_transaction (rn_b58 rn) (rn_order rn) s st))
           | _ \<Rightarrow> reply (Some (Inl InvalidParams)))
        else if method = ''getAccountInfo'' then
          (case params of
             [JString k] \<Rightarrow> reply (map_option (map_sum (\<lambda>e. e) account_json) (rpc_get_account_info (rn_b58 rn) k st))
           | _ \<Rightarrow> reply (Some (Inl InvalidParams)))
        else if method = ''getBalance'' then
          (case params of
             [JString k] \<Rightarrow> reply (map_option (map_sum (\<lambda>e. e) (\<lambda>n. JNumber (sint n))) (rpc_get_balance (rn_px rn) (rn_b58 rn) k st))
           | _ \<Rightarrow> reply (Some (Inl InvalidParams)))
        else if method = ''getFinality'' then
          reply (Some (case params of [] \<Rightarrow> map_sum (\<lambda>e. e) (\<lambda>n. JNumber (uint n)) (jr_get_finality st) | _ \<Rightarrow> Inl InvalidParams))
        else if method = ''getLastId'' then
          (case params of
             [] \<Rightarrow> reply (map_option (map_sum (\<lambda>e. e) JString) (jr_get_last_id (rn_b58 rn) st))
           | _ \<Rightarrow> reply (Some (Inl InvalidParams)))
        else if method = ''getSignatureStatus'' then
          (case params of
             [JString s] \<Rightarrow> reply (map_option (map_sum (\<lambda>e. e) status_json) (rpc_get_signature_status (rn_b58 rn) (rn_order rn) s st))
           | _ \<Rightarrow> reply (Some (Inl InvalidParams)))
        else if method = ''getTransactionCount'' then
          reply (Some (case params of [] \<Rightarrow> map_sum (\<lambda>e. e) (\<lambda>n. JNumber (uint n)) (jr_get_transaction_count st) | _ \<Rightarrow> Inl InvalidParams))
        else if method = ''requestAirdrop'' then
          (case params of
             [JString k, JNumber n] \<Rightarrow>
               (if 0 \<le> n \<and> n < 2 ^ 64 then
                  map_option (map_option (\<lambda>(r, f). (map_sum (\<lambda>e. e) JString r, st, f, out)))
                    (rpc_request_airdrop (rn_b58 rn) (rn_order rn) (rn_dc rn) (rn_sc rn) (rn_exchange rn) (rn_polls rn) k (of_int n) f)
                else reply (Some (Inl InvalidParams)))
           | _ \<Rightarrow> reply (Some (Inl InvalidParams)))
        else if method = ''sendTransaction'' then
          (case params of
             [JArray vs] \<Rightarrow>
               (case json_bytes vs of
                  Some data \<Rightarrow>
                    (case rpc_send_transaction (rn_txc rn) (rn_b58 rn) (rn_sent rn) (rn_transactions_addr rn) data of
                       (r, ds) \<Rightarrow> Some (Some (map_sum (\<lambda>e. e) JString r, st, f, out @ ds)))
                | None \<Rightarrow> reply (Some (Inl InvalidParams)))
           | _ \<Rightarrow> reply (Some (Inl InvalidParams)))
        else reply (Some (Inl MethodNotFound)))"

end
