(* ===== verification/Qtc.thy ===== *)
theory Qtc
  imports Rpc
begin

text \<open>
  The wallet (src/qtc.rs): parsing a command line into a command, and running the command over the RPC
  interface of a node.

  The arguments of the command line, as the third-party parser hands them over, are a map from names to
  the values given; dates are parsed by the argument \<open>parse_date\<close>.  The text of a JSON document is left
  abstract: it is a type of its own with a conversion in each direction.  \<open>we_post\<close> is an exchange over HTTP
  and \<open>we_faucet\<close> a connection to the faucet; both act on the state of the world, which a command threads
  through.  The key pairs that are drawn at random are arguments.
\<close>

section \<open>Data\<close>

datatype qtc_command =
    Address
  | AirDrop i64
  | Balance
  | Cancel pubkey
  | Confirm signature
  | PayTo i64 pubkey "date_time option" "pubkey option" "pubkey list option" "pubkey option"
  | TimeElapsed pubkey pubkey date_time
  | Witness pubkey pubkey

datatype qtc_error =
    CommandNotRecognized string
  | BadParameter string
  | RpcRequestError string

text \<open>The errors of the boxed type that the functions return.  An error response of a node is kept as the
  document that came; the code prints it into an \<open>RpcRequestError\<close>.\<close>

datatype wallet_error =
    QtcError qtc_error
  | ParseIntError
  | SerdeError
  | HttpError
  | AirdropRequestError request_error
  | RpcErrorResponse json
  | TextError string

record 'kp qtc_config =
  qc_leader :: node_info
  qc_id :: 'kp
  qc_faucet_addr :: socket_addr
  qc_rpc_addr :: string
  qc_command :: qtc_command

text \<open>Base 58 is how keys, signatures and hashes are displayed.\<close>

definition Pubkey_fmt :: "base58 \<Rightarrow> pubkey \<Rightarrow> string" where
  "Pubkey_fmt b58 k = b58_encode b58 (pubkey_as_ref k)"

definition Signature_fmt :: "base58 \<Rightarrow> signature \<Rightarrow> string" where
  "Signature_fmt b58 s = b58_encode b58 (signature_as_ref s)"

section \<open>Numbers as text\<close>

definition digit_of :: "char \<Rightarrow> nat option" where
  "digit_of c = (let n = of_char c :: nat in if 48 \<le> n \<and> n \<le> 57 then Some (n - 48) else None)"

fun parse_digits :: "nat \<Rightarrow> string \<Rightarrow> nat option" where
  "parse_digits acc [] = Some acc"
| "parse_digits acc (c # cs) = do { d \<leftarrow> digit_of c; parse_digits (10 * acc + d) cs }"

definition parse_int :: "string \<Rightarrow> int option" where
  "parse_int cs =
     (case cs of
        [] \<Rightarrow> None
      | c # ds \<Rightarrow>
          if c = CHR ''-'' then (if ds = [] then None else map_option (\<lambda>n. - int n) (parse_digits 0 ds))
          else if c = CHR ''+'' then (if ds = [] then None else map_option int (parse_digits 0 ds))
          else map_option int (parse_digits 0 cs))"

definition parse_i64 :: "string \<Rightarrow> i64 option" where
  "parse_i64 cs = do { n \<leftarrow> parse_int cs; if - (2 ^ 63) \<le> n \<and> n < 2 ^ 63 then Some (of_int n) else None }"

fun show_nat :: "nat \<Rightarrow> string" where
  "show_nat n = (if n < 10 then [char_of (48 + n)] else show_nat (n div 10) @ [char_of (48 + n mod 10)])"

declare show_nat.simps [simp del]

definition show_int :: "int \<Rightarrow> string" where
  "show_int n = (if n < 0 then CHR ''-'' # show_nat (nat (- n)) else show_nat (nat n))"

section \<open>Parsing a command\<close>

type_synonym arg_values = "string \<rightharpoonup> string list"

definition value_of :: "string \<Rightarrow> arg_values \<Rightarrow> string option" where
  "value_of name args = (case args name of Some (v # _) \<Rightarrow> Some v | _ \<Rightarrow> None)"

definition is_present :: "string \<Rightarrow> arg_values \<Rightarrow> bool" where
  "is_present name args \<longleftrightarrow> (case args name of Some _ \<Rightarrow> True | None \<Rightarrow> False)"

text \<open>A required key in base 58; text that is not base 58 is a panic.\<close>

definition decode_key :: "base58 \<Rightarrow> string \<Rightarrow> string \<Rightarrow> (wallet_error + pubkey) panics" where
  "decode_key b58 message v = do {
     bs \<leftarrow> b58_decode b58 v;
     if length bs \<noteq> 32 then Some (Inl (QtcError (BadParameter message))) else map_option Inr (Pubkey_new bs) }"

definition key_argument :: "base58 \<Rightarrow> string \<Rightarrow> string \<Rightarrow> arg_values \<Rightarrow> (wallet_error + pubkey) panics" where
  "key_argument b58 name message args = value_of name args \<bind> decode_key b58 message"

text \<open>A date, with the zone's letter appended when it has none.\<close>

definition date_argument :: "(string \<Rightarrow> date_time option) \<Rightarrow> string \<Rightarrow> wallet_error + date_time" where
  "date_argument parse_date v =
     (case parse_date (if CHR ''Z'' \<notin> set v then v @ ''Z'' else v) of Some dt \<Rightarrow> Inr dt | None \<Rightarrow> Inl SerdeError)"

fun witness_arguments :: "base58 \<Rightarrow> string list \<Rightarrow> (wallet_error + pubkey list) panics" where
  "witness_arguments b58 [] = Some (Inr [])"
| "witness_arguments b58 (v # vs) = do {
     r \<leftarrow> decode_key b58 ''Invalid witness public key'' v;
     (case r of
        Inl e \<Rightarrow> Some (Inl e)
      | Inr k \<Rightarrow> map_option (map_sum (\<lambda>e. e) ((#) k)) (witness_arguments b58 vs)) }"

text \<open>\<open>and_then\<close> passes on what was parsed; an error or a panic ends the parse.\<close>

definition and_then :: "('e + 'a) panics \<Rightarrow> ('a \<Rightarrow> ('e + 'b) panics) \<Rightarrow> ('e + 'b) panics" where
  "and_then m f = (case m of None \<Rightarrow> None | Some (Inl e) \<Rightarrow> Some (Inl e) | Some (Inr a) \<Rightarrow> f a)"

definition parse_pay ::
    "base58 \<Rightarrow> (string \<Rightarrow> date_time option) \<Rightarrow> pubkey \<Rightarrow> arg_values \<Rightarrow> (wallet_error + qtc_command) panics" where
  "parse_pay b58 parse_date pubkey args =
     and_then (map_option (\<lambda>v. case parse_i64 v of Some n \<Rightarrow> Inr n | None \<Rightarrow> Inl ParseIntError) (value_of ''tokens'' args)) (\<lambda>n.
     and_then (if is_present ''to'' args then key_argument b58 ''to'' ''Invalid to public key'' args else Some (Inr pubkey)) (\<lambda>to_key.
     and_then (if is_present ''timestamp'' args
       then map_option (\<lambda>v. map_sum (\<lambda>e. e) Some (date_argument parse_date v)) (value_of ''timestamp'' args)
       else Some (Inr None)) (\<lambda>timestamp.
     and_then (if is_present ''timestamp-pubkey'' args
       then map_option (map_sum (\<lambda>e. e) Some) (key_argument b58 ''timestamp-pubkey'' ''Invalid timestamp public key'' args)
       else Some (Inr None)) (\<lambda>timestamp_pubkey.
     and_then (case args ''witness'' of
         Some vs \<Rightarrow> map_option (map_sum (\<lambda>e. e) Some) (witness_arguments b58 vs)
       | None \<Rightarrow> Some (Inr None)) (\<lambda>witness_vec.
     Some (Inr (PayTo n to_key timestamp timestamp_pubkey witness_vec
       (if is_present ''cancelable'' args then Some pubkey else None))))))))"

text \<open>\<open>None\<close> stands for no subcommand at all; other names cannot come from the parser, and meeting one is a
  panic.  \<open>now\<close> is the clock.\<close>

definition parse_command ::
    "base58 \<Rightarrow> (string \<Rightarrow> date_time option) \<Rightarrow> date_time \<Rightarrow> pubkey \<Rightarrow> (string \<times> arg_values) option \<Rightarrow> (wallet_error + qtc_command) panics" where
  "parse_command b58 parse_date now pubkey matches =
     (case matches of
        None \<Rightarrow> Some (Inl (QtcError (CommandNotRecognized ''no subcommand given'')))
      | Some (name, args) \<Rightarrow>
          if name = ''address'' then Some (Inr Address)
          else if name = ''airdrop'' then
            map_option (\<lambda>v. case parse_i64 v of Some n \<Rightarrow> Inr (AirDrop n) | None \<Rightarrow> Inl ParseIntError) (value_of ''tokens'' args)
          else if name = ''balance'' then Some (Inr Balance)
          else if name = ''cancel'' then
            and_then (key_argument b58 ''process-id'' ''Invalid public key'' args) (\<lambda>process_id. Some (Inr (Cancel process_id)))
          else if name = ''confirm'' then do {
            v \<leftarrow> value_of ''signature'' args;
            bs \<leftarrow> b58_decode b58 v;
            if length bs = 64 then map_option (\<lambda>s. Inr (Confirm s)) (Signature_new bs)
            else Some (Inl (QtcError (BadParameter ''Invalid signature''))) }
          else if name = ''pay'' then parse_pay b58 parse_date pubkey args
          else if name = ''send-signature'' then
            and_then (key_argument b58 ''to'' ''Invalid public key'' args) (\<lambda>to_key.
            and_then (key_argument b58 ''process-id'' ''Invalid public key'' args) (\<lambda>process_id.
            Some (Inr (Witness to_key process_id))))
          else if name = ''send-timestamp'' then
            and_then (key_argument b58 ''to'' ''Invalid public key'' args) (\<lambda>to_key.
            and_then (key_argument b58 ''process-id'' ''Invalid public key'' args) (\<lambda>process_id.
            and_then (if is_present ''datetime'' args then map_option (date_argument parse_date) (value_of ''datetime'' args)
              else Some (Inr now)) (\<lambda>dt.
            Some (Inr (TimeElapsed to_key process_id dt)))))
          else None)"

section \<open>Running a command\<close>

record ('t, 'kp, 'w) wallet_env =
  we_ring :: "'kp ed25519"
  we_tx :: tx_ext
  we_txc :: "transaction codec"
  we_b58 :: base58
  we_to_text :: "json \<Rightarrow> 't"
  we_of_text :: "'t \<Rightarrow> json option"
  we_post :: "string \<Rightarrow> 't \<Rightarrow> 'w \<Rightarrow> 't option \<times> 'w"
  we_dc :: "drone_request codec"
  we_sc :: "signature codec"
  we_faucet :: "socket_addr \<Rightarrow> bytes \<Rightarrow> 'w \<Rightarrow> bytes option \<times> 'w"

text \<open>A command: its result, which may be an error or a panic, and the world after it.\<close>

type_synonym ('w, 'a) command = "'w \<Rightarrow> (wallet_error + 'a) panics \<times> 'w"

definition and_do :: "('w, 'a) command \<Rightarrow> ('a \<Rightarrow> ('w, 'b) command) \<Rightarrow> ('w, 'b) command" where
  "and_do m f w = (case m w of (None, w) \<Rightarrow> (None, w) | (Some (Inl e), w) \<Rightarrow> (Some (Inl e), w) | (Some (Inr a), w) \<Rightarrow> f a w)"

definition fail_with :: "wallet_error \<Rightarrow> ('w, 'a) command" where
  "fail_with e w = (Some (Inl e), w)"

definition give :: "'a \<Rightarrow> ('w, 'a) command" where
  "give a w = (Some (Inr a), w)"

definition or_panic :: "'a panics \<Rightarrow> ('w, 'a) command" where
  "or_panic m w = (map_option Inr m, w)"

text \<open>Reading a JSON value.\<close>

definition json_field :: "string \<Rightarrow> json \<Rightarrow> json" where
  "json_field name v = (case v of JObject m \<Rightarrow> (case m name of Some x \<Rightarrow> x | None \<Rightarrow> JNull) | _ \<Rightarrow> JNull)"

definition as_i64 :: "json \<Rightarrow> i64 option" where
  "as_i64 v = (case v of JNumber n \<Rightarrow> if - (2 ^ 63) \<le> n \<and> n < 2 ^ 63 then Some (of_int n) else None | _ \<Rightarrow> None)"

definition as_bool :: "json \<Rightarrow> bool option" where
  "as_bool v = (case v of JBool b \<Rightarrow> Some b | _ \<Rightarrow> None)"

definition as_str :: "json \<Rightarrow> string option" where
  "as_str v = (case v of JString s \<Rightarrow> Some s | _ \<Rightarrow> None)"

datatype qtc_rpc_request =
    RConfirmTransaction
  | RGetAccountInfo
  | RGetBalance
  | RGetFinality
  | RGetLastId
  | RGetTransactionCount
  | RRequestAirdrop
  | RSendTransaction

primrec rpc_method :: "qtc_rpc_request \<Rightarrow> string" where
  "rpc_method RConfirmTransaction = ''confirmTransaction''"
| "rpc_method RGetAccountInfo = ''getAccountInfo''"
| "rpc_method RGetBalance = ''getBalance''"
| "rpc_method RGetFinality = ''getFinality''"
| "rpc_method RGetLastId = ''getLastId''"
| "rpc_method RGetTransactionCount = ''getTransactionCount''"
| "rpc_method RRequestAirdrop = ''requestAirdrop''"
| "rpc_method RSendTransaction = ''sendTransaction''"

definition rpc_request_json :: "u64 \<Rightarrow> string \<Rightarrow> json option \<Rightarrow> json" where
  "rpc_request_json n method params =
     (let request = [''jsonrpc'' \<mapsto> JString ''2.0'', ''id'' \<mapsto> JNumber (uint n), ''method'' \<mapsto> JString method]
      in JObject (case params of Some p \<Rightarrow> request(''params'' \<mapsto> JArray [p]) | None \<Rightarrow> request))"

definition make_rpc_request ::
    "('t, 'kp, 'w) wallet_env \<Rightarrow> qtc_rpc_request \<Rightarrow> string \<Rightarrow> u64 \<Rightarrow> json option \<Rightarrow> ('w, json) command" where
  "make_rpc_request we req rpc_addr n params w =
     (case we_post we rpc_addr (we_to_text we (rpc_request_json n (rpc_method req) params)) w of
        (None, w) \<Rightarrow> (Some (Inl HttpError), w)
      | (Some text, w) \<Rightarrow>
          (case we_of_text we text of
             None \<Rightarrow> (Some (Inl SerdeError), w)
           | Some json \<Rightarrow>
               (case json_field ''error'' json of
                  JObject e \<Rightarrow> (Some (Inl (RpcErrorResponse (JObject e))), w)
                | _ \<Rightarrow> (Some (Inr (json_field ''result'' json)), w))))"

definition qtc_get_last_id :: "('t, 'kp, 'w) wallet_env \<Rightarrow> 'kp qtc_config \<Rightarrow> ('w, hash) command" where
  "qtc_get_last_id we config =
     and_do (make_rpc_request we RGetLastId (qc_rpc_addr config) 1 None) (\<lambda>result.
     case as_str result of
       None \<Rightarrow> fail_with (QtcError (RpcRequestError ''Received bad last_id''))
     | Some last_id_str \<Rightarrow>
         (case b58_decode (we_b58 we) last_id_str of
            None \<Rightarrow> fail_with (QtcError (RpcRequestError ''Received bad last_id''))
          | Some v \<Rightarrow> or_panic (Hash_new v)))"

definition serialize_and_send_tx ::
    "('t, 'kp, 'w) wallet_env \<Rightarrow> 'kp qtc_config \<Rightarrow> transaction \<Rightarrow> ('w, string) command" where
  "serialize_and_send_tx we config tx =
     and_do (make_rpc_request we RSendTransaction (qc_rpc_addr config) 2 (Some (bytes_json (enc (we_txc we) tx)))) (\<lambda>result.
     case as_str result of
       None \<Rightarrow> fail_with (QtcError (RpcRequestError ''Received result of an unexpected type''))
     | Some s \<Rightarrow> give s)"

definition qtc_request_airdrop ::
    "('t, 'kp, 'w) wallet_env \<Rightarrow> 'kp qtc_config \<Rightarrow> pubkey \<Rightarrow> u64 \<Rightarrow> ('w, signature) command" where
  "qtc_request_airdrop we config key n w =
     (case request_airdrop (we_dc we) (we_sc we) (we_faucet we (qc_faucet_addr config)) key n w of
        (Inl e, w) \<Rightarrow> (Some (Inl (AirdropRequestError e)), w)
      | (Inr s, w) \<Rightarrow> (Some (Inr s), w))"

text \<open>What a command prints: a line of text or a document.\<close>

datatype qtc_output = OutText string | OutJson json

definition get_balance_value :: "('t, 'kp, 'w) wallet_env \<Rightarrow> 'kp qtc_config \<Rightarrow> pubkey \<Rightarrow> ('w, i64 option) command" where
  "get_balance_value we config key =
     and_do (make_rpc_request we RGetBalance (qc_rpc_addr config) 1 (Some (JString (Pubkey_fmt (we_b58 we) key))))
       (\<lambda>v. give (as_i64 v))"

text \<open>Waiting for an airdrop: the balance is read up to \<open>tries\<close> times, until it differs.\<close>

fun balance_changes ::
    "('t, 'kp, 'w) wallet_env \<Rightarrow> 'kp qtc_config \<Rightarrow> pubkey \<Rightarrow> i64 \<Rightarrow> nat \<Rightarrow> i64 \<Rightarrow> ('w, i64) command" where
  "balance_changes we config key previous_balance 0 current = give current"
| "balance_changes we config key previous_balance (Suc tries) current =
     and_do (get_balance_value we config key) (\<lambda>b.
       let current = (case b of Some n \<Rightarrow> n | None \<Rightarrow> previous_balance)
       in if previous_balance \<noteq> current then give current else balance_changes we config key previous_balance tries current)"

definition run_airdrop :: "('t, 'kp, 'w) wallet_env \<Rightarrow> 'kp qtc_config \<Rightarrow> i64 \<Rightarrow> ('w, qtc_output) command" where
  "run_airdrop we config n =
     and_do (or_panic (keypair_pubkey (we_ring we) (qc_id config))) (\<lambda>key.
     and_do (get_balance_value we config key) (\<lambda>b.
     case b of
       None \<Rightarrow> fail_with (QtcError (RpcRequestError ''Received result of an unexpected type''))
     | Some previous_balance \<Rightarrow>
         and_do (qtc_request_airdrop we config key n) (\<lambda>_.
         and_do (balance_changes we config key previous_balance 20 previous_balance) (\<lambda>current_balance.
         if current_balance - previous_balance \<noteq> n then fail_with (TextError ''Airdrop failed!'')
         else give (OutText (''Your balance is: '' @ show_int (sint current_balance)))))))"

definition run_balance :: "('t, 'kp, 'w) wallet_env \<Rightarrow> 'kp qtc_config \<Rightarrow> ('w, qtc_output) command" where
  "run_balance we config =
     and_do (or_panic (keypair_pubkey (we_ring we) (qc_id config))) (\<lambda>key.
     and_do (get_balance_value we config key) (\<lambda>b.
     case b of
       None \<Rightarrow> fail_with (QtcError (RpcRequestError ''Received result of an unexpected type''))
     | Some n \<Rightarrow>
         if n = 0 then give (OutText ''No account found! Request an airdrop to get started.'')
         else give (OutText (''Your balance is: '' @ show_int (sint n)))))"

definition run_confirm :: "('t, 'kp, 'w) wallet_env \<Rightarrow> 'kp qtc_config \<Rightarrow> signature \<Rightarrow> ('w, qtc_output) command" where
  "run_confirm we config s =
     and_do (make_rpc_request we RConfirmTransaction (qc_rpc_addr config) 1 (Some (JString (Signature_fmt (we_b58 we) s)))) (\<lambda>v.
     case as_bool v of
       Some b \<Rightarrow> give (OutText (if b then ''Confirmed'' else ''Not found''))
     | None \<Rightarrow> fail_with (QtcError (RpcRequestError ''Received result of an unexpected type'')))"

text \<open>A payment under a condition: an account for the funds, one for the contract's state, and the contract,
  which \<open>new_contract\<close> makes.\<close>

definition run_contract ::
    "('t, 'kp, 'w) wallet_env \<Rightarrow> 'kp qtc_config \<Rightarrow> i64 \<Rightarrow> 'kp \<Rightarrow> 'kp \<Rightarrow> hash \<Rightarrow> (pubkey \<Rightarrow> transaction panics) \<Rightarrow> ('w, qtc_output) command" where
  "run_contract we config n contract_funds contract_state last_id new_contract =
     and_do (or_panic (keypair_pubkey (we_ring we) contract_funds)) (\<lambda>funds_key.
     and_do (or_panic (keypair_pubkey (we_ring we) contract_state)) (\<lambda>state_key.
     and_do (or_panic (system_create (we_ring we) (we_tx we) (qc_id config) funds_key last_id n 0 FinPlanState_id 0)) (\<lambda>tx.
     and_do (serialize_and_send_tx we config tx) (\<lambda>_.
     and_do (or_panic (system_create (we_ring we) (we_tx we) (qc_id config) state_key last_id 1 196 FinPlanState_id 0)) (\<lambda>tx.
     and_do (serialize_and_send_tx we config tx) (\<lambda>_.
     and_do (or_panic (new_contract state_key)) (\<lambda>tx.
     and_do (serialize_and_send_tx we config tx) (\<lambda>signature_str.
     give (OutJson (JObject [''signature'' \<mapsto> JString signature_str,
       ''processId'' \<mapsto> JString (Pubkey_fmt (we_b58 we) state_key)]))))))))))"

definition run_pay ::
    "('t, 'kp, 'w) wallet_env \<Rightarrow> 'kp qtc_config \<Rightarrow> 'kp \<Rightarrow> 'kp \<Rightarrow> i64 \<Rightarrow> pubkey \<Rightarrow> date_time option \<Rightarrow> pubkey option \<Rightarrow>
       pubkey list option \<Rightarrow> pubkey option \<Rightarrow> ('w, qtc_output) command" where
  "run_pay we config contract_funds contract_state n to_key timestamp timestamp_pubkey witnesses cancelable =
     and_do (qtc_get_last_id we config) (\<lambda>last_id.
     case (timestamp, witnesses) of
       (None, None) \<Rightarrow>
         and_do (or_panic (system_new (we_ring we) (we_tx we) (qc_id config) to_key n last_id)) (\<lambda>tx.
         and_do (serialize_and_send_tx we config tx) (\<lambda>signature_str. give (OutText signature_str)))
     | (Some dt, None) \<Rightarrow>
         and_do (case timestamp_pubkey of Some key \<Rightarrow> give key | None \<Rightarrow> or_panic (keypair_pubkey (we_ring we) (qc_id config))) (\<lambda>dt_pubkey.
         run_contract we config n contract_funds contract_state last_id (\<lambda>state_key.
           fin_plan_new_on_date (we_ring we) (we_tx we) contract_funds to_key state_key dt dt_pubkey cancelable n last_id))
     | (None, Some witness_vec) \<Rightarrow>
         and_do (qtc_get_last_id we config) (\<lambda>last_id.
         and_do (or_panic (get_at witness_vec 0)) (\<lambda>witness.
         run_contract we config n contract_funds contract_state last_id (\<lambda>state_key.
           fin_plan_new_when_signed (we_ring we) (we_tx we) contract_funds to_key state_key witness cancelable n last_id)))
     | (Some dt, Some witness_vec) \<Rightarrow> give (OutText ''Combo transactions not yet handled''))"

text \<open>A wallet without tokens asks for one before it sends a witness.\<close>

definition fund_witness :: "('t, 'kp, 'w) wallet_env \<Rightarrow> 'kp qtc_config \<Rightarrow> pubkey \<Rightarrow> ('w, unit) command" where
  "fund_witness we config key =
     and_do (get_balance_value we config key) (\<lambda>b.
     case b of
       Some n \<Rightarrow> if n = 0 then and_do (qtc_request_airdrop we config key 1) (\<lambda>_. give ()) else give ()
     | None \<Rightarrow> give ())"

definition process_command ::
    "('t, 'kp, 'w) wallet_env \<Rightarrow> 'kp \<Rightarrow> 'kp \<Rightarrow> 'kp qtc_config \<Rightarrow> ('w, qtc_output) command" where
  "process_command we contract_funds contract_state config =
     (case qc_command config of
        Address \<Rightarrow> and_do (or_panic (keypair_pubkey (we_ring we) (qc_id config))) (\<lambda>key. give (OutText (Pubkey_fmt (we_b58 we) key)))
      | AirDrop n \<Rightarrow> run_airdrop we config n
      | Balance \<Rightarrow> run_balance we config
      | Cancel process_id \<Rightarrow>
          and_do (qtc_get_last_id we config) (\<lambda>last_id.
          and_do (or_panic (keypair_pubkey (we_ring we) (qc_id config))) (\<lambda>key.
          and_do (or_panic (fin_plan_new_signature (we_ring we) (we_tx we) (qc_id config) process_id key last_id)) (\<lambda>tx.
          and_do (serialize_and_send_tx we config tx) (\<lambda>signature_str. give (OutText signature_str)))))
      | Confirm s \<Rightarrow> run_confirm we config s
      | PayTo n to_key timestamp timestamp_pubkey witnesses cancelable \<Rightarrow>
          run_pay we config contract_funds contract_state n to_key timestamp timestamp_pubkey witnesses cancelable
      | TimeElapsed to_key process_id dt \<Rightarrow>
          and_do (or_panic (keypair_pubkey (we_ring we) (qc_id config))) (\<lambda>key.
          and_do (fund_witness we config key) (\<lambda>_.
          and_do (qtc_get_last_id we config) (\<lambda>last_id.
          and_do (or_panic (fin_plan_new_timestamp (we_ring we) (we_tx we) (qc_id config) process_id to_key dt last_id)) (\<lambda>tx.
          and_do (serialize_and_send_tx we config tx) (\<lambda>signature_str. give (OutText signature_str))))))
      | Witness to_key process_id \<Rightarrow>
          and_do (qtc_get_last_id we config) (\<lambda>last_id.
          and_do (or_panic (keypair_pubkey (we_ring we) (qc_id config))) (\<lambda>key.
          and_do (fund_witness we config key) (\<lambda>_.
          and_do (or_panic (fin_plan_new_signature (we_ring we) (we_tx we) (qc_id config) process_id to_key last_id)) (\<lambda>tx.
          and_do (serialize_and_send_tx we config tx) (\<lambda>signature_str. give (OutText signature_str)))))))"

section \<open>A wallet and a node\<close>

text \<open>The answer of a JSON-RPC server, and what a wallet relies on: the server calls the node's method with
  the parameters of the request, and returns the text of the answer.\<close>

primrec error_json :: "rpc_error \<Rightarrow> json" where
  "error_json InvalidRequest = JObject [''code'' \<mapsto> JNumber (- 32600), ''message'' \<mapsto> JString ''Invalid request'']"
| "error_json InternalError = JObject [''code'' \<mapsto> JNumber (- 32603), ''message'' \<mapsto> JString ''Internal error'']"
| "error_json InvalidParams = JObject [''code'' \<mapsto> JNumber (- 32602), ''message'' \<mapsto> JString ''Invalid params'']"
| "error_json MethodNotFound = JObject [''code'' \<mapsto> JNumber (- 32601), ''message'' \<mapsto> JString ''Method not found'']"

definition rpc_reply_json :: "u64 \<Rightarrow> rpc_error + json \<Rightarrow> json" where
  "rpc_reply_json n r =
     (case r of
        Inl e \<Rightarrow> JObject [''jsonrpc'' \<mapsto> JString ''2.0'', ''error'' \<mapsto> error_json e, ''id'' \<mapsto> JNumber (uint n)]
      | Inr v \<Rightarrow> JObject [''jsonrpc'' \<mapsto> JString ''2.0'', ''result'' \<mapsto> v, ''id'' \<mapsto> JNumber (uint n)])"

lemma and_do_simps [simp]:
  "m w = (Some (Inr a), w') \<Longrightarrow> and_do m f w = f a w'"
  "and_do (or_panic (Some a)) f w = f a w" "and_do (give a) f w = f a w"
  by (simp_all add: and_do_def or_panic_def give_def)

locale rpc_service =
  fixes rn :: "('lib, 'f) rpc_node" and we :: "('t, 'kp, ('lib, 'f) rpc_world) wallet_env" and addr :: string
  assumes text_read: "we_of_text we (we_to_text we v) = Some v"
    and answered: "rpc_dispatch rn method (case params of None \<Rightarrow> [] | Some p \<Rightarrow> [p]) w = Some (Some (r, w')) \<Longrightarrow>
      we_post we addr (we_to_text we (rpc_request_json n method params)) w = (Some (we_to_text we (rpc_reply_json n r)), w')"
begin

lemma request_result:
  assumes "rpc_dispatch rn (rpc_method req) (case params of None \<Rightarrow> [] | Some p \<Rightarrow> [p]) w = Some (Some (Inr v, w'))"
  shows "make_rpc_request we req addr n params w = (Some (Inr v), w')"
  using answered [OF assms] text_read by (simp add: make_rpc_request_def rpc_reply_json_def json_field_def)

lemma request_error:
  assumes "rpc_dispatch rn (rpc_method req) (case params of None \<Rightarrow> [] | Some p \<Rightarrow> [p]) w = Some (Some (Inl e, w'))"
  shows "make_rpc_request we req addr n params w = (Some (Inl (RpcErrorResponse (error_json e))), w')"
  using answered [OF assms] text_read by (cases e) (simp_all add: make_rpc_request_def rpc_reply_json_def json_field_def)

end

lemma json_bytes_json [simp]: "bytes_json bs = JArray (map (\<lambda>b. JNumber (uint b)) bs)" "json_bytes (map (\<lambda>b. JNumber (uint b)) bs) = Some bs"
proof -
  show "json_bytes (map (\<lambda>b. JNumber (uint b)) bs) = Some bs"
  proof (induction bs)
    case (Cons b bs)
    have "uint b < 256" using uint_bounded [of b] by simp
    then show ?case using Cons by simp
  qed simp
qed (simp add: bytes_json_def)

text \<open>What the wallet's requests bring when a node serves them.\<close>

lemma served_last_id:
  assumes "rpc_service rn we (qc_rpc_addr config)" "base58_law (rn_b58 rn)" "we_b58 we = rn_b58 rn" "tp_last_id st = Some h"
  shows "qtc_get_last_id we config (st, f, out) = (Some (Inr h), st, f, out)"
proof -
  have "rpc_dispatch rn (rpc_method RGetLastId) [] (st, f, out) =
      Some (Some (Inr (JString (b58_encode (rn_b58 rn) (hash_as_ref h))), st, f, out))"
    using assms(4) by (simp add: rpc_dispatch_def jr_get_last_id_def)
  then have "make_rpc_request we RGetLastId (qc_rpc_addr config) 1 None (st, f, out) =
      (Some (Inr (JString (b58_encode (rn_b58 rn) (hash_as_ref h)))), st, f, out)"
    by (intro rpc_service.request_result [OF assms(1)]) simp
  then show ?thesis using assms(2,3)
    by (simp add: qtc_get_last_id_def as_str_def base58_law_def or_panic_def Hash_new_as_ref)
qed

lemma served_balance:
  assumes "rpc_service rn we (qc_rpc_addr config)" "base58_law (rn_b58 rn)" "we_b58 we = rn_b58 rn"
  shows "get_balance_value we config key (st, f, out) = (Some (Inr (Some (get_balance (rn_px rn) key st))), st, f, out)"
proof -
  have "rpc_dispatch rn (rpc_method RGetBalance) [JString (Pubkey_fmt (rn_b58 rn) key)] (st, f, out) =
      Some (Some (Inr (JNumber (sint (get_balance (rn_px rn) key st))), st, f, out))"
    using assms(2)
    by (simp add: rpc_dispatch_def rpc_get_balance_def rpc_pubkey_def Pubkey_fmt_def base58_law_def length_as_ref Pubkey_new_as_ref jr_get_balance_def)
  then have "make_rpc_request we RGetBalance (qc_rpc_addr config) 1 (Some (JString (Pubkey_fmt (rn_b58 rn) key))) (st, f, out) =
      (Some (Inr (JNumber (sint (get_balance (rn_px rn) key st)))), st, f, out)"
    by (intro rpc_service.request_result [OF assms(1)]) simp
  moreover have "- (2 ^ 63) \<le> sint (get_balance (rn_px rn) key st)" "sint (get_balance (rn_px rn) key st) < 2 ^ 63"
    using sint_range_size [of "get_balance (rn_px rn) key st"] by (simp_all add: word_size)
  ultimately show ?thesis using assms(3) by (simp add: get_balance_value_def as_i64_def give_def)
qed

lemma served_transaction:
  assumes "rpc_service rn we (qc_rpc_addr config)" "we_b58 we = rn_b58 rn" "we_txc we = rn_txc rn"
    and "dec (rn_txc rn) (enc (rn_txc rn) tx) = Some tx" "rn_sent rn (enc (rn_txc rn) tx, rn_transactions_addr rn)"
  shows "serialize_and_send_tx we config tx (st, f, out) =
    (Some (Inr (Signature_fmt (rn_b58 rn) (tx_signature tx))), st, f, out @ [(enc (rn_txc rn) tx, rn_transactions_addr rn)])"
proof -
  have "rpc_dispatch rn (rpc_method RSendTransaction) [bytes_json (enc (rn_txc rn) tx)] (st, f, out) =
      Some (Some (Inr (JString (Signature_fmt (rn_b58 rn) (tx_signature tx))), st, f, out @ [(enc (rn_txc rn) tx, rn_transactions_addr rn)]))"
    using assms(4,5) by (simp add: rpc_dispatch_def rpc_send_transaction_def Signature_fmt_def)
  then have "make_rpc_request we RSendTransaction (qc_rpc_addr config) 2 (Some (bytes_json (enc (rn_txc rn) tx))) (st, f, out) =
      (Some (Inr (JString (Signature_fmt (rn_b58 rn) (tx_signature tx)))), st, f, out @ [(enc (rn_txc rn) tx, rn_transactions_addr rn)])"
    by (intro rpc_service.request_result [OF assms(1)]) simp
  then show ?thesis using assms(3) by (simp add: serialize_and_send_tx_def as_str_def give_def)
qed

lemma served_confirm:
  assumes "rpc_service rn we (qc_rpc_addr config)" "base58_law (rn_b58 rn)" "we_b58 we = rn_b58 rn"
    and "get_signature_status (rn_order rn) s st = Inr ()"
  shows "run_confirm we config s (st, f, out) = (Some (Inr (OutText ''Confirmed'')), st, f, out)"
proof -
  have "rpc_dispatch rn (rpc_method RConfirmTransaction) [JString (Signature_fmt (rn_b58 rn) s)] (st, f, out) =
      Some (Some (Inr (JBool True), st, f, out))"
    using assms(2,4)
    by (simp add: rpc_dispatch_def rpc_confirm_transaction_def rpc_get_signature_status_def rpc_signature_def Signature_fmt_def
        base58_law_def length_as_ref Signature_new_as_ref jr_get_signature_status_def)
  then have "make_rpc_request we RConfirmTransaction (qc_rpc_addr config) 1 (Some (JString (Signature_fmt (rn_b58 rn) s))) (st, f, out) =
      (Some (Inr (JBool True)), st, f, out)"
    by (intro rpc_service.request_result [OF assms(1)]) simp
  then show ?thesis using assms(3) by (simp add: run_confirm_def as_bool_def give_def)
qed

section \<open>Running a payment\<close>

text \<open>A transaction on two accounts that succeeds, and all it changes.\<close>

lemma process_single:
  assumes "tx_keys tx = [k, k']" "tp_accounts st k = Some a" "sint (tx_fee tx) \<le> sint (tokens a)"
    and "last_ids_sigs st (tx_last_id tx) = Some (sigs, ts)" "sigs (tx_signature tx) = None"
    and exe: "execute_transaction px tx [a\<lparr>tokens := tokens a - tx_fee tx\<rparr>, entry_or_default (tp_accounts st) k'] (loaded_contracts st) =
      Some ([a', b'], loaded_contracts st, Inr ())"
  shows "process_transaction px tx st = Some (st\<lparr>last_ids_sigs := (last_ids_sigs st)(tx_last_id tx \<mapsto> (sigs(tx_signature tx \<mapsto> Inr ()), ts)),
    tp_accounts := store_account (k', b') (store_account (k, a') (tp_accounts st)),
    tp_transaction_count := tp_transaction_count st + 1\<rparr>, Inr ())"
proof -
  let ?st = "st\<lparr>last_ids_sigs := (last_ids_sigs st)(tx_last_id tx \<mapsto> (sigs(tx_signature tx \<mapsto> Inr ()), ts))\<rparr>"
  have "load_account tx (tp_accounts st) st =
      Some (?st, Inr [a\<lparr>tokens := tokens a - tx_fee tx\<rparr>, entry_or_default (tp_accounts st) k'])"
    using assms(1-5)
    by (simp add: load_account_def get_at_def reserve_signature_with_last_id_def reserve_signature_def modify_at_def entry_or_default_def)
  then show ?thesis
    using exe assms(1)
    by (simp add: process_transaction_def process_transactions_def store_accounts_def store_one_cases get_at_def
        update_transaction_statuses_def update_signature_status_with_last_id_def update_signature_status_def)
qed

lemma execute_create:
  assumes "tx_program_id tx = SystemProgram_id" "dec (tc_system (ee_tx (px_entry px))) (tx_userdata tx) = Some (CreateAccount t space pid)"
    and "program_id a = SystemProgram_id" "program_id b = SystemProgram_id" "0 < space \<Longrightarrow> userdata b = []" "zeroed_vec space = Some u"
    and "0 \<le> sint (tokens a - t)" "0 \<le> sint (tokens b + t)" "sint (tokens b) \<le> sint (tokens b + t)"
  shows "execute_transaction px tx [a, b] c =
    Some ([a\<lparr>tokens := tokens a - t\<rparr>, \<lparr>tokens = tokens b + t, userdata = u, program_id = pid\<rparr>], c, Inr ())"
proof -
  have "run_program px tx [a, b] c =
      Some ([a\<lparr>tokens := tokens a - t\<rparr>, \<lparr>tokens = tokens b + t, userdata = u, program_id = pid\<rparr>], c, Inr ())"
    using assms(1-6)
    by (simp add: run_program_def SystemProgram_check_id_iff SystemProgram_process_transaction_def transfer_tokens_def modify_at_def get_at_def)
  then show ?thesis
    using assms(1,3,4,7-9)
    by (simp add: execute_transaction_def check_accounts_def verify_transaction_def SystemProgram_check_id_iff)
qed

lemma find_signature_only:
  assumes "\<And>h' sigs ts. last_ids_sigs st h' = Some (sigs, ts) \<Longrightarrow> sigs s = None \<or> sigs s = Some r"
    and "h \<in> set order" "last_ids_sigs st h = Some (sigs, ts)" "sigs s = Some r"
  shows "find_signature order s st = Some r"
  using assms(2)
proof (induction order)
  case (Cons h' order)
  show ?case
  proof (cases "last_ids_sigs st h'")
    case None
    then show ?thesis using Cons assms(3) by auto
  next
    case (Some p)
    then obtain sigs' ts' where p: "last_ids_sigs st h' = Some (sigs', ts')" by (cases p) auto
    then show ?thesis using Cons assms(1) [OF p] assms(3,4) by (auto split: option.split)
  qed
qed simp

lemma sint_add_small:
  assumes "0 \<le> sint (a :: i64)" "0 \<le> sint b" "sint a + sint b < 2 ^ 63"
  shows "sint (a + b) = sint a + sint b"
  using assms by (simp add: sint_word_ariths signed_take_bit_int_eq_self)

lemma created_transaction:
  assumes "ed25519_contract ring" "keypair_pubkey ring kp = Some k" "system_create ring tc kp to_key h n space pid fee = Some tx"
  shows "tx_keys tx = [k, to_key] \<and> tx_userdata tx = enc (tc_system tc) (CreateAccount n space pid) \<and> tx_program_id tx = SystemProgram_id \<and>
    tx_last_id tx = h \<and> tx_fee tx = fee \<and> verify_signature ring tc tx = Some True"
  by (rule Transaction_new_signed [OF assms(1), of tc kp "[to_key]" SystemProgram_id "enc (tc_system tc) (CreateAccount n space pid)" h fee])
    (use assms(2,3) in \<open>simp add: system_create_def\<close>)

text \<open>C15: a payment made with the wallet arrives.  The wallet asks a node for the last entry id, signs a
  transfer under it and sends it through the node, which puts exactly that transaction on the wire to the
  leader and returns its signature.  When the transaction is processed it succeeds, the tokens have moved
  from the wallet's account to the recipient's and no other account has changed; the wallet then reads the
  payment as confirmed, and its new balance.\<close>

theorem wallet_payment_arrives:
  assumes "rpc_service rn we (qc_rpc_addr config)" "base58_law (rn_b58 rn)" "we_b58 we = rn_b58 rn" "we_txc we = rn_txc rn"
    and "we_tx we = ee_tx (px_entry (rn_px rn))" "ed25519_contract (we_ring we)"
    and "bincode_codec (tc_system (we_tx we))" "length (enc (tc_system (we_tx we)) (CreateAccount n 0 Pubkey_default)) < 2 ^ 63"
    and "qc_command config = PayTo n to_key None date_key None cancelable"
    and "tp_last_id st = Some h" "last_ids_sigs st h = Some (sigs, ts)" "h \<in> set (rn_order rn)"
    and "system_new (we_ring we) (we_tx we) (qc_id config) to_key n h = Some tx"
    and "bincode_codec (rn_txc rn)" "length (enc (rn_txc rn) tx) < 2 ^ 63" "rn_sent rn (enc (rn_txc rn) tx, rn_transactions_addr rn)"
    and "\<forall>h' sigs' ts'. last_ids_sigs st h' = Some (sigs', ts') \<longrightarrow> sigs' (tx_signature tx) = None"
    and "keypair_pubkey (we_ring we) (qc_id config) = Some k" "k \<noteq> to_key" "tp_accounts st k = Some a"
    and "program_id a = SystemProgram_id" "program_id (entry_or_default (tp_accounts st) to_key) = SystemProgram_id"
    and "0 \<le> sint n" "sint n < sint (tokens a)" "0 \<le> sint (tok (tp_accounts st) to_key)" "sint (tok (tp_accounts st) to_key) + sint n < 2 ^ 63"
  shows "process_command we funds state config (st, f, out) =
      (Some (Inr (OutText (Signature_fmt (we_b58 we) (tx_signature tx)))), st, f, out @ [(enc (rn_txc rn) tx, rn_transactions_addr rn)]) \<and>
    dec (rn_txc rn) (enc (rn_txc rn) tx) = Some tx \<and> verify_signature (we_ring we) (we_tx we) tx = Some True \<and>
    (\<exists>st'. process_transaction (rn_px rn) tx st = Some (st', Inr ()) \<and>
      tok (tp_accounts st') = (tok (tp_accounts st))(k := tokens a - n, to_key := tok (tp_accounts st) to_key + n) \<and>
      process_command we funds state (config\<lparr>qc_command := Confirm (tx_signature tx)\<rparr>) (st', f, out) =
        (Some (Inr (OutText ''Confirmed'')), st', f, out) \<and>
      process_command we funds state (config\<lparr>qc_command := Balance\<rparr>) (st', f, out) =
        (Some (Inr (OutText (''Your balance is: '' @ show_int (sint (tokens a) - sint n)))), st', f, out))"
proof -
  let ?m = "tp_accounts st" and ?b = "entry_or_default (tp_accounts st) to_key"
  have codec: "dec (rn_txc rn) (enc (rn_txc rn) tx) = Some tx" by (rule bincode_codec.dec_enc [OF assms(14,15)])
  have pay: "process_command we funds state config (st, f, out) =
      (Some (Inr (OutText (Signature_fmt (we_b58 we) (tx_signature tx)))), st, f, out @ [(enc (rn_txc rn) tx, rn_transactions_addr rn)])"
    using served_last_id [OF assms(1-3,10)] served_transaction [OF assms(1,3,4) codec assms(16)] assms(3,9,13)
    by (simp add: process_command_def run_pay_def give_def)
  have tx: "tx_keys tx = [k, to_key]" "tx_userdata tx = enc (tc_system (we_tx we)) (CreateAccount n 0 Pubkey_default)" "tx_program_id tx = SystemProgram_id"
    "tx_last_id tx = h" "tx_fee tx = 0" "verify_signature (we_ring we) (we_tx we) tx = Some True"
    using created_transaction [OF assms(6,18) assms(13) [unfolded system_new_def]] by simp_all
  have left: "sint (tokens a - n) = sint (tokens a) - sint n" using sint_diff_nonneg [of n "tokens a"] assms(23,24) by simp
  have got: "sint (tokens ?b + n) = sint (tokens ?b) + sint n" "0 \<le> sint (tokens ?b)"
    using sint_add_small [of "tokens ?b" n] assms(23,25,26) by (simp_all add: tok_def)
  have exe: "execute_transaction (rn_px rn) tx [a\<lparr>tokens := tokens a - tx_fee tx\<rparr>, ?b] (loaded_contracts st) =
      Some ([a\<lparr>tokens := tokens a - n\<rparr>, \<lparr>tokens = tokens ?b + n, userdata = [], program_id = Pubkey_default\<rparr>], loaded_contracts st, Inr ())"
    using execute_create [of tx "rn_px rn" n 0 Pubkey_default a ?b "[]"] tx(2,3,5) left got assms(5,21-24)
      bincode_codec.dec_enc [OF assms(7,8)]
    by (simp add: zeroed_vec_def)
  let ?st = "st\<lparr>last_ids_sigs := (last_ids_sigs st)(h \<mapsto> (sigs(tx_signature tx \<mapsto> Inr ()), ts)),
    tp_accounts := store_account (to_key, \<lparr>tokens = tokens ?b + n, userdata = [], program_id = Pubkey_default\<rparr>)
      (store_account (k, a\<lparr>tokens := tokens a - n\<rparr>) ?m),
    tp_transaction_count := tp_transaction_count st + 1\<rparr>"
  have run: "process_transaction (rn_px rn) tx st = Some (?st, Inr ())"
    using process_single [OF tx(1) assms(20) _ _ _ exe] assms(11,17,23,24) tx(4,5) by simp
  have toks: "tok (tp_accounts ?st) = (tok ?m)(k := tokens a - n, to_key := tok ?m to_key + n)"
    by (simp add: tok_store_account) (simp add: tok_def)
  have "find_signature (rn_order rn) (tx_signature tx) ?st = Some (Inr ())"
    by (rule find_signature_only [OF _ assms(12), of _ _ _ "sigs(tx_signature tx \<mapsto> Inr ())" ts]) (use assms(17) in \<open>auto split: if_splits\<close>)
  then have "get_signature_status (rn_order rn) (tx_signature tx) ?st = Inr ()" by (simp add: get_signature_status_def)
  from served_confirm [OF assms(1-3) this]
  have confirm: "run_confirm we config (tx_signature tx) (?st, f, out) = (Some (Inr (OutText ''Confirmed'')), ?st, f, out)" .
  have "sint (tokens a - n) \<noteq> 0" using left assms(24) by simp
  then have "tokens a - n \<noteq> 0" by auto
  then have "tp_accounts ?st k = Some (a\<lparr>tokens := tokens a - n\<rparr>)" using assms(19) by (simp add: store_account_def)
  then have "get_balance (rn_px rn) k ?st = tokens a - n"
    using assms(21) by (simp add: get_balance_def get_account_def read_balance_def SystemProgram_check_id_iff SystemProgram_get_balance_def)
  then have balance: "run_balance we config (?st, f, out) =
      (Some (Inr (OutText (''Your balance is: '' @ show_int (sint (tokens a) - sint n)))), ?st, f, out)"
    using served_balance [OF assms(1-3), of k] assms(18) left \<open>tokens a - n \<noteq> 0\<close> by (simp add: run_balance_def give_def)
  have "run_confirm we (config\<lparr>qc_command := c\<rparr>) = run_confirm we config" "run_balance we (config\<lparr>qc_command := c\<rparr>) = run_balance we config" for c
    by (simp_all add: fun_eq_iff run_confirm_def run_balance_def get_balance_value_def)
  then show ?thesis using pay codec tx(6) run toks confirm balance by (simp add: process_command_def)
qed

text \<open>A server in the same process: the request is taken apart and answered at once.\<close>

definition loopback_post ::
    "('lib, 'f) rpc_node \<Rightarrow> string \<Rightarrow> json \<Rightarrow> ('lib, 'f) rpc_world \<Rightarrow> json option \<times> ('lib, 'f) rpc_world" where
  "loopback_post rn addr v w =
     (case (json_field ''method'' v, json_field ''id'' v) of
        (JString method, JNumber n) \<Rightarrow>
          (case rpc_dispatch rn method (case json_field ''params'' v of JArray ps \<Rightarrow> ps | _ \<Rightarrow> []) w of
             Some (Some (r, w')) \<Rightarrow> (Some (rpc_reply_json (of_int n) r), w')
           | _ \<Rightarrow> (None, w))
      | _ \<Rightarrow> (None, w))"

definition loopback_env :: "'kp ed25519 \<Rightarrow> ('lib, 'f) rpc_node \<Rightarrow> (json, 'kp, ('lib, 'f) rpc_world) wallet_env" where
  "loopback_env ring rn = \<lparr>we_ring = ring, we_tx = ee_tx (px_entry (rn_px rn)), we_txc = rn_txc rn, we_b58 = rn_b58 rn,
     we_to_text = (\<lambda>v. v), we_of_text = Some, we_post = loopback_post rn, we_dc = rn_dc rn, we_sc = rn_sc rn,
     we_faucet = (\<lambda>addr bytes (st, f, out). case rn_exchange rn bytes f of (r, f) \<Rightarrow> (r, st, f, out))\<rparr>"

interpretation loopback: rpc_service rn "loopback_env ring rn" addr for ring rn addr
proof
  fix meth params w r w' n
  assume "rpc_dispatch rn meth (case params of None \<Rightarrow> [] | Some p \<Rightarrow> [p]) w = Some (Some (r, w'))"
  then show "we_post (loopback_env ring rn) addr (we_to_text (loopback_env ring rn) (rpc_request_json n meth params)) w =
      (Some (we_to_text (loopback_env ring rn) (rpc_reply_json n r)), w')"
    by (cases params) (simp_all add: loopback_env_def loopback_post_def rpc_request_json_def json_field_def)
qed (simp add: loopback_env_def)

definition sample_base58 :: base58 where
  "sample_base58 = \<lparr>b58_encode = map (\<lambda>b. char_of (unat b)), b58_decode = (\<lambda>cs. Some (map (\<lambda>c. of_nat (of_char c)) cs))\<rparr>"

lemma sample_base58_law: "base58_law sample_base58"
proof -
  have "unat (b :: u8) < 2 ^ LENGTH(8)" for b by (rule unsigned_less)
  then have "unat (b :: u8) mod 256 = unat b" for b by simp
  then show ?thesis by (simp add: base58_law_def sample_base58_def comp_def)
qed

definition sample_rpc_node :: "(unit, unit) rpc_node" where
  "sample_rpc_node = \<lparr>rn_px = sample_px, rn_b58 = sample_base58, rn_txc = codec_of transaction_wire, rn_order = [Hash 0],
     rn_sent = (\<lambda>_. True), rn_transactions_addr = SockV4 127 0 0 1 8003, rn_dc = codec_of drone_request_wire,
     rn_sc = codec_of signature_wire, rn_exchange = (\<lambda>bytes f. (None, f)), rn_polls = []\<rparr>"

definition sample_config :: "qtc_command \<Rightarrow> u8 qtc_config" where
  "sample_config c = \<lparr>qc_leader = sample_leader_info, qc_id = 7, qc_faucet_addr = SockV4 127 0 0 1 9900, qc_rpc_addr = ''http://127.0.0.1:8899'',
     qc_command = c\<rparr>"

lemma sample_keys_differ:
  assumes "keypair_pubkey sample_ring i = Some k" "keypair_pubkey sample_ring j = Some k'" "i \<noteq> j"
  shows "k \<noteq> k'"
proof -
  have "pubkey_as_ref k = replicate 32 i" "pubkey_as_ref k' = replicate 32 j"
    using assms(1,2) keypair_pubkey_bytes [OF sample_ring_contract, of i] keypair_pubkey_bytes [OF sample_ring_contract, of j]
    by (auto simp: sample_ring_def)
  then show ?thesis using assms(3) by auto
qed

lemma sample_system_codec:
  "bincode_codec (tc_system bincode_tx_ext)" "length (enc (tc_system bincode_tx_ext) (CreateAccount n space pid)) = 52"
  using codec_of_bincode [OF system_program_wire_format]
  by (simp_all add: bincode_tx_ext_def system_program_wire_def tagged_def pair_wire_def pubkey_wire_def iso_wire_def)

text \<open>The wallet of key 7 pays 4 of its 10 tokens to key 8.\<close>

abbreviation sample_wallet_tp :: "pubkey \<Rightarrow> unit tp" where
  "sample_wallet_tp k \<equiv> sample_tp\<lparr>tp_accounts := [k \<mapsto> plain_account 10 (Pubkey 0)]\<rparr>"

theorem wallet_payment_witness:
  "\<exists>k to_key tx st'. process_command (loopback_env sample_ring sample_rpc_node) 1 2 (sample_config (PayTo 4 to_key None None None None))
      (sample_wallet_tp k, (), []) =
      (Some (Inr (OutText (Signature_fmt sample_base58 (tx_signature tx)))), sample_wallet_tp k, (),
        [(put transaction_wire tx, SockV4 127 0 0 1 8003)]) \<and>
    process_transaction sample_px tx (sample_wallet_tp k) = Some (st', Inr ()) \<and> tok (tp_accounts st') to_key = 4 \<and>
    process_command (loopback_env sample_ring sample_rpc_node) 1 2 (sample_config (Confirm (tx_signature tx))) (st', (), []) =
      (Some (Inr (OutText ''Confirmed'')), st', (), [])"
proof -
  obtain k to_key where k: "keypair_pubkey sample_ring 7 = Some k" and to_key: "keypair_pubkey sample_ring 8 = Some to_key"
    using keypair_pubkey_bytes [OF sample_ring_contract] by meson
  have differ: "k \<noteq> to_key" by (rule sample_keys_differ [OF k to_key]) simp
  let ?we = "loopback_env sample_ring sample_rpc_node" and ?c = "sample_config (PayTo 4 to_key None None None None)"
    and ?st = "sample_wallet_tp k"
  have env: "we_b58 ?we = rn_b58 sample_rpc_node" "we_txc ?we = rn_txc sample_rpc_node" "we_tx ?we = bincode_tx_ext" "we_ring ?we = sample_ring"
    "ee_tx (px_entry (rn_px sample_rpc_node)) = bincode_tx_ext" "rn_b58 sample_rpc_node = sample_base58" "rn_txc sample_rpc_node = codec_of transaction_wire"
    "rn_px sample_rpc_node = sample_px" "rn_transactions_addr sample_rpc_node = SockV4 127 0 0 1 8003" "rn_order sample_rpc_node = [Hash 0]"
    by (simp_all add: loopback_env_def sample_rpc_node_def sample_px_def)
  have id: "qc_id ?c = 7" by (simp add: sample_config_def)
  obtain tx where tx: "system_new sample_ring bincode_tx_ext 7 to_key 4 (Hash 0) = Some tx"
    using Transaction_new_signed [OF sample_ring_contract] unfolding system_new_def system_create_def by blast
  have fields: "tx_keys tx = [k, to_key]" "tx_userdata tx = enc (tc_system bincode_tx_ext) (CreateAccount 4 0 Pubkey_default)"
    using created_transaction [OF sample_ring_contract k tx [unfolded system_new_def]] by simp_all
  then have "length (enc (codec_of transaction_wire) tx) < 2 ^ 63"
    using sample_system_codec(2) [of 4 0 Pubkey_default]
    by (simp add: transaction_wire_def pair_wire_def pubkey_wire_def hash_wire_def signature_wire_def iso_wire_def list_wire_def bytes_wire_def
        length_concat comp_def sum_list_triv)
  note short = this
  have sample: "tp_last_id ?st = Some (Hash 0)" "last_ids_sigs ?st (Hash 0) = Some (Map.empty, 0)" "Hash 0 \<in> set (rn_order sample_rpc_node)"
    "\<forall>h' sigs' ts'. last_ids_sigs ?st h' = Some (sigs', ts') \<longrightarrow> sigs' (tx_signature tx) = None"
    "tp_accounts ?st k = Some (plain_account 10 (Pubkey 0))" "rn_sent sample_rpc_node d"
    "program_id (entry_or_default (tp_accounts ?st) to_key) = SystemProgram_id" "tok (tp_accounts ?st) to_key = 0" for d
    using differ env by (auto simp: sample_tp_def tp_last_id_def entry_or_default_def tok_def sample_rpc_node_def tp_default_def)
  have "process_command ?we 1 2 ?c (?st, (), []) =
      (Some (Inr (OutText (Signature_fmt (we_b58 ?we) (tx_signature tx)))), ?st, (), [] @ [(enc (rn_txc sample_rpc_node) tx, rn_transactions_addr sample_rpc_node)]) \<and>
    dec (rn_txc sample_rpc_node) (enc (rn_txc sample_rpc_node) tx) = Some tx \<and> verify_signature (we_ring ?we) (we_tx ?we) tx = Some True \<and>
    (\<exists>st'. process_transaction (rn_px sample_rpc_node) tx ?st = Some (st', Inr ()) \<and>
      tok (tp_accounts st') = (tok (tp_accounts ?st))(k := tokens (plain_account 10 (Pubkey 0)) - 4, to_key := tok (tp_accounts ?st) to_key + 4) \<and>
      process_command ?we 1 2 (?c\<lparr>qc_command := Confirm (tx_signature tx)\<rparr>) (st', (), []) = (Some (Inr (OutText ''Confirmed'')), st', (), []) \<and>
      process_command ?we 1 2 (?c\<lparr>qc_command := Balance\<rparr>) (st', (), []) =
        (Some (Inr (OutText (''Your balance is: '' @ show_int (sint (tokens (plain_account 10 (Pubkey 0))) - sint (4 :: i64))))), st', (), []))"
    by (rule wallet_payment_arrives [OF loopback.rpc_service_axioms])
      (use env id sample sample_base58_law sample_ring_contract sample_system_codec tx k differ short
        codec_of_bincode [OF transaction_wire_format] in \<open>auto simp: sample_config_def\<close>)
  then show ?thesis using env sample(8) by (intro exI [of _ k] exI [of _ to_key] exI [of _ tx]) (auto simp: sample_config_def)
qed

section \<open>Reading what is shown\<close>

lemma digit_of_char: "d < 10 \<Longrightarrow> digit_of (char_of (48 + d)) = Some d"
  by (simp add: digit_of_def)

lemma parse_digits_append: "parse_digits acc (cs @ ds) = (parse_digits acc cs \<bind> (\<lambda>n. parse_digits n ds))"
  by (induction cs arbitrary: acc) (auto simp: bind_assoc split: option.split)

lemma parse_digits_show: "parse_digits 0 (show_nat n) = Some n"
proof (induction n rule: show_nat.induct)
  case (1 n)
  show ?case
  proof (cases "n < 10")
    case True
    then show ?thesis by (subst show_nat.simps) (simp add: digit_of_char)
  next
    case False
    then have "parse_digits 0 (show_nat (n div 10)) = Some (n div 10)" by (rule 1)
    then have "parse_digits 0 (show_nat (n div 10) @ [char_of (48 + n mod 10)]) = Some (10 * (n div 10) + n mod 10)"
      by (simp add: parse_digits_append digit_of_char)
    then show ?thesis using False by (subst show_nat.simps) simp
  qed
qed

lemma show_nat_head: "\<exists>d ds. show_nat n = char_of (48 + d) # ds \<and> d < (10 :: nat)"
proof (induction n rule: show_nat.induct)
  case (1 n)
  show ?case
  proof (cases "n < 10")
    case True
    then have "show_nat n = [char_of (48 + n)]" by (subst show_nat.simps) simp
    then show ?thesis using True by blast
  next
    case False
    then obtain d ds where "show_nat (n div 10) = char_of (48 + d) # ds" "d < (10 :: nat)" using 1 by blast
    then have "show_nat n = char_of (48 + d) # ds @ [char_of (48 + n mod 10)]" using False by (subst show_nat.simps) simp
    then show ?thesis using \<open>d < 10\<close> by blast
  qed
qed

lemma parse_int_show: "parse_int (show_int n) = Some n"
proof -
  obtain d ds where s: "show_nat (nat n) = char_of (48 + d) # ds" "d < (10 :: nat)" using show_nat_head by blast
  have "(of_char (char_of (48 + d)) :: nat) \<noteq> of_char (CHR ''-'')" "(of_char (char_of (48 + d)) :: nat) \<noteq> of_char (CHR ''+'')"
    using s(2) by auto
  then have "char_of (48 + d) \<noteq> CHR ''-''" "char_of (48 + d) \<noteq> CHR ''+''" by metis+
  moreover obtain e es where t: "show_nat (nat (- n)) = e # es" using show_nat_head by blast
  ultimately show ?thesis
    using parse_digits_show [of "nat n"] parse_digits_show [of "nat (- n)"] s(1)
    by (simp add: parse_int_def show_int_def)
qed

lemma parse_i64_show: "parse_i64 (show_int (sint n)) = Some n"
  using sint_range_size [of n] by (simp add: parse_i64_def parse_int_show word_size)

lemma key_argument_fmt:
  "base58_law b58 \<Longrightarrow> args name = Some [Pubkey_fmt b58 key] \<Longrightarrow> key_argument b58 name message args = Some (Inr key)"
  by (simp add: key_argument_def value_of_def decode_key_def base58_law_def Pubkey_fmt_def Pubkey_new_as_ref)

text \<open>C30: the wallet's command line is read as it is meant.  An amount and keys, written the way the wallet
  itself shows them, are parsed to the payment with exactly that amount, recipient, conditions and witnesses,
  and a payment is cancelable by who makes it and nobody else.\<close>

theorem pay_command_parsed:
  assumes "base58_law b58"
    and "args ''tokens'' = Some [show_int (sint n)]" "args ''to'' = Some [Pubkey_fmt b58 to_key]"
    and "args ''timestamp'' = None" "args ''timestamp-pubkey'' = None"
    and "args ''witness'' = map_option (map (Pubkey_fmt b58)) witnesses"
    and "args ''cancelable'' = (if cancelable then Some [] else None)"
  shows "parse_command b58 parse_date now key (Some (''pay'', args)) =
    Some (Inr (PayTo n to_key None None witnesses (if cancelable then Some key else None)))"
proof -
  have "witness_arguments b58 (map (Pubkey_fmt b58) ks) = Some (Inr ks)" for ks
    using assms(1) by (induction ks) (simp_all add: decode_key_def base58_law_def Pubkey_fmt_def Pubkey_new_as_ref)
  then have w: "(case args ''witness'' of
        Some vs \<Rightarrow> map_option (map_sum (\<lambda>e. e) Some) (witness_arguments b58 vs) | None \<Rightarrow> Some (Inr None)) = Some (Inr witnesses)"
    using assms(6) by (cases witnesses) simp_all
  show ?thesis
    using assms(2-5,7) key_argument_fmt [of b58 args "''to''" to_key, OF assms(1,3)]
    by (simp add: parse_command_def parse_pay_def value_of_def is_present_def and_then_def parse_i64_show w)
qed

theorem pay_command_witness:
  "parse_command sample_base58 (\<lambda>_. None) 0 (Pubkey 1)
      (Some (''pay'', [''tokens'' \<mapsto> [show_int (sint (5 :: i64))], ''to'' \<mapsto> [Pubkey_fmt sample_base58 (Pubkey 2)],
        ''witness'' \<mapsto> [Pubkey_fmt sample_base58 (Pubkey 3)], ''cancelable'' \<mapsto> []])) =
    Some (Inr (PayTo 5 (Pubkey 2) None None (Some [Pubkey 3]) (Some (Pubkey 1))))"
  using pay_command_parsed [OF sample_base58_law, of "[''tokens'' \<mapsto> [show_int (sint (5 :: i64))], ''to'' \<mapsto> [Pubkey_fmt sample_base58 (Pubkey 2)],
        ''witness'' \<mapsto> [Pubkey_fmt sample_base58 (Pubkey 3)], ''cancelable'' \<mapsto> []]" 5 "Pubkey 2" "Some [Pubkey 3]" True]
  by simp

end
