(* ===== verification/Entry_Writer.thy ===== *)
theory Entry_Writer
  imports Requests
begin

text \<open>
  Writing entries to a stream and reading them back (src/entry_writer.rs).

  An output is the bytes written to it and the room that is left, if it is bounded; an input is the bytes
  that are still to come.  The reader keeps one buffer for all entries: it only ever grows, and an entry is
  decoded from the whole of it.
\<close>

section \<open>Writing\<close>

datatype io_error = SerializeError | WriteError | UnexpectedEof | DeserializeFailed

record out_stream =
  written :: bytes
  room :: "nat option"

definition write_all :: "bytes \<Rightarrow> out_stream \<Rightarrow> (io_error + unit) \<times> out_stream" where
  "write_all bs w =
     (case room w of
        None \<Rightarrow> (Inr (), w\<lparr>written := written w @ bs\<rparr>)
      | Some n \<Rightarrow>
          if length bs \<le> n then (Inr (), w\<lparr>written := written w @ bs, room := Some (n - length bs)\<rparr>)
          else (Inl WriteError, w\<lparr>written := written w @ take n bs, room := Some 0\<rparr>))"

definition ew_write_entry :: "u64 codec \<Rightarrow> entry codec \<Rightarrow> entry \<Rightarrow> out_stream \<Rightarrow> (io_error + unit) \<times> out_stream" where
  "ew_write_entry lc ec e w =
     (let entry_bytes = enc ec e; len_bytes = enc lc (of_nat (length entry_bytes))
      in case write_all len_bytes w of
           (Inl err, w) \<Rightarrow> (Inl err, w)
         | (Inr _, w) \<Rightarrow> write_all entry_bytes w)"

fun ew_write_entries :: "u64 codec \<Rightarrow> entry codec \<Rightarrow> entry list \<Rightarrow> out_stream \<Rightarrow> (io_error + unit) \<times> out_stream" where
  "ew_write_entries lc ec [] w = (Inr (), w)"
| "ew_write_entries lc ec (e # es) w =
     (case ew_write_entry lc ec e w of
        (Inl err, w) \<Rightarrow> (Inl err, w)
      | (Inr _, w) \<Rightarrow> ew_write_entries lc ec es w)"

text \<open>The writer of a node also registers the entries with the transaction processor, before it writes them.\<close>

record 'lib entry_writer =
  ew_tp :: "'lib tp"
  ew_writer :: out_stream

definition EntryWriter_new :: "'lib tp \<Rightarrow> out_stream \<Rightarrow> 'lib entry_writer" where
  "EntryWriter_new st w = \<lparr>ew_tp = st, ew_writer = w\<rparr>"

definition write_and_register_entry ::
    "'lib tp_ext \<Rightarrow> u64 codec \<Rightarrow> entry codec \<Rightarrow> entry \<Rightarrow> 'lib entry_writer \<Rightarrow> (io_error + unit) \<times> 'lib entry_writer" where
  "write_and_register_entry px lc ec e ew =
     (let st = register_entry_id px (entry_id e) (ew_tp ew)
      in case ew_write_entry lc ec e (ew_writer ew) of (r, w) \<Rightarrow> (r, \<lparr>ew_tp = st, ew_writer = w\<rparr>))"

fun write_and_register_entries ::
    "'lib tp_ext \<Rightarrow> u64 codec \<Rightarrow> entry codec \<Rightarrow> entry list \<Rightarrow> 'lib entry_writer \<Rightarrow> (io_error + unit) \<times> 'lib entry_writer" where
  "write_and_register_entries px lc ec [] ew = (Inr (), ew)"
| "write_and_register_entries px lc ec (e # es) ew =
     (case write_and_register_entry px lc ec e ew of
        (Inl err, ew) \<Rightarrow> (Inl err, ew)
      | (Inr _, ew) \<Rightarrow> write_and_register_entries px lc ec es ew)"

section \<open>Reading\<close>

record entry_reader =
  er_input :: bytes
  er_buffer :: bytes

definition read_entries :: "bytes \<Rightarrow> entry_reader" where
  "read_entries input = \<lparr>er_input = input, er_buffer = []\<rparr>"

text \<open>\<open>None\<close> ends the iteration.  Growing the buffer beyond \<open>isize::MAX\<close> bytes is a panic, as is a length that
  does not decode.  A read that meets the end of the input has consumed it.\<close>

definition entry_reader_next ::
    "u64 codec \<Rightarrow> entry codec \<Rightarrow> entry_reader \<Rightarrow> ((io_error + entry) option \<times> entry_reader) panics" where
  "entry_reader_next lc ec r =
     (if length (er_input r) < 8 then Some (None, r\<lparr>er_input := []\<rparr>)
      else do {
        entry_len \<leftarrow> map_option unat (dec lc (take 8 (er_input r)));
        let input = drop 8 (er_input r);
        buffer \<leftarrow> (if length (er_buffer r) < entry_len
          then if entry_len < 2 ^ 63 then Some (er_buffer r @ replicate (entry_len - length (er_buffer r)) 0) else None
          else Some (er_buffer r));
        if length input < entry_len then Some (Some (Inl UnexpectedEof), \<lparr>er_input = [], er_buffer = input @ drop (length input) buffer\<rparr>)
        else do {
          let buffer = take entry_len input @ drop entry_len buffer;
          Some (Some (case dec ec buffer of Some e \<Rightarrow> Inr e | None \<Rightarrow> Inl DeserializeFailed),
            \<lparr>er_input = drop entry_len input, er_buffer = buffer\<rparr>) } })"

lemma next_consumes:
  assumes "entry_reader_next lc ec r = Some (Some x, r')"
  shows "length (er_input r') < length (er_input r)"
proof -
  have long: "\<not> length (er_input r) < 8" using assms by (auto simp only: entry_reader_next_def if_True)
  then obtain n buffer where "dec lc (take 8 (er_input r)) = Some n" and
    r': "(if length (drop 8 (er_input r)) < unat n then Some (Some (Inl UnexpectedEof), \<lparr>er_input = [], er_buffer = drop 8 (er_input r) @ drop (length (drop 8 (er_input r))) buffer\<rparr>)
      else let buffer = take (unat n) (drop 8 (er_input r)) @ drop (unat n) buffer in
        Some (Some (case dec ec buffer of Some e \<Rightarrow> Inr e | None \<Rightarrow> Inl DeserializeFailed),
          \<lparr>er_input = drop (unat n) (drop 8 (er_input r)), er_buffer = buffer\<rparr>)) = Some (Some x, r')"
    using assms by (auto simp only: entry_reader_next_def if_False Let_def bind_eq_Some_conv map_option_eq_Some)
  then have "er_input r' = [] \<or> er_input r' = drop (unat n) (drop 8 (er_input r))"
    by (cases "length (drop 8 (er_input r)) < unat n") (auto simp only: if_True if_False Let_def entry_reader.simps option.inject prod.inject)
  then show ?thesis using long by auto
qed

text \<open>Running the iterator to its end.\<close>

function read_all :: "u64 codec \<Rightarrow> entry codec \<Rightarrow> entry_reader \<Rightarrow> (io_error + entry) list panics" where
  "read_all lc ec r =
     (case entry_reader_next lc ec r of
        None \<Rightarrow> None
      | Some (None, r') \<Rightarrow> Some []
      | Some (Some item, r') \<Rightarrow> map_option ((#) item) (read_all lc ec r'))"
  by pat_completeness auto
termination
  by (relation "measure (\<lambda>(lc, ec, r). length (er_input r))") (auto dest: next_consumes)

declare read_all.simps [simp del]

section \<open>What is written is read\<close>

definition frame_of :: "u64 codec \<Rightarrow> entry codec \<Rightarrow> entry \<Rightarrow> bytes" where
  "frame_of lc ec e = enc lc (of_nat (length (enc ec e))) @ enc ec e"

lemma write_all_written:
  "snd (write_all bs w) = \<lparr>written = written w @ (case room w of None \<Rightarrow> bs | Some n \<Rightarrow> take n bs),
     room = map_option (\<lambda>n. n - length bs) (room w)\<rparr>"
  "fst (write_all bs w) = Inr () \<longleftrightarrow> (case room w of None \<Rightarrow> True | Some n \<Rightarrow> length bs \<le> n)"
  by (simp_all add: write_all_def split: option.split)

lemma write_entry_written:
  "snd (ew_write_entry lc ec e w) = \<lparr>written = written w @ (case room w of None \<Rightarrow> frame_of lc ec e | Some n \<Rightarrow> take n (frame_of lc ec e)),
     room = map_option (\<lambda>n. n - length (frame_of lc ec e)) (room w)\<rparr>"
  "fst (ew_write_entry lc ec e w) = Inr () \<longleftrightarrow> (case room w of None \<Rightarrow> True | Some n \<Rightarrow> length (frame_of lc ec e) \<le> n)"
  by (auto simp: ew_write_entry_def write_all_def frame_of_def Let_def split: option.split)

text \<open>The output holds as much of the entries as there was room for, and writing succeeds when all fit.\<close>

lemma write_entries_written:
  "ew_write_entries lc ec es w = (r, w') \<Longrightarrow>
     written w' = written w @ (case room w of None \<Rightarrow> concat (map (frame_of lc ec) es) | Some n \<Rightarrow> take n (concat (map (frame_of lc ec) es))) \<and>
     (r = Inr () \<longleftrightarrow> (case room w of None \<Rightarrow> True | Some n \<Rightarrow> length (concat (map (frame_of lc ec) es)) \<le> n))"
proof (induction es arbitrary: w)
  case (Cons e es)
  obtain r1 w1 where w1: "ew_write_entry lc ec e w = (r1, w1)" by (cases "ew_write_entry lc ec e w")
  note step = write_entry_written [of lc ec e w, unfolded w1]
  show ?case
  proof (cases r1)
    case (Inl err)
    then obtain n where "room w = Some n" "n < length (frame_of lc ec e)" using step(2) by (auto split: option.splits)
    then show ?thesis using Cons.prems w1 Inl step(1) by (auto simp: w1)
  next
    case (Inr u)
    then have "ew_write_entries lc ec es w1 = (r, w')" using Cons.prems w1 by simp
    note ih = Cons.IH [OF this]
    show ?thesis
    proof (cases "room w")
      case None
      then have "written w1 = written w @ frame_of lc ec e" "room w1 = None" using step(1) by simp_all
      then show ?thesis using ih None by simp
    next
      case (Some n)
      then have "length (frame_of lc ec e) \<le> n" using step(2) Inr by simp
      moreover from this have "written w1 = written w @ frame_of lc ec e" "room w1 = Some (n - length (frame_of lc ec e))"
        using step(1) Some by simp_all
      ultimately show ?thesis using ih Some by auto
    qed
  qed
qed (auto split: option.split)

lemma read_all_end: "length (er_input r) < 8 \<Longrightarrow> read_all lc ec r = Some []"
  by (subst read_all.simps) (simp add: entry_reader_next_def)

lemma next_whole_entry:
  assumes "prefix_codec ec" "fixed_codec lc 8" "length (enc ec e) < 2 ^ 63"
  shows "\<exists>buf'. entry_reader_next lc ec \<lparr>er_input = frame_of lc ec e @ rest, er_buffer = buf\<rparr> =
    Some (Some (Inr e), \<lparr>er_input = rest, er_buffer = buf'\<rparr>)"
proof -
  have len: "length (enc lc n) = 8" "dec lc (enc lc n) = Some n" for n
    using fixed_codec.enc_width [OF assms(2)] fixed_codec.dec_enc_fixed [OF assms(2)] by blast+
  have n: "unat (of_nat (length (enc ec e)) :: u64) = length (enc ec e)" using assms(3) by (simp add: unat_of_nat_small)
  show ?thesis
    using len n assms(3) prefix_codec.dec_more [OF assms(1,3)] by (simp add: entry_reader_next_def frame_of_def Let_def)
qed

lemma next_cut_entry:
  assumes "fixed_codec lc 8" "length (enc ec e) < 2 ^ 63" "8 \<le> n" "n < length (frame_of lc ec e)"
  shows "\<exists>buf'. entry_reader_next lc ec \<lparr>er_input = take n (frame_of lc ec e), er_buffer = buf\<rparr> =
    Some (Some (Inl UnexpectedEof), \<lparr>er_input = [], er_buffer = buf'\<rparr>)"
proof -
  have len: "length (enc lc m) = 8" "dec lc (enc lc m) = Some m" for m
    using fixed_codec.enc_width [OF assms(1)] fixed_codec.dec_enc_fixed [OF assms(1)] by blast+
  have m: "unat (of_nat (length (enc ec e)) :: u64) = length (enc ec e)" using assms(2) by (simp add: unat_of_nat_small)
  have cut: "take n (frame_of lc ec e) = enc lc (of_nat (length (enc ec e))) @ take (n - 8) (enc ec e)"
    using assms(3) len(1) by (simp add: frame_of_def)
  have short: "length (take (n - 8) (enc ec e)) < length (enc ec e)" using assms(3,4) len(1) by (simp add: frame_of_def)
  have "take 8 (enc lc x @ y) = enc lc x" "drop 8 (enc lc x @ y) = y" for x y using len(1) by simp_all
  then show ?thesis
    unfolding cut using short assms(2)
    by (cases "length buf < length (enc ec e)")
      (simp_all add: entry_reader_next_def Let_def len m del: length_take take_append drop_append)
qed

lemma read_all_prefix:
  assumes "prefix_codec ec" "fixed_codec lc 8" "\<forall>e \<in> set es. length (enc ec e) < 2 ^ 63"
  shows "\<exists>k cut. read_all lc ec \<lparr>er_input = take n (concat (map (frame_of lc ec) es)), er_buffer = buf\<rparr> =
      Some (map Inr (take k es) @ (if cut then [Inl UnexpectedEof] else [])) \<and>
    (length (concat (map (frame_of lc ec) es)) \<le> n \<longrightarrow> length es \<le> k \<and> \<not> cut)"
  using assms(3)
proof (induction es arbitrary: n buf)
  case Nil
  show ?case by (intro exI [of _ 0] exI [of _ False]) (simp add: read_all_end)
next
  case (Cons e es)
  let ?f = "frame_of lc ec e"
  have len: "8 \<le> length ?f" using fixed_codec.enc_width [OF assms(2)] by (simp add: frame_of_def)
  have short: "length (enc ec e) < 2 ^ 63" and rest: "\<forall>e \<in> set es. length (enc ec e) < 2 ^ 63" using Cons.prems by simp_all
  consider "n < 8" | "8 \<le> n" "n < length ?f" | "length ?f \<le> n" by linarith
  then show ?case
  proof cases
    case 1
    then have "read_all lc ec \<lparr>er_input = take n (concat (map (frame_of lc ec) (e # es))), er_buffer = buf\<rparr> = Some []"
      by (intro read_all_end) simp
    then show ?thesis using 1 len by (intro exI [of _ 0] exI [of _ False]) auto
  next
    case 2
    have "take n (concat (map (frame_of lc ec) (e # es))) = take n ?f" using 2 by simp
    moreover obtain buf' where "entry_reader_next lc ec \<lparr>er_input = take n ?f, er_buffer = buf\<rparr> =
        Some (Some (Inl UnexpectedEof), \<lparr>er_input = [], er_buffer = buf'\<rparr>)"
      using next_cut_entry [OF assms(2) short 2] by blast
    ultimately have "read_all lc ec \<lparr>er_input = take n (concat (map (frame_of lc ec) (e # es))), er_buffer = buf\<rparr> = Some [Inl UnexpectedEof]"
      by (simp only: read_all.simps [of lc ec "\<lparr>er_input = take n ?f, er_buffer = buf\<rparr>"]) (simp add: read_all_end)
    then show ?thesis using 2 by (intro exI [of _ 0] exI [of _ True]) auto
  next
    case 3
    let ?rest = "take (n - length ?f) (concat (map (frame_of lc ec) es))"
    have split: "take n (concat (map (frame_of lc ec) (e # es))) = ?f @ ?rest" using 3 by simp
    obtain buf' where first: "entry_reader_next lc ec \<lparr>er_input = ?f @ ?rest, er_buffer = buf\<rparr> =
        Some (Some (Inr e), \<lparr>er_input = ?rest, er_buffer = buf'\<rparr>)"
      using next_whole_entry [OF assms(1,2) short] by blast
    obtain k cut where k: "read_all lc ec \<lparr>er_input = ?rest, er_buffer = buf'\<rparr> =
        Some (map Inr (take k es) @ (if cut then [Inl UnexpectedEof] else []))"
      "length (concat (map (frame_of lc ec) es)) \<le> n - length ?f \<longrightarrow> length es \<le> k \<and> \<not> cut"
      using Cons.IH [OF rest, of "n - length ?f" buf'] by blast
    have "read_all lc ec \<lparr>er_input = ?f @ ?rest, er_buffer = buf\<rparr> = map_option ((#) (Inr e)) (read_all lc ec \<lparr>er_input = ?rest, er_buffer = buf'\<rparr>)"
      by (subst read_all.simps) (simp only: first option.case prod.case)
    also have "\<dots> = Some (map Inr (take (Suc k) (e # es)) @ (if cut then [Inl UnexpectedEof] else []))"
      unfolding k(1) by (simp only: option.map take_Suc_Cons list.map append_Cons)
    finally have read: "read_all lc ec \<lparr>er_input = take n (concat (map (frame_of lc ec) (e # es))), er_buffer = buf\<rparr> =
      Some (map Inr (take (Suc k) (e # es)) @ (if cut then [Inl UnexpectedEof] else []))"
      unfolding split .
    have all: "length (e # es) \<le> Suc k \<and> \<not> cut" if "length (concat (map (frame_of lc ec) (e # es))) \<le> n"
    proof -
      have "concat (map (frame_of lc ec) (e # es)) = ?f @ concat (map (frame_of lc ec) es)" by simp
      then have "length ?f + length (concat (map (frame_of lc ec) es)) \<le> n" using that by (simp only: length_append)
      then have "length es \<le> k \<and> \<not> cut" using k(2) by linarith
      then show ?thesis by simp
    qed
    show ?thesis by (rule exI [of _ "Suc k"], rule exI [of _ cut], rule conjI [OF read impI [OF all]])
  qed
qed



end
