(* ===== verification/Spec2Isabelle.thy ===== *)
theory Spec2Isabelle
  imports Fullnode Sigverify Erasure Qtc Entry_Writer
begin

text \<open>
  Hypercube: a ledger of signed transactions, its payment-plan contracts, and the nodes that
  replicate it.

  \<^bold>\<open>The program.\<close>  A leader receives transactions in packets, checks their signatures, runs them over
  the accounts and records those that succeed in entries, which a chain of hashes orders.  It writes the
  entries to its ledger and broadcasts them as blobs.  A validator collects the blobs in a window, asks for
  missing ones, replays the entries in order, votes and writes its own ledger.  Nodes learn of each other
  by gossip and change roles at rotations.  Clients ask nodes over UDP or JSON-RPC; the wallet and the
  faucet are such clients.

  \<^bold>\<open>The theories\<close>, each with the files under src/src/ it models (common/ where said):

  \<^item> \<open>Prelude\<close>: words, lists with panics, slices, little-endian bytes; the lemmas all theories share.
  \<^item> \<open>Primitives\<close>: keys, hashes and signatures (common/src/pubkey.rs, hash.rs, signature.rs), accounts
    (common/src/account.rs), and the interfaces of bincode and Ed25519.  \<open>Bincode_Format\<close> is the documented
    encoding of bincode, on which those interfaces are interpreted.
  \<^item> \<open>Fin_Plan\<close> (payment_plan.rs, fin_plan.rs, fin_plan_instruction.rs): plans, and what a history of
    witnesses makes of them.  \<open>Transactions\<close> (transaction.rs, builtin_transaction.rs,
    fin_plan_transaction.rs): transactions and their constructors.
  \<^item> \<open>Fin_Plan_Program\<close> (fin_plan_program.rs) and \<open>Programs\<close> (builtin_pgm.rs, storage_program.rs,
    dynamic_program.rs): what the programs do to a transaction's accounts.
  \<^item> \<open>Packets\<close> (packet.rs) and \<open>Entries\<close> (pod.rs, entry.rs, the \<open>Block\<close> part of ledger.rs, mint.rs).
  \<^item> \<open>Transaction_Processor\<close> (transaction_processor.rs) with \<open>Processor_Safety\<close>, \<open>Processor_History\<close> and
    \<open>Replay\<close>: tokens, signatures, and two processors that agree.
  \<^item> \<open>Channels\<close> (result.rs), \<open>Network\<close> (packet.rs, recvmmsg.rs, streamer.rs) and \<open>Recording\<close>
    (pod_recorder.rs, transaction_processoring_stage.rs).
  \<^item> \<open>Blockthread\<close> (blockthread.rs): the table of nodes.  \<open>Voting\<close> (vote_stage.rs).
  \<^item> \<open>Ledger_Store\<close> (ledger.rs): the ledger on disk.  \<open>Ledger_Stages\<close> (write_stage.rs,
    replicate_stage.rs, store_ledger_stage.rs).
  \<^item> \<open>Window\<close> (window.rs), \<open>Window_Service\<close> (window_service.rs and the sending half of blockthread.rs),
    \<open>Broadcast_Stage\<close> (broadcast_stage.rs), \<open>Erasure\<close> (erasure.rs).
  \<^item> \<open>Sigverify\<close> (sigverify.rs, sigverify_stage.rs), \<open>Requests\<close> (request.rs, request_processor.rs,
    request_stage.rs, thin_client.rs), \<open>Fullnode\<close> (fullnode.rs, tx_creator.rs, tx_signer.rs,
    retransmit_stage.rs).
  \<^item> \<open>Faucet\<close> (faucet.rs, bin/drone.rs), \<open>Rpc\<close> (rpc.rs), \<open>Qtc\<close> (qtc.rs), \<open>Entry_Writer\<close> (entry_writer.rs).

  \<^bold>\<open>How code becomes definitions.\<close>  A struct is a record, an enum a datatype, and a function with effects
  returns the new state.  Integers are words of their width, whose arithmetic wraps as in a release build.
  \<open>'a panics\<close> is \<open>'a option\<close> with \<open>None\<close> for a panic, and a \<open>Result\<close> is a sum with the error on the left.
  A further option stands for waiting without end.  What the environment decides is an argument: the clock,
  random draws, the order of a hash map's iteration, whether a send succeeds, what a receive brings.
  Third-party code is a record of functions (\<open>codec\<close>, \<open>ed25519\<close>, \<open>loader\<close>, \<open>jerasure\<close>, \<open>base58\<close>, the
  exchange over HTTP in \<open>wallet_env\<close>), and what is relied on is a locale or a named hypothesis:
  \<open>bincode_codec\<close>, \<open>fixed_codec\<close>, \<open>prefix_codec\<close>, \<open>entry_codecs\<close>, \<open>ledger_format\<close>, \<open>ed25519_contract\<close>,
  \<open>corrects\<close>, \<open>base58_law\<close>, \<open>rpc_service\<close>.  The locales on encodings are interpreted on the encodings of
  \<open>Bincode_Format\<close>, \<open>header_field\<close> on the fields of a blob's header, \<open>recorder_invariant\<close> on the recorder's
  steps, and \<open>rpc_service\<close> on a server in the same process.

  \<^bold>\<open>What the lemmas show.\<close>

  \<^item> Composition: a validator that receives a leader's blobs in any order ends in the leader's state, with
    the same entries in its ledger; a leader that becomes a validator rebuilds its state from its ledger.
  \<^item> Ledger: what a leader records always verifies and replays; entries survive their encodings, their
    blobs, their files and their streams; recovery keeps exactly the entries that were written whole.
  \<^item> Tokens: a batch conserves the supply when its keys are distinct, balances stay non-negative, a
    transaction runs at most once, and only checked transactions run.  A contract pays at most once, what
    its plan names.  Where the code falls short of this (transfers to oneself, batches that spend twice,
    negative amounts and fees) there are lemmas that say so.
  \<^item> Network: a window passes entries on in order whatever order blobs arrive in, repair asks for exactly
    the missing ones, erasure coding restores a block that has lost up to four of its twenty blobs, gossip
    converges, and no reachable node table makes an operation panic.
  \<^item> Clients: a balance asked for is the balance answered; a payment made with the wallet arrives and is
    read as confirmed; the faucet keeps to its cap while its counter does not wrap.

  \<^bold>\<open>Loops and bounds.\<close>  Loops over data are recursive functions with a termination proof.  Loops that may
  not end (cutting transactions into entries, consuming the window, recovering a ledger, waiting for an
  answer) are partial functions into \<open>option\<close> or run over the list of events they wait for, and that they
  return is part of the statements.  Buffers hold less than \<open>2^63\<close> bytes, as Rust's do.  The statement on
  the network sends at most \<open>WINDOW_SIZE\<close> entries at a time, which is what a window holds.

  \<^bold>\<open>Not modelled.\<close>  Metrics, counters and logging.  The weighted choice of gossip peers, which computes with
  floating-point numbers.  Binding sockets and finding addresses (netutil.rs).  The start of threads and
  channels (ncp.rs, rpu.rs, fetch_stage.rs, blob_fetch_stage.rs, replicator.rs); a thread is the function
  of one of its turns.  The command-line programs of bin/ other than the faucet's clearing thread, and the
  benchmarks.  Key files and random keys.  Text for printing, except what the wallet shows and reads.
\<close>


lemma sample_no_rotation:
  assumes "j \<le> 2"
  shows "at_my_rotation sample_node 100 (of_nat (5 + j)) = Some False"
proof -
  consider "j = 0" | "j = 1" | "j = 2" using assms by linarith
  then show ?thesis by cases (simp_all add: at_my_rotation_def)
qed


end
